(* ===== verification/Prelude.thy ===== *)
theory Prelude
  imports Main "HOL-Library.Word"
begin

text \<open>
  Shared vocabulary of the development: the machine integer types of the Rust sources, the
  pieces of the Rust core library the kernel calls (\<^verbatim>\<open>Iterator::position\<close>,
  \<^verbatim>\<open>saturating_add\<close>, \<^verbatim>\<open>saturating_mul\<close>, \<^verbatim>\<open>saturating_sub\<close>,
  \<^verbatim>\<open>usize::div_ceil\<close>, \<^verbatim>\<open>trailing_zeros\<close>, \<^verbatim>\<open>count_ones\<close>) and the
  generic lemmas on lists and words that the component theories use. The target is x86-64, so
  \<^verbatim>\<open>usize\<close> and \<^verbatim>\<open>u64\<close> have the same width and \<^verbatim>\<open>as usize\<close> on a \<^verbatim>\<open>u64\<close>
  loses nothing; array indices are \<^typ>\<open>nat\<close>.
\<close>

unbundle bit_operations_syntax

section \<open>Machine integers\<close>

type_synonym u8 = "8 word"
type_synonym u16 = "16 word"
type_synonym u32 = "32 word"
type_synonym u64 = "64 word"
type_synonym u128 = "128 word"

text \<open>Collections: the unfolding rules of constants, and the frame rules of state updates.\<close>

named_theorems const_defs \<open>unfolding rules of the source's numeric constants\<close>
named_theorems frame_rules \<open>what an operation leaves unchanged\<close>

subsection \<open>Saturating arithmetic\<close>

definition saturating_add :: "'a::len word \<Rightarrow> 'a word \<Rightarrow> 'a word" where
  "saturating_add a b = (if unat a + unat b < 2 ^ LENGTH('a) then a + b else - 1)"

definition saturating_mul :: "'a::len word \<Rightarrow> 'a word \<Rightarrow> 'a word" where
  "saturating_mul a b = (if unat a * unat b < 2 ^ LENGTH('a) then a * b else - 1)"

definition saturating_sub :: "'a::len word \<Rightarrow> 'a word \<Rightarrow> 'a word" where
  "saturating_sub a b = (if a < b then 0 else a - b)"

lemma unat_max_word: "unat (- 1 :: 'a::len word) = 2 ^ LENGTH('a) - 1"
  by (simp add: unsigned_minus_1_eq_mask mask_eq_exp_minus_1)

lemma unat_less_power: "unat (a :: 'a::len word) < 2 ^ LENGTH('a)"
  by (rule unsigned_less)

lemma unat_saturating_add:
  "unat (saturating_add a b) = min (unat a + unat b) (2 ^ LENGTH('a) - 1)"
  for a b :: "'a::len word"
  by (auto simp: saturating_add_def unat_max_word unat_word_ariths)

lemma saturating_add_ge: "a \<le> saturating_add a b"
  using unat_less_power [of a] by (simp add: word_le_nat_alt unat_saturating_add, arith)

lemma unat_saturating_sub: "unat (saturating_sub a b) = unat a - unat b"
  by (auto simp: saturating_sub_def word_less_nat_alt unat_sub_if')

text \<open>A natural number clamped to \<^verbatim>\<open>u64\<close>.\<close>

definition saturate64 :: "nat \<Rightarrow> u64" where
  "saturate64 n = of_nat (min n (2 ^ 64 - 1))"

lemma unat_saturate64: "unat (saturate64 n) = min n (2 ^ 64 - 1)"
  by (simp add: saturate64_def unat_of_nat del: of_nat_numeral)

lemma saturate64_unat: "saturate64 (unat a) = a"
proof -
  have "unat a \<le> 2 ^ 64 - 1" using unat_less_power [of a] by simp
  then show ?thesis by (simp add: word_unat_eq_iff unat_saturate64)
qed

lemma saturating_add_saturate64: "saturating_add a b = saturate64 (unat a + unat b)"
  by (simp add: word_unat_eq_iff unat_saturating_add unat_saturate64)

lemma unat_not_max: "f \<noteq> - 1 \<Longrightarrow> unat f < 2 ^ 64 - 1" for f :: u64
proof -
  assume "f \<noteq> - 1"
  then have "unat f \<noteq> 2 ^ 64 - 1" using unat_max_word [where 'a = 64] by (auto simp: word_unat_eq_iff)
  with unat_less_power [of f] show ?thesis by simp
qed

subsection \<open>Intervals of words\<close>

lemma unat_Suc_word: "f \<noteq> - 1 \<Longrightarrow> unat (f + 1) = Suc (unat f)" for f :: "'a::len word"
proof -
  assume "f \<noteq> - 1"
  then have "unat f \<noteq> 2 ^ LENGTH('a) - 1" by (metis unat_max_word word_unat_eq_iff)
  with unat_less_power [of f] have "Suc (unat f) < 2 ^ LENGTH('a)" by linarith
  then show ?thesis by (simp add: unat_word_ariths unsigned_1)
qed

lemma less_Suc_word: "f \<noteq> - 1 \<Longrightarrow> x < f + 1 \<longleftrightarrow> x \<le> f" for f :: "'a::len word"
  by (simp add: word_less_nat_alt word_le_nat_alt unat_Suc_word less_Suc_eq_le)

lemma Suc_word_le: "f \<noteq> - 1 \<Longrightarrow> f + 1 \<le> x \<longleftrightarrow> f < x" for f :: "'a::len word"
  by (simp add: word_less_nat_alt word_le_nat_alt unat_Suc_word Suc_le_eq)

lemma less_word_not_max: "x < y \<Longrightarrow> x \<noteq> - 1" for x y :: "'a::len word"
  by (metis not_less word_n1_ge)

lemma interval_Suc_word:
  fixes f :: "'a::len word"
  assumes "f \<noteq> - 1"
  shows "s \<le> f \<Longrightarrow> {s..<f + 1} = insert f {s..<f}" "f < e \<Longrightarrow> insert f {f + 1..<e} = {f..<e}"
  unfolding set_eq_iff insert_iff atLeastLessThan_iff less_Suc_word [OF assms] Suc_word_le [OF assms]
  by (metis order_le_less)+

lemma unat_image_interval: "unat ` {s..<e} = {unat s..<unat e}" for s e :: "'a::len word"
proof
  show "{unat s..<unat e} \<subseteq> unat ` {s..<e}"
  proof
    fix n assume n: "n \<in> {unat s..<unat e}"
    then have "n < 2 ^ LENGTH('a)"
      using unat_less_power [of e] by (meson atLeastLessThan_iff order.strict_trans)
    then have "unat (of_nat n :: 'a word) = n" by (simp add: unat_of_nat)
    with n show "n \<in> unat ` {s..<e}"
      by (intro image_eqI [of _ _ "of_nat n"]) (simp_all add: word_less_nat_alt word_le_nat_alt)
  qed
qed (auto simp: word_less_nat_alt word_le_nat_alt)

lemma inj_unat: "inj_on unat S"
  by (simp add: inj_on_def word_unat_eq_iff)

lemma card_word_interval: "card {s..<e} = unat e - unat s" for s e :: "'a::len word"
  by (metis card_atLeastLessThan card_image inj_unat unat_image_interval)

section \<open>Searching\<close>

text \<open>\<^verbatim>\<open>iter().position(p)\<close>: the index of the first element that satisfies the predicate.\<close>

fun position :: "('a \<Rightarrow> bool) \<Rightarrow> 'a list \<Rightarrow> nat option" where
  "position P [] = None"
| "position P (x # xs) = (if P x then Some 0 else map_option Suc (position P xs))"

lemma position_None_iff: "position P xs = None \<longleftrightarrow> (\<forall>x \<in> set xs. \<not> P x)"
  by (induction xs) auto

lemma position_is_None: "position (\<lambda>slot. slot = None) xs = None \<longleftrightarrow> None \<notin> set xs"
  by (induction xs) auto

lemma position_SomeD:
  "position P xs = Some i \<Longrightarrow> i < length xs \<and> P (xs ! i) \<and> (\<forall>j < i. \<not> P (xs ! j))"
proof (induction xs arbitrary: i)
  case (Cons x xs)
  then show ?case
    by (cases i) (auto split: if_splits simp: nth_Cons split: nat.splits)
qed simp

lemma position_SomeI:
  "i < length xs \<Longrightarrow> P (xs ! i) \<Longrightarrow> (\<And>j. j < i \<Longrightarrow> \<not> P (xs ! j)) \<Longrightarrow> position P xs = Some i"
proof (induction xs arbitrary: i)
  case (Cons x xs)
  show ?case
  proof (cases i)
    case 0
    with Cons.prems show ?thesis by simp
  next
    case (Suc k)
    have "position P xs = Some k"
      using Cons.prems(1,2) Cons.prems(3) [of "Suc _"] Suc by (intro Cons.IH) auto
    moreover have "\<not> P x" using Cons.prems(3) [of 0] Suc by simp
    ultimately show ?thesis using Suc by simp
  qed
qed simp

lemma position_Some_iff:
  "position P xs = Some i \<longleftrightarrow> i < length xs \<and> P (xs ! i) \<and> (\<forall>j < i. \<not> P (xs ! j))"
  by (metis position_SomeD position_SomeI)

lemma position_replicate [simp]:
  "position P (replicate n x) = (if 0 < n \<and> P x then Some 0 else None)"
  by (cases n) (auto simp: position_None_iff)

section \<open>Counting in an updated list\<close>

lemma length_filter_update:
  assumes "i < length xs"
  shows "length (filter P (xs[i := x])) + (if P (xs ! i) then 1 else 0) =
    length (filter P xs) + (if P x then 1 else 0)"
proof -
  have "filter P xs = filter P (take i xs @ xs ! i # drop (Suc i) xs)"
    using assms by (simp flip: id_take_nth_drop)
  then show ?thesis using assms by (simp add: upd_conv_take_nth_drop)
qed

lemma length_filter_map: "length (filter P xs) = length (filter id (map P xs))"
  by (induction xs) auto

end
