(* ===== verification/CapCore.thy ===== *)
theory CapCore
  imports Prelude
begin

text \<open>
  The capability core, \<^verbatim>\<open>crates/cap-core/src/capability.rs\<close> and \<^verbatim>\<open>table.rs\<close>: the
  128-bit capability entry and its wire encoding, the global object table with epoch-bump
  revocation, and the per-domain capability table with mint, invoke, delegate, seal and lookup.
  Every operation takes the table it mutates and returns the updated one; \<^verbatim>\<open>Result<T, Status>\<close>
  is \<open>Status + 'a\<close> with \<open>Inl\<close> the error. The arrays are lists whose fixed length is the
  well-formedness invariant of the table.

  \<^verbatim>\<open>Rights\<close> is the \<^verbatim>\<open>bitflags!\<close> struct over \<^verbatim>\<open>u16\<close>: a 16-bit word, with
  \<^verbatim>\<open>contains\<close>, \<^verbatim>\<open>&\<close>, \<^verbatim>\<open>remove\<close>, \<^verbatim>\<open>from_bits_truncate\<close>, \<^verbatim>\<open>all\<close> and
  \<^verbatim>\<open>empty\<close> the bitwise operations that macro documents.
\<close>

section \<open>Rights\<close>

type_synonym Rights = u16

definition READ :: Rights where [const_defs]: "READ = 1"
definition WRITE :: Rights where [const_defs]: "WRITE = 2"
definition INVOKE :: Rights where [const_defs]: "INVOKE = 4"
definition DELEGATE :: Rights where [const_defs]: "DELEGATE = 8"
definition REVOKE :: Rights where [const_defs]: "REVOKE = 16"
definition MAP :: Rights where [const_defs]: "MAP = 32"
definition GRANT_CAP :: Rights where [const_defs]: "GRANT_CAP = 64"
definition SEAL :: Rights where [const_defs]: "SEAL = 128"

definition rights_all :: Rights where [const_defs]: "rights_all = 255"
definition rights_empty :: Rights where [const_defs]: "rights_empty = 0"

definition contains :: "Rights \<Rightarrow> Rights \<Rightarrow> bool" where
  "contains r q \<longleftrightarrow> r AND q = q"

definition rights_remove :: "Rights \<Rightarrow> Rights \<Rightarrow> Rights" where
  "rights_remove r q = r AND NOT q"

definition from_bits_truncate :: "u16 \<Rightarrow> Rights" where
  "from_bits_truncate b = b AND rights_all"

section \<open>Object kinds\<close>

datatype ObjectKind = ObjectKind (raw: u16)

definition Null :: ObjectKind where [const_defs]: "Null = ObjectKind 0"
definition Untyped :: ObjectKind where [const_defs]: "Untyped = ObjectKind 1"
definition Memory :: ObjectKind where [const_defs]: "Memory = ObjectKind 2"
definition AddressSpace :: ObjectKind where [const_defs]: "AddressSpace = ObjectKind 3"
definition Domain :: ObjectKind where [const_defs]: "Domain = ObjectKind 4"
definition Endpoint :: ObjectKind where [const_defs]: "Endpoint = ObjectKind 5"
definition Notification :: ObjectKind where [const_defs]: "Notification = ObjectKind 6"
definition TimeSlice :: ObjectKind where [const_defs]: "TimeSlice = ObjectKind 7"
definition Extent :: ObjectKind where [const_defs]: "Extent = ObjectKind 8"
definition DeviceQueue :: ObjectKind where [const_defs]: "DeviceQueue = ObjectKind 9"
definition KCapTable :: ObjectKind where [const_defs]: "KCapTable = ObjectKind 10"
definition IrqHandler :: ObjectKind where [const_defs]: "IrqHandler = ObjectKind 11"

section \<open>Capability entries and the 128-bit layout\<close>

record CapEntry =
  object_id :: u64
  rights :: Rights
  epoch :: u32
  type_tag :: ObjectKind
  badge :: u16

definition encode :: "CapEntry \<Rightarrow> u128" where
  "encode e =
    (let oid = ucast (object_id e AND 0x0000FFFFFFFFFFFF);
         r = push_bit 48 (ucast (rights e));
         ep = push_bit 64 (ucast (epoch e));
         tt = push_bit 96 (ucast (raw (type_tag e)));
         bd = push_bit 112 (ucast (badge e))
     in oid OR r OR ep OR tt OR bd)"

definition decode :: "u128 \<Rightarrow> CapEntry" where
  "decode v =
    (let oid = v AND 0x0000FFFFFFFFFFFF;
         r = from_bits_truncate (ucast (drop_bit 48 v AND 0xFFFF));
         ep = ucast (drop_bit 64 v AND 0xFFFFFFFF);
         tt = ObjectKind (ucast (drop_bit 96 v AND 0xFFFF));
         bd = ucast (drop_bit 112 v AND 0xFFFF)
     in \<lparr>object_id = ucast oid, rights = r, epoch = ep, type_tag = tt, badge = bd\<rparr>)"

section \<open>The object table\<close>

definition CAP_TABLE_SLOTS :: nat where [const_defs]: "CAP_TABLE_SLOTS = 256"
definition OBJECT_TABLE_SIZE :: nat where [const_defs]: "OBJECT_TABLE_SIZE = 1024"

datatype Status = Ok | ErrBadCPtr | ErrRevoked | ErrType | ErrRights | ErrMethod

record ObjectMeta =
  kind :: ObjectKind
  current_epoch :: u32
  present :: bool

record ObjectTable =
  metas :: "ObjectMeta list"

definition ObjectTable_new :: ObjectTable where
  "ObjectTable_new =
    \<lparr>metas = replicate OBJECT_TABLE_SIZE \<lparr>kind = Null, current_epoch = 0, present = False\<rparr>\<rparr>"

definition create_object :: "ObjectTable \<Rightarrow> ObjectKind \<Rightarrow> u64 option \<times> ObjectTable" where
  "create_object ot k =
    (case position (\<lambda>m. \<not> present m) (metas ot) of
       None \<Rightarrow> (None, ot)
     | Some i \<Rightarrow>
         (Some (of_nat i),
          ot\<lparr>metas := (metas ot)[i := \<lparr>kind = k, current_epoch = 0, present = True\<rparr>]\<rparr>))"

definition revoke :: "ObjectTable \<Rightarrow> u64 \<Rightarrow> Status \<times> ObjectTable" where
  "revoke ot oid =
    (let idx = unat oid in
     if OBJECT_TABLE_SIZE \<le> idx \<or> \<not> present (metas ot ! idx) then (ErrBadCPtr, ot)
     else (Ok, ot\<lparr>metas := (metas ot)
       [idx := (metas ot ! idx)\<lparr>current_epoch := current_epoch (metas ot ! idx) + 1\<rparr>]\<rparr>))"

definition destroy_object :: "ObjectTable \<Rightarrow> u64 \<Rightarrow> ObjectTable" where
  "destroy_object ot oid =
    (let idx = unat oid in
     if idx < OBJECT_TABLE_SIZE
     then ot\<lparr>metas := (metas ot)[idx := (metas ot ! idx)\<lparr>present := False, kind := Null\<rparr>]\<rparr>
     else ot)"

section \<open>The capability table\<close>

record CapTable =
  slots :: "CapEntry option list"

definition CapTable_new :: CapTable where
  "CapTable_new = \<lparr>slots = replicate CAP_TABLE_SLOTS None\<rparr>"

definition mint ::
  "CapTable \<Rightarrow> ObjectTable \<Rightarrow> u64 \<Rightarrow> Rights \<Rightarrow> u16 \<Rightarrow> (Status + u16) \<times> CapTable" where
  "mint ct ot oid r bd =
    (case position (\<lambda>s. s = None) (slots ct) of
       None \<Rightarrow> (Inl ErrBadCPtr, ct)
     | Some slot \<Rightarrow>
         let idx = unat oid in
         if OBJECT_TABLE_SIZE \<le> idx \<or> \<not> present (metas ot ! idx) then (Inl ErrBadCPtr, ct)
         else
           let meta = metas ot ! idx;
               entry = \<lparr>object_id = oid, rights = r, epoch = current_epoch meta,
                        type_tag = kind meta, badge = bd\<rparr>
           in (Inr (of_nat slot), ct\<lparr>slots := (slots ct)[slot := Some entry]\<rparr>))"

definition invoke :: "CapTable \<Rightarrow> ObjectTable \<Rightarrow> u16 \<Rightarrow> u16 \<Rightarrow> Rights \<Rightarrow> Status" where
  "invoke ct ot cptr method required_rights =
    (let idx = unat cptr in
     if CAP_TABLE_SLOTS \<le> idx then ErrBadCPtr
     else case slots ct ! idx of
       None \<Rightarrow> ErrBadCPtr
     | Some entry \<Rightarrow>
         let oid = unat (object_id entry) in
         if OBJECT_TABLE_SIZE \<le> oid then ErrBadCPtr
         else
           let meta = metas ot ! oid in
           if \<not> present meta \<or> type_tag entry \<noteq> kind meta \<or> epoch entry \<noteq> current_epoch meta
           then (if epoch entry \<noteq> current_epoch meta then ErrRevoked else ErrType)
           else if \<not> contains (rights entry) required_rights then ErrRights
           else Ok)"

definition delegate ::
  "CapTable \<Rightarrow> ObjectTable \<Rightarrow> u16 \<Rightarrow> Rights \<Rightarrow> u16 \<Rightarrow> CapTable \<Rightarrow> (Status + u16) \<times> CapTable" where
  "delegate ct ot src_cptr msk bd dst =
    (let src_idx = unat src_cptr in
     if CAP_TABLE_SLOTS \<le> src_idx then (Inl ErrBadCPtr, dst)
     else case slots ct ! src_idx of
       None \<Rightarrow> (Inl ErrBadCPtr, dst)
     | Some entry \<Rightarrow>
         if \<not> contains (rights entry) DELEGATE then (Inl ErrRights, dst)
         else
           let oid = unat (object_id entry) in
           if OBJECT_TABLE_SIZE \<le> oid then (Inl ErrBadCPtr, dst)
           else
             let meta = metas ot ! oid in
             if \<not> present meta \<or> type_tag entry \<noteq> kind meta \<or> epoch entry \<noteq> current_epoch meta
             then (Inl (if epoch entry \<noteq> current_epoch meta then ErrRevoked else ErrType), dst)
             else
               let child = \<lparr>object_id = object_id entry, rights = rights entry AND msk,
                            epoch = epoch entry, type_tag = type_tag entry, badge = bd\<rparr>
               in case position (\<lambda>s. s = None) (slots dst) of
                    None \<Rightarrow> (Inl ErrBadCPtr, dst)
                  | Some dst_slot \<Rightarrow>
                      (Inr (of_nat dst_slot), dst\<lparr>slots := (slots dst)[dst_slot := Some child]\<rparr>))"

definition seal :: "CapTable \<Rightarrow> u16 \<Rightarrow> Status \<times> CapTable" where
  "seal ct cptr =
    (let idx = unat cptr in
     if CAP_TABLE_SLOTS \<le> idx then (ErrBadCPtr, ct)
     else case slots ct ! idx of
       Some entry \<Rightarrow>
         (Ok, ct\<lparr>slots := (slots ct)
           [idx := Some (entry\<lparr>rights := rights_remove (rights entry) DELEGATE\<rparr>)]\<rparr>)
     | None \<Rightarrow> (ErrBadCPtr, ct))"

definition lookup :: "CapTable \<Rightarrow> u16 \<Rightarrow> ObjectTable \<Rightarrow> Status + CapEntry" where
  "lookup ct cptr ot =
    (let idx = unat cptr in
     if CAP_TABLE_SLOTS \<le> idx then Inl ErrBadCPtr
     else case slots ct ! idx of
       None \<Rightarrow> Inl ErrBadCPtr
     | Some entry \<Rightarrow>
         let oid = unat (object_id entry) in
         if OBJECT_TABLE_SIZE \<le> oid then Inl ErrBadCPtr
         else
           let meta = metas ot ! oid in
           if \<not> present meta \<or> type_tag entry \<noteq> kind meta \<or> epoch entry \<noteq> current_epoch meta
           then Inl (if epoch entry \<noteq> current_epoch meta then ErrRevoked else ErrType)
           else Inr entry)"

section \<open>Specification vocabulary\<close>

text \<open>
  \<^item> \<open>cap_at\<close>: the entry a CPtr names, if any.
  \<^item> \<open>valid_cap\<close>: the validity rule of \<^verbatim>\<open>docs/CAP_ABI.md\<close> section 3, with presence.
  \<^item> \<open>stale\<close>: what the three checking operations answer for an entry that is not valid.
  \<^item> \<open>derives p c\<close>: \<open>c\<close> is authority obtainable from \<open>p\<close>: the same object, epoch
    and type, and no right that \<open>p\<close> lacks.
\<close>

definition wf_objects :: "ObjectTable \<Rightarrow> bool" where
  "wf_objects ot \<longleftrightarrow> length (metas ot) = OBJECT_TABLE_SIZE"

definition wf_caps :: "CapTable \<Rightarrow> bool" where
  "wf_caps ct \<longleftrightarrow> length (slots ct) = CAP_TABLE_SLOTS"

definition cap_at :: "CapTable \<Rightarrow> u16 \<Rightarrow> CapEntry option" where
  "cap_at ct c = (if unat c < CAP_TABLE_SLOTS then slots ct ! unat c else None)"

definition object_meta :: "ObjectTable \<Rightarrow> u64 \<Rightarrow> ObjectMeta" where
  "object_meta ot oid = metas ot ! unat oid"

definition valid_cap :: "ObjectTable \<Rightarrow> CapEntry \<Rightarrow> bool" where
  "valid_cap ot e \<longleftrightarrow>
     unat (object_id e) < OBJECT_TABLE_SIZE \<and> present (object_meta ot (object_id e)) \<and>
     type_tag e = kind (object_meta ot (object_id e)) \<and>
     epoch e = current_epoch (object_meta ot (object_id e))"

definition stale :: "ObjectTable \<Rightarrow> CapEntry \<Rightarrow> Status" where
  "stale ot e =
    (if OBJECT_TABLE_SIZE \<le> unat (object_id e) then ErrBadCPtr
     else if epoch e \<noteq> current_epoch (object_meta ot (object_id e)) then ErrRevoked else ErrType)"

definition derives :: "CapEntry \<Rightarrow> CapEntry \<Rightarrow> bool" where
  "derives p c \<longleftrightarrow> object_id c = object_id p \<and> epoch c = epoch p \<and> type_tag c = type_tag p \<and>
     contains (rights p) (rights c)"

fun revoke_n :: "nat \<Rightarrow> ObjectTable \<Rightarrow> u64 \<Rightarrow> ObjectTable" where
  "revoke_n 0 ot oid = ot"
| "revoke_n (Suc n) ot oid = revoke_n n (snd (revoke ot oid)) oid"

text \<open>A concrete state for the witnesses: one Memory object and one capability to it.\<close>

definition demo_objects :: ObjectTable where
  "demo_objects = snd (create_object ObjectTable_new Memory)"

definition demo_entry :: CapEntry where
  "demo_entry = \<lparr>object_id = 0, rights = READ OR INVOKE OR DELEGATE, epoch = 0,
     type_tag = Memory, badge = 0\<rparr>"

definition demo_caps :: CapTable where
  "demo_caps = snd (mint CapTable_new demo_objects 0 (READ OR INVOKE OR DELEGATE) 0)"

section \<open>Rights algebra\<close>

lemma contains_refl [simp]: "contains r r"
  by (simp add: contains_def)

lemma contains_trans: "contains a b \<Longrightarrow> contains b c \<Longrightarrow> contains a c"
  unfolding contains_def by (metis and.assoc)

lemma contains_and [simp]: "contains r (r AND m)"
  by (simp add: contains_def and.assoc [symmetric])

lemma contains_remove [simp]: "contains r (rights_remove r q)"
  by (simp add: rights_remove_def)

lemma contains_bit: "contains r q \<longleftrightarrow> (\<forall>n. bit q n \<longrightarrow> bit r n)"
  unfolding contains_def by (metis bit_and_iff bit_word_eqI)

lemma remove_not_contains: "q \<noteq> 0 \<Longrightarrow> \<not> contains (rights_remove r q) q"
  by (auto simp: contains_bit rights_remove_def bit_simps bit_eq_iff)

lemma remove_other:
  fixes p q :: Rights
  assumes "p AND q = 0"
  shows "contains (rights_remove r q) p \<longleftrightarrow> contains r p"
proof -
  have "\<not> (bit p n \<and> bit q n)" for n
    using assms by (metis bit_0_eq bit_and_iff bot_apply bot_bool_def)
  then show ?thesis
    by (auto simp: contains_bit rights_remove_def bit_simps dest: bit_imp_le_length)
qed

lemma derives_refl [simp]: "derives e e"
  by (simp add: derives_def)

lemma derives_trans: "derives a b \<Longrightarrow> derives b c \<Longrightarrow> derives a c"
  by (auto simp: derives_def intro: contains_trans)

lemma valid_cap_derives: "derives p c \<Longrightarrow> valid_cap ot c \<longleftrightarrow> valid_cap ot p"
  by (auto simp: derives_def valid_cap_def)

section \<open>The 128-bit layout\<close>

lemma and_mask48: "(a :: 'a::len word) AND 0x0000FFFFFFFFFFFF = take_bit 48 a"
  by (simp add: take_bit_eq_mask mask_eq_exp_minus_1)

lemma and_mask16: "(a :: 'a::len word) AND 0xFFFF = take_bit 16 a"
  by (simp add: take_bit_eq_mask mask_eq_exp_minus_1)

lemma and_mask32: "(a :: 'a::len word) AND 0xFFFFFFFF = take_bit 32 a"
  by (simp add: take_bit_eq_mask mask_eq_exp_minus_1)

lemma and_mask8: "(a :: 'a::len word) AND 255 = take_bit 8 a"
  by (simp add: take_bit_eq_mask mask_eq_exp_minus_1)

lemmas and_masks = and_mask48 and_mask16 and_mask32 and_mask8

lemma take_bit_eq_self_unat: "take_bit n w = w \<longleftrightarrow> unat w < 2 ^ n" for w :: "'a::len word"
proof -
  have "take_bit n w = w \<longleftrightarrow> unat (take_bit n w) = unat w" by (rule word_unat_eq_iff)
  then show ?thesis by (simp only: unsigned_take_bit_eq take_bit_nat_eq_self_iff)
qed

lemma decode_encode:
  "decode (encode e) = e\<lparr>object_id := take_bit 48 (object_id e), rights := take_bit 8 (rights e)\<rparr>"
proof -
  have o1: "ucast (encode e AND 0x0000FFFFFFFFFFFF) = take_bit 48 (object_id e)"
    by (rule bit_word_eqI) (auto simp: encode_def Let_def and_masks bit_simps dest: bit_imp_le_length)
  have r1: "ucast (drop_bit 48 (encode e) AND 0xFFFF) AND 255 = take_bit 8 (rights e)"
    by (rule bit_word_eqI) (auto simp: encode_def Let_def and_masks bit_simps dest: bit_imp_le_length)
  have e1: "ucast (drop_bit 64 (encode e) AND 0xFFFFFFFF) = epoch e"
    by (rule bit_word_eqI) (auto simp: encode_def Let_def and_masks bit_simps dest: bit_imp_le_length)
  have t1: "ucast (drop_bit 96 (encode e) AND 0xFFFF) = raw (type_tag e)"
    by (rule bit_word_eqI) (auto simp: encode_def Let_def and_masks bit_simps dest: bit_imp_le_length)
  have b1: "ucast (drop_bit 112 (encode e) AND 0xFFFF) = badge e"
    by (rule bit_word_eqI) (auto simp: encode_def Let_def and_masks bit_simps dest: bit_imp_le_length)
  show ?thesis
    unfolding decode_def Let_def from_bits_truncate_def rights_all_def o1 r1 e1 t1 b1 by simp
qed

lemma bit_encode_decode: "bit (encode (decode v)) n \<longleftrightarrow> bit v n \<and> \<not> (56 \<le> n \<and> n < 64)"
proof -
  consider "n < 48" | "48 \<le> n" "n < 56" | "56 \<le> n" "n < 64" | "64 \<le> n" "n < 96"
    | "96 \<le> n" "n < 112" | "112 \<le> n" "n < 128" | "128 \<le> n"
    by linarith
  then show ?thesis
    by cases (auto simp: encode_def decode_def Let_def and_masks from_bits_truncate_def
        rights_all_def bit_simps less_diff_conv2 dest: bit_imp_le_length)
qed

section \<open>The operations in terms of the entry a CPtr names\<close>

lemmas check_defs = cap_at_def valid_cap_def stale_def object_meta_def Let_def

lemma lookup_eq:
  "lookup ct c ot =
    (case cap_at ct c of None \<Rightarrow> Inl ErrBadCPtr
     | Some e \<Rightarrow> if valid_cap ot e then Inr e else Inl (stale ot e))"
  by (auto simp: lookup_def check_defs split: option.splits)

lemma invoke_eq:
  "invoke ct ot c m r =
    (case cap_at ct c of None \<Rightarrow> ErrBadCPtr
     | Some e \<Rightarrow> if \<not> valid_cap ot e then stale ot e
         else if contains (rights e) r then Ok else ErrRights)"
  by (auto simp: invoke_def check_defs split: option.splits)

lemma child_entry:
  "\<lparr>object_id = object_id e, rights = r, epoch = epoch e, type_tag = type_tag e, badge = b\<rparr> =
   e\<lparr>rights := r, badge := b\<rparr>"
  by simp

lemma delegate_eq:
  "delegate ct ot c m b dst =
    (case cap_at ct c of None \<Rightarrow> (Inl ErrBadCPtr, dst)
     | Some e \<Rightarrow>
         if \<not> contains (rights e) DELEGATE then (Inl ErrRights, dst)
         else if \<not> valid_cap ot e then (Inl (stale ot e), dst)
         else case position (\<lambda>s. s = None) (slots dst) of
           None \<Rightarrow> (Inl ErrBadCPtr, dst)
         | Some i \<Rightarrow>
             (Inr (of_nat i),
              dst\<lparr>slots := (slots dst)[i := Some (e\<lparr>rights := rights e AND m, badge := b\<rparr>)]\<rparr>))"
  unfolding delegate_def Let_def child_entry
  by (auto simp: check_defs split: option.splits)

lemma stale_not_Ok [simp]: "stale ot e \<noteq> Ok"
  by (simp add: stale_def)

lemma invoke_Ok_iff:
  "invoke ct ot c m r = Ok \<longleftrightarrow>
     (\<exists>e. cap_at ct c = Some e \<and> valid_cap ot e \<and> contains (rights e) r)"
  by (auto simp: invoke_eq split: option.splits)

lemma lookup_Inr_iff: "lookup ct c ot = Inr e \<longleftrightarrow> cap_at ct c = Some e \<and> valid_cap ot e"
  by (auto simp: lookup_eq split: option.splits)

subsection \<open>Slot updates\<close>

lemma unat_of_nat_slot: "i < CAP_TABLE_SLOTS \<Longrightarrow> unat (of_nat i :: u16) = i"
  by (simp add: CAP_TABLE_SLOTS_def unat_of_nat)

lemma unat_of_nat_oid: "i < OBJECT_TABLE_SIZE \<Longrightarrow> unat (of_nat i :: u64) = i"
  by (simp add: OBJECT_TABLE_SIZE_def unat_of_nat)

lemma cap_at_update:
  assumes "wf_caps ct" "i < CAP_TABLE_SLOTS"
  shows "cap_at (ct\<lparr>slots := (slots ct)[i := x]\<rparr>) c = (if unat c = i then x else cap_at ct c)"
  using assms by (auto simp: cap_at_def wf_caps_def)

lemma wf_caps_update [simp]: "wf_caps (ct\<lparr>slots := (slots ct)[i := x]\<rparr>) \<longleftrightarrow> wf_caps ct"
  by (simp add: wf_caps_def)

lemma wf_caps_new [simp]: "wf_caps CapTable_new"
  by (simp add: wf_caps_def CapTable_new_def)

lemma cap_at_new [simp]: "cap_at CapTable_new c = None"
  by (simp add: cap_at_def CapTable_new_def)

lemma free_slotD:
  assumes "wf_caps ct" "position (\<lambda>s. s = None) (slots ct) = Some i"
  shows "i < CAP_TABLE_SLOTS" "unat (of_nat i :: u16) = i" "cap_at ct (of_nat i) = None"
proof -
  show i: "i < CAP_TABLE_SLOTS"
    using assms by (auto simp: wf_caps_def dest: position_SomeD)
  then show "unat (of_nat i :: u16) = i" by (rule unat_of_nat_slot)
  then show "cap_at ct (of_nat i) = None"
    using assms i by (auto simp: cap_at_def dest: position_SomeD)
qed

lemma cap_at_install:
  assumes "wf_caps ct" "position (\<lambda>s. s = None) (slots ct) = Some i"
  shows "cap_at (ct\<lparr>slots := (slots ct)[i := Some e]\<rparr>) = (cap_at ct)(of_nat i := Some e)"
proof
  fix c :: u16
  have "unat c = i \<longleftrightarrow> c = of_nat i"
    using free_slotD(2) [OF assms] by (metis word_unat_eq_iff)
  then show "cap_at (ct\<lparr>slots := (slots ct)[i := Some e]\<rparr>) c = ((cap_at ct)(of_nat i := Some e)) c"
    using cap_at_update [OF assms(1) free_slotD(1) [OF assms]] by simp
qed

subsection \<open>Functional behaviour of mint, delegate and seal\<close>

lemma mint_Inr_iff:
  assumes "wf_caps ct"
  shows "mint ct ot oid r b = (Inr c, ct') \<longleftrightarrow>
    unat oid < OBJECT_TABLE_SIZE \<and> present (object_meta ot oid) \<and>
    (\<exists>i. position (\<lambda>s. s = None) (slots ct) = Some i \<and> c = of_nat i \<and>
         ct' = ct\<lparr>slots := (slots ct)[i := Some
           \<lparr>object_id = oid, rights = r, epoch = current_epoch (object_meta ot oid),
            type_tag = kind (object_meta ot oid), badge = b\<rparr>]\<rparr>)"
  by (auto simp: mint_def object_meta_def Let_def split: option.splits)

lemma mint_cap_at:
  assumes "wf_caps ct" "mint ct ot oid r b = (Inr c, ct')"
  shows "cap_at ct c = None"
    and "cap_at ct' = (cap_at ct)(c \<mapsto>
      \<lparr>object_id = oid, rights = r, epoch = current_epoch (object_meta ot oid),
       type_tag = kind (object_meta ot oid), badge = b\<rparr>)"
    and "wf_caps ct'"
  using assms by (auto simp: mint_Inr_iff cap_at_install free_slotD)

lemma mint_Inl: "mint ct ot oid r b = (Inl st, ct') \<Longrightarrow> ct' = ct \<and> st = ErrBadCPtr"
  by (auto simp: mint_def Let_def split: option.splits if_splits)

lemma delegate_Inl: "delegate ct ot c m b dst = (Inl st, dst') \<Longrightarrow> dst' = dst \<and> st \<noteq> Ok"
  by (auto simp: delegate_eq split: option.splits if_splits)

lemma delegate_Inr:
  assumes "wf_caps dst" "delegate ct ot c m b dst = (Inr d, dst')"
  obtains e where "cap_at ct c = Some e" "valid_cap ot e" "contains (rights e) DELEGATE"
    "cap_at dst d = None" "unat d < CAP_TABLE_SLOTS"
    "cap_at dst' = (cap_at dst)(d \<mapsto> e\<lparr>rights := rights e AND m, badge := b\<rparr>)" "wf_caps dst'"
proof -
  from assms(2) obtain e i where e: "cap_at ct c = Some e" "valid_cap ot e"
      "contains (rights e) DELEGATE" "position (\<lambda>s. s = None) (slots dst) = Some i" "d = of_nat i"
      "dst' = dst\<lparr>slots := (slots dst)[i := Some (e\<lparr>rights := rights e AND m, badge := b\<rparr>)]\<rparr>"
    by (auto simp: delegate_eq split: option.splits if_splits)
  show ?thesis
    by (rule that [of e]) (use e assms(1) free_slotD [OF assms(1) e(4)] in \<open>simp_all add: cap_at_install\<close>)
qed

lemma seal_eq:
  assumes "wf_caps ct"
  shows "seal ct c =
    (case cap_at ct c of None \<Rightarrow> (ErrBadCPtr, ct)
     | Some e \<Rightarrow> (Ok, ct\<lparr>slots := (slots ct)
         [unat c := Some (e\<lparr>rights := rights_remove (rights e) DELEGATE\<rparr>)]\<rparr>))"
  using assms by (auto simp: seal_def cap_at_def Let_def split: option.splits)

section \<open>The object table\<close>

lemma wf_objects_new [simp]: "wf_objects ObjectTable_new"
  by (simp add: wf_objects_def ObjectTable_new_def)

lemma object_meta_update:
  assumes "wf_objects ot" "i < OBJECT_TABLE_SIZE"
  shows "object_meta (ot\<lparr>metas := (metas ot)[i := x]\<rparr>) oid =
    (if unat oid = i then x else object_meta ot oid)"
  using assms by (auto simp: object_meta_def wf_objects_def)

lemma wf_objects_update [simp]:
  "wf_objects (ot\<lparr>metas := (metas ot)[i := x]\<rparr>) \<longleftrightarrow> wf_objects ot"
  by (simp add: wf_objects_def)

lemma create_object_Some:
  assumes "wf_objects ot" "create_object ot k = (Some oid, ot')"
  shows "unat oid < OBJECT_TABLE_SIZE" "\<not> present (object_meta ot oid)"
    "object_meta ot' = (object_meta ot)(oid := \<lparr>kind = k, current_epoch = 0, present = True\<rparr>)"
    "wf_objects ot'"
proof -
  from assms(2) obtain i where i: "position (\<lambda>m. \<not> present m) (metas ot) = Some i" "oid = of_nat i"
      "ot' = ot\<lparr>metas := (metas ot)[i := \<lparr>kind = k, current_epoch = 0, present = True\<rparr>]\<rparr>"
    by (auto simp: create_object_def split: option.splits)
  have lt: "i < OBJECT_TABLE_SIZE" using i(1) assms(1)
    by (auto simp: wf_objects_def dest: position_SomeD)
  have un: "unat oid = i" using i(2) unat_of_nat_oid [OF lt] by simp
  show "unat oid < OBJECT_TABLE_SIZE" using lt un by simp
  show "\<not> present (object_meta ot oid)"
    using position_SomeD [OF i(1)] un by (simp add: object_meta_def)
  show "wf_objects ot'" using i(3) assms(1) by simp
  have "unat x = i \<longleftrightarrow> x = oid" for x using un word_unat_eq_iff by auto
  then show "object_meta ot' = (object_meta ot)(oid := \<lparr>kind = k, current_epoch = 0, present = True\<rparr>)"
    using i(3) object_meta_update [OF assms(1) lt] by (auto simp: fun_eq_iff)
qed

lemma create_object_None_iff:
  "fst (create_object ot k) = None \<longleftrightarrow> (\<forall>m \<in> set (metas ot). present m)"
  by (auto simp: create_object_def position_None_iff split: option.splits)
    (metis option.distinct(1) position_None_iff)

lemma create_object_None: "create_object ot k = (None, ot') \<Longrightarrow> ot' = ot"
  by (auto simp: create_object_def split: option.splits)

lemma revoke_eq:
  "revoke ot oid =
    (if unat oid < OBJECT_TABLE_SIZE \<and> present (object_meta ot oid)
     then (Ok, ot\<lparr>metas := (metas ot)
       [unat oid := (object_meta ot oid)\<lparr>current_epoch := current_epoch (object_meta ot oid) + 1\<rparr>]\<rparr>)
     else (ErrBadCPtr, ot))"
  by (auto simp: revoke_def object_meta_def Let_def)

lemma revoke_wf [simp]: "wf_objects (snd (revoke ot oid)) \<longleftrightarrow> wf_objects ot"
  by (simp add: revoke_eq)

lemma object_meta_revoke:
  assumes "wf_objects ot" "unat oid < OBJECT_TABLE_SIZE" "present (object_meta ot oid)"
  shows "object_meta (snd (revoke ot oid)) =
    (object_meta ot)(oid := (object_meta ot oid)
      \<lparr>current_epoch := current_epoch (object_meta ot oid) + 1\<rparr>)"
  using assms by (auto simp: revoke_eq object_meta_update fun_eq_iff word_unat_eq_iff)

lemma object_meta_revoke_n:
  assumes "wf_objects ot" "unat oid < OBJECT_TABLE_SIZE" "present (object_meta ot oid)"
  shows "object_meta (revoke_n n ot oid) =
      (object_meta ot)(oid := (object_meta ot oid)
        \<lparr>current_epoch := current_epoch (object_meta ot oid) + of_nat n\<rparr>)"
    and "wf_objects (revoke_n n ot oid)"
  using assms
  by (induction n arbitrary: ot) (auto simp: object_meta_revoke fun_eq_iff algebra_simps)

lemma object_table_eqI:
  assumes "wf_objects a" "wf_objects b"
    and "\<And>oid. unat oid < OBJECT_TABLE_SIZE \<Longrightarrow> object_meta a oid = object_meta b oid"
  shows "a = b"
proof -
  have "metas a ! i = metas b ! i" if "i < OBJECT_TABLE_SIZE" for i
    using assms(3) [of "of_nat i"] that unat_of_nat_oid [OF that] by (simp add: object_meta_def)
  then have "metas a = metas b" using assms(1,2)
    by (auto simp: wf_objects_def intro: nth_equalityI)
  then show ?thesis by simp
qed

section \<open>The concrete state\<close>

lemma create_object_new:
  "create_object ObjectTable_new k = (Some 0, ObjectTable_new
     \<lparr>metas := (metas ObjectTable_new)[0 := \<lparr>kind = k, current_epoch = 0, present = True\<rparr>]\<rparr>)"
  by (simp add: create_object_def ObjectTable_new_def OBJECT_TABLE_SIZE_def)

lemma demo_meta: "object_meta demo_objects 0 = \<lparr>kind = Memory, current_epoch = 0, present = True\<rparr>"
  by (simp add: demo_objects_def create_object_new object_meta_update OBJECT_TABLE_SIZE_def)

lemma wf_demo_objects [simp]: "wf_objects demo_objects"
  by (simp add: demo_objects_def create_object_new)

lemma valid_demo_entry [simp]: "valid_cap demo_objects demo_entry"
  by (simp add: valid_cap_def demo_entry_def demo_meta OBJECT_TABLE_SIZE_def)

lemma demo_mint: "mint CapTable_new demo_objects 0 (READ OR INVOKE OR DELEGATE) 0 =
    (Inr 0, CapTable_new\<lparr>slots := (slots CapTable_new)[0 := Some demo_entry]\<rparr>)"
proof -
  have "position (\<lambda>s. s = None) (slots CapTable_new) = Some 0"
    by (simp add: CapTable_new_def CAP_TABLE_SLOTS_def)
  moreover have "present (metas demo_objects ! 0)" "metas demo_objects ! 0 = object_meta demo_objects 0"
    using demo_meta by (simp_all add: object_meta_def)
  ultimately show ?thesis
    by (simp add: mint_def demo_entry_def demo_meta OBJECT_TABLE_SIZE_def)
qed

lemma wf_demo_caps [simp]: "wf_caps demo_caps"
  by (simp add: demo_caps_def demo_mint)

lemma cap_at_demo [simp]: "cap_at demo_caps c = (if c = 0 then Some demo_entry else None)"
  by (simp add: demo_caps_def demo_mint cap_at_update CAP_TABLE_SLOTS_def unat_eq_0)

lemma demo_entry_sel [simp]:
  "object_id demo_entry = 0" "epoch demo_entry = 0" "type_tag demo_entry = Memory"
  "rights demo_entry = 13" "contains 13 DELEGATE"
  by (simp_all add: demo_entry_def const_defs contains_def)

section \<open>Properties\<close>

text \<open>
  C1: revocation is complete (invariant I2 of \<^verbatim>\<open>docs/CAP_ABI.md\<close>). Revoke a live object any
  number of times short of a full turn of the 32-bit epoch: every capability to it that was
  valid is now refused with \<open>ErrRevoked\<close> by invoke, by lookup and, where it carried
  \<open>DELEGATE\<close>, by delegate, whatever table holds it; capabilities to every other object are
  exactly as valid as before.
\<close>

theorem revoke_complete:
  assumes "wf_objects ot" and "valid_cap ot e" and "0 < n" and "n < 2 ^ 32"
  defines "ot' \<equiv> revoke_n n ot (object_id e)"
  shows "(\<forall>ct c. cap_at ct c = Some e \<longrightarrow>
            (\<forall>m r. invoke ct ot' c m r = ErrRevoked) \<and>
            lookup ct c ot' = Inl ErrRevoked \<and>
            (\<forall>m b dst. contains (rights e) DELEGATE \<longrightarrow>
               delegate ct ot' c m b dst = (Inl ErrRevoked, dst))) \<and>
         (\<forall>f. object_id f \<noteq> object_id e \<longrightarrow> valid_cap ot' f = valid_cap ot f)"
proof -
  have oid: "unat (object_id e) < OBJECT_TABLE_SIZE" "present (object_meta ot (object_id e))"
      "epoch e = current_epoch (object_meta ot (object_id e))"
    using assms(2) by (auto simp: valid_cap_def)
  note meta = object_meta_revoke_n(1) [OF assms(1) oid(1,2), of n, folded ot'_def]
  have "(of_nat n :: u32) \<noteq> 0"
    using assms(3,4) by (simp add: word_of_nat_eq_0_iff nat_dvd_not_less)
  then have "\<not> valid_cap ot' e" "stale ot' e = ErrRevoked"
    using oid by (auto simp: valid_cap_def stale_def meta)
  moreover have "valid_cap ot' f = valid_cap ot f" if "object_id f \<noteq> object_id e" for f
    using that by (simp add: valid_cap_def meta)
  ultimately show ?thesis
    by (auto simp: invoke_eq lookup_eq delegate_eq)
qed

theorem revoke_complete_witness:
  "wf_objects demo_objects \<and> valid_cap demo_objects demo_entry \<and> (0::nat) < 3 \<and> (3::nat) < 2 ^ 32 \<and>
   invoke demo_caps (revoke_n 3 demo_objects 0) 0 1 INVOKE = ErrRevoked \<and>
   lookup demo_caps 0 (revoke_n 3 demo_objects 0) = Inl ErrRevoked"
  using revoke_complete [of demo_objects demo_entry 3] by simp

text \<open>
  C29: the epoch counter wraps. Exactly \<open>2 ^ 32\<close> revocations of a live object give back the very
  same object table, so every capability revoked by the first of them is honoured again. The
  object id is not retired, as section 3 of \<^verbatim>\<open>docs/CAP_ABI.md\<close> says it is.
\<close>

theorem revoke_wraps:
  assumes "wf_objects ot" and "unat oid < OBJECT_TABLE_SIZE" and "present (object_meta ot oid)"
  shows "revoke_n (2 ^ 32) ot oid = ot"
  using assms object_meta_revoke_n [OF assms, of "2 ^ 32"]
  by (intro object_table_eqI) (simp_all add: word_of_nat_eq_0_iff)

theorem revoke_wraps_witness:
  "present (object_meta demo_objects 0) \<and> revoke_n (2 ^ 32) demo_objects 0 = demo_objects"
proof -
  have "present (object_meta demo_objects 0)" by (simp add: demo_meta)
  with revoke_wraps [of demo_objects 0] show ?thesis
    by (simp add: OBJECT_TABLE_SIZE_def del: revoke_n.simps)
qed

text \<open>
  C27: the wire layout. Decoding an encoded entry gives the entry back exactly when its object id
  fits the 48-bit field and its rights use the eight defined flags; encoding a decoded 128-bit
  value gives the value back exactly when its eight reserved rights bits (56 to 63) are zero.
\<close>

theorem capability_layout_roundtrip:
  "(decode (encode e) = e \<longleftrightarrow> unat (object_id e) < 2 ^ 48 \<and> unat (rights e) < 2 ^ 8) \<and>
   (encode (decode v) = v \<longleftrightarrow> (\<forall>n. 56 \<le> n \<and> n < 64 \<longrightarrow> \<not> bit v n))"
proof
  have "decode (encode e) = e \<longleftrightarrow>
      take_bit 48 (object_id e) = object_id e \<and> take_bit 8 (rights e) = rights e"
    unfolding decode_encode by (cases e) simp
  also have "\<dots> \<longleftrightarrow> unat (object_id e) < 2 ^ 48 \<and> unat (rights e) < 2 ^ 8"
    by (simp add: take_bit_eq_self_unat)
  finally show "decode (encode e) = e \<longleftrightarrow> unat (object_id e) < 2 ^ 48 \<and> unat (rights e) < 2 ^ 8" .
next
  show "encode (decode v) = v \<longleftrightarrow> (\<forall>n. 56 \<le> n \<and> n < 64 \<longrightarrow> \<not> bit v n)"
    by (metis bit_encode_decode bit_word_eqI)
qed

theorem capability_layout_roundtrip_witness:
  "decode (encode demo_entry) = demo_entry \<and> encode (decode (push_bit 56 1)) \<noteq> push_bit 56 1"
proof -
  have "\<not> (\<forall>n. 56 \<le> n \<and> n < 64 \<longrightarrow> \<not> bit (push_bit 56 1 :: u128) n)"
    by (auto simp: bit_simps intro!: exI [of _ 56])
  then show ?thesis
    using capability_layout_roundtrip [of demo_entry "push_bit 56 1"] by simp
qed

text \<open>
  C7: delegation attenuates (invariant I3). A successful delegate needs a valid source that
  carries \<open>DELEGATE\<close>; it fills one slot of the destination that was free, with a capability to
  the same object whose rights are the source's rights masked, which therefore derives from the
  source, and changes no other slot; a failed delegate leaves the destination unchanged.
\<close>

theorem delegate_attenuates:
  assumes "wf_caps dst"
  shows "case delegate ct ot c m b dst of
     (Inr d, dst') \<Rightarrow> \<exists>p child. cap_at ct c = Some p \<and> valid_cap ot p \<and> contains (rights p) DELEGATE \<and>
        derives p child \<and> rights child = rights p AND m \<and> badge child = b \<and> valid_cap ot child \<and>
        cap_at dst d = None \<and> cap_at dst' = (cap_at dst)(d \<mapsto> child) \<and> wf_caps dst'
   | (Inl st, dst') \<Rightarrow> st \<noteq> Ok \<and> dst' = dst"
proof (cases "delegate ct ot c m b dst")
  case (Pair res dst')
  show ?thesis
  proof (cases res)
    case (Inl st)
    with Pair show ?thesis using delegate_Inl by fastforce
  next
    case (Inr d)
    with Pair have eq: "delegate ct ot c m b dst = (Inr d, dst')" by simp
    from assms eq obtain p where p: "cap_at ct c = Some p" "valid_cap ot p"
        "contains (rights p) DELEGATE" "cap_at dst d = None"
        "cap_at dst' = (cap_at dst)(d \<mapsto> p\<lparr>rights := rights p AND m, badge := b\<rparr>)" "wf_caps dst'"
      by (rule delegate_Inr)
    let ?child = "p\<lparr>rights := rights p AND m, badge := b\<rparr>"
    have "derives p ?child" by (simp add: derives_def)
    moreover from this p(2) have "valid_cap ot ?child" by (rule valid_cap_derives [THEN iffD2])
    ultimately show ?thesis
      unfolding eq using p by (auto intro!: exI [of _ ?child])
  qed
qed

theorem delegate_attenuates_witness:
  "wf_caps CapTable_new \<and>
   (case delegate demo_caps demo_objects 0 INVOKE 7 CapTable_new of
      (Inr d, dst') \<Rightarrow> \<exists>child. rights child = INVOKE \<and> derives demo_entry child \<and>
         cap_at dst' d = Some child
    | (Inl st, dst') \<Rightarrow> False)"
proof -
  have "position (\<lambda>s. s = None) (slots CapTable_new) = Some 0"
    by (simp add: CapTable_new_def CAP_TABLE_SLOTS_def)
  then have ok: "\<exists>d dst'. delegate demo_caps demo_objects 0 INVOKE 7 CapTable_new = (Inr d, dst')"
    by (simp add: delegate_eq)
  have "cap_at CapTable_new = Map.empty" by (simp add: fun_eq_iff)
  moreover have "(13 :: u16) AND INVOKE = INVOKE" by (simp add: INVOKE_def)
  ultimately show ?thesis
    using delegate_attenuates [where dst = CapTable_new and ct = demo_caps and ot = demo_objects
      and c = 0 and m = INVOKE and b = 7] ok by auto
qed

text \<open>
  C28: sealing is monotone and final. Seal removes exactly \<open>DELEGATE\<close> from the capability it is
  given, keeps every other right and every other slot, and from then on delegating that
  capability is refused with \<open>ErrRights\<close>.
\<close>

theorem seal_freezes:
  assumes "wf_caps ct" and "cap_at ct c = Some e"
  shows "\<exists>ct' e'. seal ct c = (Ok, ct') \<and> cap_at ct' = (cap_at ct)(c \<mapsto> e') \<and> derives e e' \<and>
     (\<forall>q. q AND DELEGATE = 0 \<longrightarrow> contains (rights e') q = contains (rights e) q) \<and>
     (\<forall>ot m b dst. delegate ct' ot c m b dst = (Inl ErrRights, dst))"
proof -
  let ?e = "e\<lparr>rights := rights_remove (rights e) DELEGATE\<rparr>"
  let ?ct = "ct\<lparr>slots := (slots ct)[unat c := Some ?e]\<rparr>"
  have "unat c < CAP_TABLE_SLOTS" using assms(2) by (auto simp: cap_at_def split: if_splits)
  then have at: "cap_at ?ct = (cap_at ct)(c \<mapsto> ?e)"
    using assms(1) by (simp add: cap_at_update fun_eq_iff word_unat_eq_iff [symmetric])
  have "\<not> contains (rights_remove (rights e) DELEGATE) DELEGATE"
    by (rule remove_not_contains) (simp add: DELEGATE_def)
  with at have "delegate ?ct ot c m b dst = (Inl ErrRights, dst)" for ot m b dst
    by (simp add: delegate_eq)
  moreover have "derives e ?e" by (simp add: derives_def)
  ultimately show ?thesis
    using assms at by (auto simp: seal_eq remove_other intro!: exI [of _ ?ct] exI [of _ ?e])
qed

theorem seal_freezes_witness:
  "wf_caps demo_caps \<and> cap_at demo_caps 0 = Some demo_entry \<and>
   (\<exists>ct'. seal demo_caps 0 = (Ok, ct') \<and>
      delegate ct' demo_objects 0 INVOKE 7 CapTable_new = (Inl ErrRights, CapTable_new))"
  using seal_freezes [of demo_caps 0 demo_entry] by auto



end
