(* ===== verification/Sched.thy ===== *)
theory Sched
  imports Prelude
begin

text \<open>
  The scheduler's own data and policy, \<^verbatim>\<open>kernel/src/sched.rs\<close>: the task table, the release of
  periodic jobs (\<^verbatim>\<open>roll_deadlines\<close>), earliest-deadline-first selection (\<^verbatim>\<open>pick_next\<close>) and the
  block and wake fields of a task. The operations that also touch capability tables or the
  processor (\<^verbatim>\<open>admit\<close>, \<^verbatim>\<open>schedule_tick\<close>, \<^verbatim>\<open>block_current\<close>, \<^verbatim>\<open>terminate_current\<close>) are composed from
  these in the theory \<open>Kernel\<close>.

  The \<^verbatim>\<open>while\<close> loop of \<^verbatim>\<open>roll_deadlines\<close> saturates at \<^verbatim>\<open>u64::MAX\<close> and so need not end; it is a
  partial function to \<open>option\<close>, where \<open>None\<close> means that it does not return.
\<close>

section \<open>Tasks\<close>

definition MAX_TASKS :: nat where [const_defs]: "MAX_TASKS = 5"

record Task =
  rsp :: u64
  task_present :: bool
  runnable :: bool
  period_ns :: u64
  rel_deadline_ns :: u64
  abs_deadline_ns :: u64
  budget_ns :: u64
  activations :: u64
  deadline_misses :: u64
  kstack_top :: u64
  task_domain :: u16
  blocked :: bool
  block_reason :: u8
  wait_ep :: u16
  ipc_status :: u64
  ipc_reply :: u64
  ipc_reply_cptr :: u16

definition Task_EMPTY :: Task where
  "Task_EMPTY = \<lparr>rsp = 0, task_present = False, runnable = False, period_ns = 0,
     rel_deadline_ns = 0, abs_deadline_ns = - 1, budget_ns = 0, activations = 0,
     deadline_misses = 0, kstack_top = 0, task_domain = 0, blocked = False, block_reason = 0,
     wait_ep = 0, ipc_status = 0, ipc_reply = 0, ipc_reply_cptr = 0\<rparr>"

record Scheduler =
  tasks :: "Task list"
  num :: nat
  current :: nat

definition SCHED_initial :: Scheduler where
  "SCHED_initial = \<lparr>tasks = replicate MAX_TASKS Task_EMPTY, num = 0, current = 0\<rparr>"

text \<open>\<open>stack_top\<close> is the address the linker gives the boot stack.\<close>

definition sched_init :: "u64 \<Rightarrow> Scheduler \<Rightarrow> Scheduler" where
  "sched_init stack_top s =
    s\<lparr>tasks := (tasks s)[0 := Task_EMPTY\<lparr>rsp := 0, task_present := True, runnable := True,
        abs_deadline_ns := - 1, kstack_top := stack_top\<rparr>],
      num := 1, current := 0\<rparr>"

definition free_slot :: "Scheduler \<Rightarrow> nat option" where
  "free_slot s = find (\<lambda>i. \<not> task_present (tasks s ! i)) [1..<MAX_TASKS]"

text \<open>The task record \<^verbatim>\<open>admit\<close> and \<^verbatim>\<open>admit_user\<close> publish, and the bookkeeping around it.\<close>

definition new_task :: "u64 \<Rightarrow> u64 \<Rightarrow> u64 \<Rightarrow> u64 \<Rightarrow> u64 \<Rightarrow> u64 \<Rightarrow> u16 \<Rightarrow> Task" where
  "new_task now frame_ptr ktop period rel_deadline budget domain_id =
    Task_EMPTY\<lparr>rsp := frame_ptr, task_present := True, runnable := True, period_ns := period,
      rel_deadline_ns := rel_deadline, abs_deadline_ns := saturating_add now rel_deadline,
      budget_ns := budget, activations := 0, deadline_misses := 0, kstack_top := ktop,
      task_domain := domain_id\<rparr>"

definition install_task :: "nat \<Rightarrow> Task \<Rightarrow> Scheduler \<Rightarrow> Scheduler" where
  "install_task i t s = s\<lparr>tasks := (tasks s)[i := t], num := num s + 1\<rparr>"

section \<open>Time and job release\<close>

definition now_ns :: "u64 \<Rightarrow> u64 \<Rightarrow> u64" where
  "now_ns TICKS tick_ns = saturating_mul TICKS tick_ns"

partial_function (option) roll_task :: "u64 \<Rightarrow> Task \<Rightarrow> Task option" where
  "roll_task now t =
    (if abs_deadline_ns t \<le> now then
       let t = t\<lparr>activations := activations t + 1\<rparr>;
           t = t\<lparr>abs_deadline_ns := saturating_add (abs_deadline_ns t) (period_ns t)\<rparr>;
           t = (if \<not> blocked t then t\<lparr>runnable := True\<rparr> else t)
       in roll_task now t
     else Some t)"

fun roll_from :: "u64 \<Rightarrow> nat list \<Rightarrow> Scheduler \<Rightarrow> Scheduler option" where
  "roll_from now [] s = Some s"
| "roll_from now (i # is) s =
    (let t = tasks s ! i
     in if \<not> task_present t \<or> period_ns t = 0 then roll_from now is s
        else case roll_task now t of
            None \<Rightarrow> None
          | Some t' \<Rightarrow> roll_from now is (s\<lparr>tasks := (tasks s)[i := t']\<rparr>))"

definition roll_deadlines :: "u64 \<Rightarrow> Scheduler \<Rightarrow> Scheduler option" where
  "roll_deadlines now s = roll_from now [1..<MAX_TASKS] s"

section \<open>Earliest-deadline-first selection\<close>

text \<open>The loop of \<^verbatim>\<open>pick_next\<close>, with its variables \<^verbatim>\<open>best\<close>, \<^verbatim>\<open>best_dl\<close> and \<^verbatim>\<open>found_real\<close>.\<close>

fun pick_from :: "Task list \<Rightarrow> nat list \<Rightarrow> nat \<Rightarrow> u64 \<Rightarrow> bool \<Rightarrow> nat" where
  "pick_from ts [] best best_dl found_real = best"
| "pick_from ts (i # is) best best_dl found_real =
    (let t = ts ! i
     in if \<not> task_present t \<or> \<not> runnable t \<or> blocked t then pick_from ts is best best_dl found_real
        else if \<not> found_real \<or> abs_deadline_ns t < best_dl
        then pick_from ts is i (abs_deadline_ns t) True
        else pick_from ts is best best_dl found_real)"

definition pick_next :: "Scheduler \<Rightarrow> nat" where
  "pick_next s = pick_from (tasks s) [1..<MAX_TASKS] 0 (- 1) False"

section \<open>Block and wake\<close>

definition BLOCK_RECV :: u8 where [const_defs]: "BLOCK_RECV = 1"
definition BLOCK_SEND :: u8 where [const_defs]: "BLOCK_SEND = 2"

text \<open>The part of \<^verbatim>\<open>block_current\<close> that marks the running task as parked.\<close>

definition park :: "u8 \<Rightarrow> u16 \<Rightarrow> Scheduler \<Rightarrow> Scheduler" where
  "park reason ep_oid s =
    (let cur = current s
     in s\<lparr>tasks := (tasks s)[cur := (tasks s ! cur)
          \<lparr>blocked := True, block_reason := reason, wait_ep := ep_oid\<rparr>]\<rparr>)"

definition unblock :: "nat \<Rightarrow> u64 \<Rightarrow> u64 \<Rightarrow> u16 \<Rightarrow> Scheduler \<Rightarrow> Scheduler" where
  "unblock task status reply reply_cptr s =
    (if MAX_TASKS \<le> task then s
     else s\<lparr>tasks := (tasks s)[task := (tasks s ! task)
          \<lparr>ipc_status := status, ipc_reply := reply, ipc_reply_cptr := reply_cptr,
            blocked := False\<rparr>]\<rparr>)"

definition current_task :: "Scheduler \<Rightarrow> nat" where
  "current_task s = current s"

definition current_domain_id :: "Scheduler \<Rightarrow> u16" where
  "current_domain_id s = task_domain (tasks s ! current s)"

definition take_ipc_result :: "nat \<Rightarrow> Scheduler \<Rightarrow> u64 \<times> u64 \<times> u16" where
  "take_ipc_result i s =
    (if MAX_TASKS \<le> i then (0, 0, 0)
     else let t = tasks s ! i in (ipc_status t, ipc_reply t, ipc_reply_cptr t))"

text \<open>The part of \<^verbatim>\<open>terminate_current\<close> that frees the slot of the running task.\<close>

definition free_current :: "Scheduler \<Rightarrow> Scheduler" where
  "free_current s =
    (let cur = current s
     in s\<lparr>tasks := (tasks s)[cur := (tasks s ! cur)
          \<lparr>task_present := False, runnable := False, blocked := False\<rparr>],
        num := (if 0 < num s then num s - 1 else num s)\<rparr>)"

section \<open>Job release, in closed form\<close>

text \<open>
  \<open>missed_jobs now t\<close> is the number of periods of \<open>t\<close> that end at or before \<open>now\<close>; \<open>released\<close> is the
  task with its deadline advanced by that many periods.
\<close>

definition missed_jobs :: "u64 \<Rightarrow> Task \<Rightarrow> nat" where
  "missed_jobs now t =
    (if abs_deadline_ns t \<le> now then (unat now - unat (abs_deadline_ns t)) div unat (period_ns t) + 1 else 0)"

definition released :: "u64 \<Rightarrow> Task \<Rightarrow> Task" where
  "released now t = t\<lparr>
     runnable := runnable t \<or> (abs_deadline_ns t \<le> now \<and> \<not> blocked t),
     abs_deadline_ns := saturate64 (unat (abs_deadline_ns t) + missed_jobs now t * unat (period_ns t)),
     activations := activations t + of_nat (missed_jobs now t)\<rparr>"

definition periodic :: "nat \<Rightarrow> Task \<Rightarrow> bool" where
  "periodic i t \<longleftrightarrow> 1 \<le> i \<and> task_present t \<and> period_ns t \<noteq> 0"

definition release_all :: "u64 \<Rightarrow> Scheduler \<Rightarrow> Scheduler" where
  "release_all now s = s\<lparr>tasks := map (\<lambda>(i, t). if periodic i t then released now t else t)
     (enumerate 0 (tasks s))\<rparr>"

definition job_step :: "Task \<Rightarrow> Task" where
  "job_step t = t\<lparr>activations := activations t + 1,
     abs_deadline_ns := saturating_add (abs_deadline_ns t) (period_ns t),
     runnable := runnable t \<or> \<not> blocked t\<rparr>"

lemma roll_task_unfold:
  "roll_task now t = (if abs_deadline_ns t \<le> now then roll_task now (job_step t) else Some t)"
  by (subst roll_task.simps) (simp add: job_step_def Let_def)

lemma roll_task_released:
  assumes "now \<noteq> - 1" "period_ns t \<noteq> 0"
  shows "roll_task now t = Some (released now t)"
  using assms(2)
proof (induction "unat now - unat (abs_deadline_ns t)" arbitrary: t rule: less_induct)
  case less
  let ?d = "unat (abs_deadline_ns t)" and ?p = "unat (period_ns t)" and ?n = "unat now"
  have p: "0 < ?p" using less.prems by (simp add: unat_gt_0)
  have n: "?n < 2 ^ 64 - 1" using assms(1) unat_not_max by blast
  show ?case
  proof (cases "abs_deadline_ns t \<le> now")
    case False
    then show ?thesis
      by (subst roll_task_unfold) (simp add: released_def missed_jobs_def saturate64_unat)
  next
    case True
    then have dn: "?d \<le> ?n" by (simp add: word_le_nat_alt)
    let ?t = "job_step t"
    have d': "unat (abs_deadline_ns ?t) = min (?d + ?p) (2 ^ 64 - 1)"
      by (simp add: job_step_def unat_saturating_add)
    show ?thesis
    proof (cases "?d + ?p \<le> ?n")
      case True
      then have d: "unat (abs_deadline_ns ?t) = ?d + ?p" using d' n by simp
      have "roll_task now ?t = Some (released now ?t)"
        using less.hyps [of ?t] less.prems d p dn True by (simp add: job_step_def)
      moreover have "abs_deadline_ns ?t \<le> now" using d True by (simp add: word_le_nat_alt)
      moreover have "(?n - ?d) div ?p = Suc ((?n - (?d + ?p)) div ?p)"
        using True p by (metis add_le_imp_le_diff diff_diff_left le_div_geq add.commute)
      ultimately have "missed_jobs now t = Suc (missed_jobs now ?t)"
        using \<open>abs_deadline_ns t \<le> now\<close> d by (simp add: missed_jobs_def job_step_def)
      then have "released now ?t = released now t"
        using d \<open>abs_deadline_ns t \<le> now\<close> \<open>abs_deadline_ns ?t \<le> now\<close>
        by (intro Task.equality) (simp_all add: released_def job_step_def algebra_simps)
      with \<open>roll_task now ?t = Some (released now ?t)\<close> \<open>abs_deadline_ns t \<le> now\<close> show ?thesis
        by (subst roll_task_unfold) simp
    next
      case False
      then have "\<not> abs_deadline_ns ?t \<le> now" using d' n by (simp add: word_le_nat_alt)
      moreover have "missed_jobs now t = 1"
        using False dn \<open>abs_deadline_ns t \<le> now\<close> by (simp add: missed_jobs_def)
      then have "job_step t = released now t"
        using \<open>abs_deadline_ns t \<le> now\<close>
        by (intro Task.equality) (auto simp: job_step_def released_def saturating_add_saturate64)
      moreover have "roll_task now ?t = Some ?t"
        using calculation(1) by (subst roll_task_unfold) simp
      ultimately show ?thesis
        using \<open>abs_deadline_ns t \<le> now\<close> by (subst roll_task_unfold) simp
    qed
  qed
qed


lemma missed_jobs_least:
  "k < missed_jobs now t \<Longrightarrow> unat (abs_deadline_ns t) + k * unat (period_ns t) \<le> unat now"
proof -
  assume k: "k < missed_jobs now t"
  then have d: "abs_deadline_ns t \<le> now" by (simp add: missed_jobs_def split: if_splits)
  with k have "k \<le> (unat now - unat (abs_deadline_ns t)) div unat (period_ns t)"
    by (simp add: missed_jobs_def)
  then have "k * unat (period_ns t) \<le> unat now - unat (abs_deadline_ns t)"
    by (meson div_times_less_eq_dividend mult_le_mono1 order_trans)
  with d show ?thesis by (simp add: word_le_nat_alt)
qed

lemma roll_task_Some: "roll_task now t = Some t' \<Longrightarrow> now < abs_deadline_ns t'"
proof (rule roll_task.raw_induct [where P = "\<lambda>now t t'. now < abs_deadline_ns t'"])
  fix roll :: "u64 \<Rightarrow> Task \<Rightarrow> Task option" and now t t'
  assume "\<And>now t t'. roll now t = Some t' \<Longrightarrow> now < abs_deadline_ns t'"
  then show "(if abs_deadline_ns t \<le> now then
       let t = t\<lparr>activations := activations t + 1\<rparr>;
           t = t\<lparr>abs_deadline_ns := saturating_add (abs_deadline_ns t) (period_ns t)\<rparr>;
           t = (if \<not> blocked t then t\<lparr>runnable := True\<rparr> else t)
       in roll now t
     else Some t) = Some t' \<Longrightarrow> now < abs_deadline_ns t'"
    by (auto simp: Let_def split: if_splits)
qed

lemma roll_task_saturated: "roll_task (- 1) t = None"
  using roll_task_Some [of "- 1" t] less_word_not_max by (cases "roll_task (- 1) t") blast+

lemma roll_from_eq:
  assumes "now \<noteq> - 1" "distinct is" "\<forall>i \<in> set is. i < length (tasks s) \<and> 1 \<le> i"
  shows "roll_from now is s = Some (s\<lparr>tasks := map (\<lambda>(i, t).
     if i \<in> set is \<and> periodic i t then released now t else t) (enumerate 0 (tasks s))\<rparr>)"
  using assms(2,3)
proof (induction "is" arbitrary: s)
  case (Cons i "is")
  let ?t = "tasks s ! i"
  show ?case
  proof (cases "periodic i ?t")
    case True
    then have "roll_task now ?t = Some (released now ?t)"
      using roll_task_released [OF assms(1)] by (simp add: periodic_def)
    moreover have "map (\<lambda>(j, t). if j \<in> set is \<and> periodic j t then released now t else t)
        (enumerate 0 ((tasks s)[i := released now ?t])) =
      map (\<lambda>(j, t). if j \<in> set (i # is) \<and> periodic j t then released now t else t)
        (enumerate 0 (tasks s))"
      using True Cons.prems by (auto simp: nth_enumerate_eq nth_list_update intro!: nth_equalityI)
    ultimately show ?thesis
      using True Cons by (simp add: periodic_def)
  next
    case False
    then have "map (\<lambda>(j, t). if j \<in> set is \<and> periodic j t then released now t else t)
        (enumerate 0 (tasks s)) =
      map (\<lambda>(j, t). if j \<in> set (i # is) \<and> periodic j t then released now t else t)
        (enumerate 0 (tasks s))"
      by (auto simp: in_set_enumerate_eq)
    with False Cons show ?thesis by (simp add: periodic_def)
  qed
qed (simp add: case_prod_beta')

lemma roll_deadlines_eq:
  assumes "now \<noteq> - 1" "length (tasks s) = MAX_TASKS"
  shows "roll_deadlines now s = Some (release_all now s)"
proof -
  have "map (\<lambda>(i, t). if i \<in> set [1..<MAX_TASKS] \<and> periodic i t then released now t else t)
      (enumerate 0 (tasks s)) =
    map (\<lambda>(i, t). if periodic i t then released now t else t) (enumerate 0 (tasks s))"
    using assms(2) by (auto simp: in_set_enumerate_eq periodic_def)
  then show ?thesis
    using roll_from_eq [OF assms(1), of "[1..<MAX_TASKS]" s] assms(2)
    by (simp add: roll_deadlines_def release_all_def)
qed

section \<open>EDF selection\<close>

definition eligible :: "Task \<Rightarrow> bool" where
  "eligible t \<longleftrightarrow> task_present t \<and> runnable t \<and> \<not> blocked t"

text \<open>\<open>edf ts is r\<close>: \<open>r\<close> is the eligible index of \<open>is\<close> of least deadline, the lowest one on ties.\<close>

definition edf :: "Task list \<Rightarrow> nat set \<Rightarrow> nat \<Rightarrow> bool" where
  "edf ts is r \<longleftrightarrow> r \<in> is \<and> eligible (ts ! r) \<and>
     (\<forall>i \<in> is. eligible (ts ! i) \<longrightarrow>
        abs_deadline_ns (ts ! r) < abs_deadline_ns (ts ! i) \<or>
        abs_deadline_ns (ts ! r) = abs_deadline_ns (ts ! i) \<and> r \<le> i)"

lemma pick_from_found:
  assumes "sorted_wrt (<) is"
  shows "(pick_from ts is b dl True = b \<and> (\<forall>i \<in> set is. eligible (ts ! i) \<longrightarrow> dl \<le> abs_deadline_ns (ts ! i)))
    \<or> (edf ts (set is) (pick_from ts is b dl True) \<and> abs_deadline_ns (ts ! pick_from ts is b dl True) < dl)"
  using assms
proof (induction "is" arbitrary: b dl)
  case (Cons i "is")
  consider "\<not> eligible (ts ! i)" | "eligible (ts ! i)" "abs_deadline_ns (ts ! i) < dl"
    | "eligible (ts ! i)" "dl \<le> abs_deadline_ns (ts ! i)" by fastforce
  then show ?case
  proof cases
    case 1
    then show ?thesis using Cons.IH [of b dl] Cons.prems by (auto simp: eligible_def edf_def Let_def)
  next
    case 2
    then have "pick_from ts (i # is) b dl True = pick_from ts is i (abs_deadline_ns (ts ! i)) True"
      by (simp add: eligible_def Let_def)
    moreover have "i < j" if "j \<in> set is" for j using that Cons.prems by simp
    ultimately show ?thesis
      using Cons.IH [of i "abs_deadline_ns (ts ! i)"] Cons.prems 2
      by (auto simp: edf_def order_less_imp_le le_less)
  next
    case 3
    then have "pick_from ts (i # is) b dl True = pick_from ts is b dl True"
      by (auto simp: eligible_def Let_def)
    then show ?thesis
      using Cons.IH [of b dl] Cons.prems 3 by (auto simp: edf_def)
  qed
qed simp

lemma pick_from_spec:
  assumes "sorted_wrt (<) is"
  shows "if \<exists>i \<in> set is. eligible (ts ! i) then edf ts (set is) (pick_from ts is b dl False)
    else pick_from ts is b dl False = b"
  using assms
proof (induction "is" arbitrary: b dl)
  case (Cons i "is")
  show ?case
  proof (cases "eligible (ts ! i)")
    case True
    then have "pick_from ts (i # is) b dl False = pick_from ts is i (abs_deadline_ns (ts ! i)) True"
      by (simp add: eligible_def Let_def)
    moreover have "i < j" if "j \<in> set is" for j using that Cons.prems by simp
    ultimately show ?thesis
      using pick_from_found [of "is" ts i "abs_deadline_ns (ts ! i)"] Cons.prems True
      by (auto simp: edf_def le_less)
  next
    case False
    then have "pick_from ts (i # is) b dl False = pick_from ts is b dl False"
      by (auto simp: eligible_def Let_def)
    with False show ?thesis
      using Cons.IH [of b dl] Cons.prems by (auto simp: edf_def split: if_splits)
  qed
qed simp

lemma pick_next_spec:
  "if \<exists>i \<in> {1..<MAX_TASKS}. eligible (tasks s ! i) then edf (tasks s) {1..<MAX_TASKS} (pick_next s)
   else pick_next s = 0"
  using pick_from_spec [OF sorted_wrt_upt, of 1 MAX_TASKS "tasks s" 0 "- 1"]
  unfolding pick_next_def set_upt .

lemma pick_next_less: "pick_next s < MAX_TASKS"
  using pick_next_spec [of s] by (auto simp: edf_def const_defs split: if_splits)

section \<open>The scheduler invariant\<close>

text \<open>
  \<open>num\<close> counts the present tasks; task 0 is the idle floor and never leaves the run queue; a
  present task is runnable and periodic; only present tasks are blocked.
\<close>

definition idle_task :: "Task \<Rightarrow> bool" where
  "idle_task t \<longleftrightarrow> task_present t \<and> runnable t \<and> \<not> blocked t \<and> task_domain t = 0"

definition sched_inv :: "Scheduler \<Rightarrow> bool" where
  "sched_inv s \<longleftrightarrow> length (tasks s) = MAX_TASKS \<and> current s < MAX_TASKS \<and>
     num s = length (filter task_present (tasks s)) \<and> idle_task (tasks s ! 0) \<and>
     (\<forall>i < MAX_TASKS. task_present (tasks s ! i) \<longrightarrow> runnable (tasks s ! i) \<and> (i = 0 \<or> period_ns (tasks s ! i) \<noteq> 0)) \<and>
     (\<forall>i < MAX_TASKS. blocked (tasks s ! i) \<longrightarrow> task_present (tasks s ! i))"

lemma sched_invD:
  assumes "sched_inv s"
  shows "length (tasks s) = MAX_TASKS" "current s < MAX_TASKS"
    "num s = length (filter task_present (tasks s))" "idle_task (tasks s ! 0)"
    "i < MAX_TASKS \<Longrightarrow> task_present (tasks s ! i) \<Longrightarrow> runnable (tasks s ! i)"
    "i < MAX_TASKS \<Longrightarrow> task_present (tasks s ! i) \<Longrightarrow> i \<noteq> 0 \<Longrightarrow> period_ns (tasks s ! i) \<noteq> 0"
    "i < MAX_TASKS \<Longrightarrow> blocked (tasks s ! i) \<Longrightarrow> task_present (tasks s ! i)"
  using assms by (auto simp: sched_inv_def)

lemma sched_inv_init:
  "sched_inv (sched_init stack_top SCHED_initial)"
  by (auto simp: sched_inv_def sched_init_def SCHED_initial_def Task_EMPTY_def const_defs idle_task_def
      nth_Cons' numeral_eq_Suc)

lemma task_slotD:
  assumes "free_slot s = Some i"
  shows "1 \<le> i" "i < MAX_TASKS" "\<not> task_present (tasks s ! i)"
  using assms by (auto simp: free_slot_def find_Some_iff)

lemma task_slot_None: "free_slot s = None \<longleftrightarrow> (\<forall>i \<in> {1..<MAX_TASKS}. task_present (tasks s ! i))"
  by (auto simp: free_slot_def find_None_iff)

lemma sched_inv_update:
  assumes "sched_inv s" "i < MAX_TASKS" "i \<noteq> 0"
    and "task_present t \<longrightarrow> runnable t \<and> period_ns t \<noteq> 0" "blocked t \<longrightarrow> task_present t"
    and "n + (if task_present (tasks s ! i) then 1 else 0) = num s + (if task_present t then 1 else 0)"
  shows "sched_inv (s\<lparr>tasks := (tasks s)[i := t], num := n\<rparr>)"
  using assms length_filter_update [of i "tasks s" task_present t]
  by (auto simp: sched_inv_def nth_list_update)

lemma sched_inv_update_same:
  assumes "sched_inv s" "i < MAX_TASKS" "i \<noteq> 0"
    and "task_present t \<longrightarrow> runnable t \<and> period_ns t \<noteq> 0" "blocked t \<longrightarrow> task_present t"
    and "task_present t = task_present (tasks s ! i)"
  shows "sched_inv (s\<lparr>tasks := (tasks s)[i := t]\<rparr>)"
  using sched_inv_update [OF assms(1-5), of "num s"] assms(6) by simp

lemma sched_inv_install:
  assumes "sched_inv s" "free_slot s = Some i" "period \<noteq> 0"
  shows "sched_inv (install_task i (new_task now ptr ktop period rel budget d) s)"
  using task_slotD [OF assms(2)] assms(1,3) unfolding install_task_def
  by (intro sched_inv_update) (auto simp: new_task_def Task_EMPTY_def)

lemma sched_inv_park:
  assumes "sched_inv s" "current s \<noteq> 0" "task_present (tasks s ! current s)"
  shows "sched_inv (park r ep s)"
  unfolding park_def Let_def
  using assms sched_invD [OF assms(1)] by (intro sched_inv_update_same) auto

lemma sched_inv_unblock:
  assumes "sched_inv s" "task \<noteq> 0"
  shows "sched_inv (unblock task st reply cptr s)"
proof (cases "task < MAX_TASKS")
  case True
  then show ?thesis
    unfolding unblock_def using assms sched_invD [OF assms(1)]
    by (auto intro!: sched_inv_update_same)
qed (use assms in \<open>simp add: unblock_def\<close>)

lemma sched_inv_free_current:
  assumes "sched_inv s" "current s \<noteq> 0" "task_present (tasks s ! current s)"
  shows "sched_inv (free_current s)"
proof -
  have "tasks s ! current s \<in> set (tasks s)" using sched_invD [OF assms(1)] by simp
  then have "0 < num s"
    using assms(3) sched_invD(3) [OF assms(1)] by (metis length_greater_0_conv filter_empty_conv)
  then show ?thesis
    unfolding free_current_def Let_def using assms sched_invD(2) [OF assms(1)]
    by (intro sched_inv_update) auto
qed

lemma release_all_nth:
  "i < length (tasks s) \<Longrightarrow> tasks (release_all now s) ! i =
     (if periodic i (tasks s ! i) then released now (tasks s ! i) else tasks s ! i)"
  by (simp add: release_all_def nth_enumerate_eq)

lemma released_simps [simp]:
  "task_present (released now t) = task_present t" "blocked (released now t) = blocked t"
  "period_ns (released now t) = period_ns t" "task_domain (released now t) = task_domain t"
  "rsp (released now t) = rsp t" "kstack_top (released now t) = kstack_top t"
  "ipc_status (released now t) = ipc_status t" "ipc_reply (released now t) = ipc_reply t"
  "ipc_reply_cptr (released now t) = ipc_reply_cptr t"
  by (simp_all add: released_def)

lemma release_all_simps [simp]:
  "length (tasks (release_all now s)) = length (tasks s)"
  "num (release_all now s) = num s" "current (release_all now s) = current s"
  by (simp_all add: release_all_def)

lemma sched_inv_release_all: "sched_inv s \<Longrightarrow> sched_inv (release_all now s)"
proof -
  assume inv: "sched_inv s"
  have "map task_present (tasks (release_all now s)) = map task_present (tasks s)"
    by (intro nth_equalityI) (simp_all add: release_all_nth)
  then have "length (filter task_present (tasks (release_all now s))) = length (filter task_present (tasks s))"
    by (simp only: length_filter_map [of task_present])
  with inv show ?thesis
    by (auto simp: sched_inv_def release_all_nth idle_task_def periodic_def)
      (auto simp: released_def)
qed

lemma sched_inv_current: "sched_inv s \<Longrightarrow> n < MAX_TASKS \<Longrightarrow> sched_inv (s\<lparr>current := n\<rparr>)"
  by (simp add: sched_inv_def)

text \<open>Whatever job release returns is the closed form, also at the end of time.\<close>

lemma roll_from_diverges:
  "i \<in> set is \<Longrightarrow> task_present (tasks s ! i) \<Longrightarrow> period_ns (tasks s ! i) \<noteq> 0 \<Longrightarrow> roll_from (- 1) is s = None"
proof (induction "is")
  case (Cons j "is")
  then show ?case by (auto simp: Let_def roll_task_saturated)
qed simp

lemma roll_from_idle: "(\<And>i. i \<in> set is \<Longrightarrow> \<not> task_present (tasks s ! i)) \<Longrightarrow> roll_from now is s = Some s"
  by (induction "is") (simp_all add: Let_def)

lemma roll_deadlines_Some:
  assumes "roll_deadlines now s = Some s'" "sched_inv s"
  shows "s' = release_all now s"
proof (cases "now = - 1")
  case True
  have np: "\<not> task_present (tasks s ! i)" if "i \<in> set [1..<MAX_TASKS]" for i
    using roll_from_diverges [OF that, of s] sched_invD(6) [OF assms(2), of i] that assms(1) True
    by (auto simp: roll_deadlines_def)
  have "roll_from now [1..<MAX_TASKS] s = Some s" by (rule roll_from_idle) (rule np)
  then have "s' = s" using assms(1) unfolding roll_deadlines_def by (simp only: option.inject)
  moreover have "release_all now s = s"
  proof -
    have "map (\<lambda>(i, t). if periodic i t then released now t else t) (enumerate 0 (tasks s)) = tasks s"
      using np sched_invD(1) [OF assms(2)]
      by (auto simp: nth_enumerate_eq periodic_def intro!: nth_equalityI)
    then show ?thesis by (simp add: release_all_def)
  qed
  ultimately show ?thesis by simp
next
  case False
  then show ?thesis using roll_deadlines_eq [OF False sched_invD(1) [OF assms(2)]] assms(1) by simp
qed

lemma pick_next_eligible: "sched_inv s \<Longrightarrow> eligible (tasks s ! pick_next s)"
  using pick_next_spec [of s] sched_invD(4) [of s]
  by (auto simp: edf_def eligible_def idle_task_def split: if_splits)

section \<open>A concrete task table\<close>

lemma all_tasks: "(\<forall>i < MAX_TASKS. P i) \<longleftrightarrow> P 0 \<and> P 1 \<and> P 2 \<and> P 3 \<and> P 4"
proof -
  have "{i. i < MAX_TASKS} = {0, 1, 2, 3, 4}" by (auto simp: const_defs)
  then show ?thesis by (auto simp: set_eq_iff)
qed

definition demo_sched :: Scheduler where
  "demo_sched = \<lparr>tasks = [Task_EMPTY\<lparr>task_present := True, runnable := True, kstack_top := 0x1000\<rparr>,
     new_task 0 0x1f00 0x2000 10 30 1 1, new_task 0 0x2f00 0x3000 10 25 1 2, Task_EMPTY, Task_EMPTY],
     num = 3, current = 0\<rparr>"

lemma demo_sched_simps [simp]:
  "tasks demo_sched ! 0 = Task_EMPTY\<lparr>task_present := True, runnable := True, kstack_top := 0x1000\<rparr>"
  "tasks demo_sched ! Suc 0 = new_task 0 0x1f00 0x2000 10 30 1 1"
  "tasks demo_sched ! 2 = new_task 0 0x2f00 0x3000 10 25 1 2"
  "tasks demo_sched ! 3 = Task_EMPTY" "tasks demo_sched ! 4 = Task_EMPTY"
  by (simp_all add: demo_sched_def)

lemma new_task_simps [simp]:
  "task_present (new_task now ptr ktop p rel b d)" "runnable (new_task now ptr ktop p rel b d)"
  "\<not> blocked (new_task now ptr ktop p rel b d)" "period_ns (new_task now ptr ktop p rel b d) = p"
  "abs_deadline_ns (new_task now ptr ktop p rel b d) = saturating_add now rel"
  "task_domain (new_task now ptr ktop p rel b d) = d" "rsp (new_task now ptr ktop p rel b d) = ptr"
  "kstack_top (new_task now ptr ktop p rel b d) = ktop"
  "\<not> task_present Task_EMPTY" "\<not> runnable Task_EMPTY" "\<not> blocked Task_EMPTY" "task_domain Task_EMPTY = 0"
  by (simp_all add: new_task_def Task_EMPTY_def)

lemma demo_sched_inv: "sched_inv demo_sched"
  unfolding sched_inv_def all_tasks idle_task_def by (simp add: demo_sched_def const_defs)

section \<open>Properties\<close>

text \<open>
  C10: the scheduler is earliest-deadline-first. If any task but the idle one is present, runnable
  and not blocked, \<open>pick_next\<close> returns such a task whose absolute deadline is no later than that of
  any other, the lowest index among equals, and never the idle task, even when deadlines have
  saturated; if there is none, it returns the idle task 0.
\<close>
theorem pick_next_is_edf:
  "((\<exists>i. 1 \<le> i \<and> i < MAX_TASKS \<and> eligible (tasks s ! i)) \<longrightarrow>
      1 \<le> pick_next s \<and> pick_next s < MAX_TASKS \<and> eligible (tasks s ! pick_next s)) \<and>
   (\<forall>i. 1 \<le> i \<and> i < MAX_TASKS \<and> eligible (tasks s ! i) \<longrightarrow>
      abs_deadline_ns (tasks s ! pick_next s) < abs_deadline_ns (tasks s ! i) \<or>
      abs_deadline_ns (tasks s ! pick_next s) = abs_deadline_ns (tasks s ! i) \<and> pick_next s \<le> i) \<and>
   ((\<forall>i. 1 \<le> i \<and> i < MAX_TASKS \<longrightarrow> \<not> eligible (tasks s ! i)) \<longrightarrow> pick_next s = 0)"
  using pick_next_spec [of s] by (auto simp: edf_def split: if_splits)

theorem pick_next_is_edf_witness:
  "eligible (tasks demo_sched ! 1) \<and> eligible (tasks demo_sched ! 2) \<and> pick_next demo_sched = 2"
proof -
  have el: "eligible (tasks demo_sched ! 1)" "eligible (tasks demo_sched ! 2)"
    "\<not> eligible (tasks demo_sched ! 3)" "\<not> eligible (tasks demo_sched ! 4)"
    by (simp_all add: eligible_def)
  have dl: "abs_deadline_ns (tasks demo_sched ! 1) = 30" "abs_deadline_ns (tasks demo_sched ! 2) = 25"
    by (simp_all add: saturating_add_def)
  have m: "(1 :: nat) \<le> 2" "(2 :: nat) < MAX_TASKS" by (simp_all add: const_defs)
  have r: "1 \<le> pick_next demo_sched \<and> pick_next demo_sched < MAX_TASKS \<and>
      eligible (tasks demo_sched ! pick_next demo_sched)"
    using pick_next_is_edf [of demo_sched, THEN conjunct1, rule_format] m el(2) by blast
  have le: "abs_deadline_ns (tasks demo_sched ! pick_next demo_sched) \<le> 25"
    using pick_next_is_edf [of demo_sched, THEN conjunct2, THEN conjunct1, rule_format, of 2] m el(2)
    unfolding dl by auto
  have "pick_next demo_sched = 1 \<or> pick_next demo_sched = 2 \<or> pick_next demo_sched = 3 \<or> pick_next demo_sched = 4"
    using r unfolding const_defs by linarith
  then have "pick_next demo_sched = 2"
  proof (elim disjE)
    assume "pick_next demo_sched = 1"
    with le show ?thesis unfolding dl(1) \<open>pick_next demo_sched = 1\<close> by simp
  qed (use r el in simp_all)
  with el show ?thesis by blast
qed



text \<open>
  C32: at the end of time job release does not return. Once the clock has saturated at
  \<open>u64::MAX\<close>, \<open>roll_deadlines\<close> loops forever as soon as one periodic task is present: the saturated
  deadline never exceeds \<open>now\<close>.
\<close>
theorem roll_deadlines_diverges_at_max:
  assumes "1 \<le> i" "i < MAX_TASKS" "task_present (tasks s ! i)" "period_ns (tasks s ! i) \<noteq> 0"
  shows "roll_deadlines (- 1) s = None"
  using roll_from_diverges [of i "[1..<MAX_TASKS]" s] assms by (simp add: roll_deadlines_def)

theorem roll_deadlines_diverges_at_max_witness: "roll_deadlines (- 1) demo_sched = None"
  using roll_deadlines_diverges_at_max [of 1 demo_sched]
  by (simp add: const_defs)

end
