(* ===== verification/Machine.thy ===== *)
theory Machine
  imports Prelude
begin

text \<open>
  The machine the kernel runs on, as far as the sources touch it: byte-addressed physical memory
  with the little-endian accesses of x86-64 (\<^verbatim>\<open>read_volatile\<close>, \<^verbatim>\<open>write_volatile\<close>,
  \<^verbatim>\<open>copy_nonoverlapping\<close>, \<^verbatim>\<open>write_bytes\<close>), and a bus to devices.

  Devices are not part of the repository: they are the parameter \<open>bus\<close>, which says which
  physical addresses are device registers, what reading and writing a register does to the
  device (a write may make the device access memory by DMA), what the device may do while
  the processor spins, and what the x86 I/O ports do; widths are in bytes. The kernel reaches a
  physical address through the higher-half direct map, at the virtual address \<open>hhdm + phys\<close>;
  \<open>phys_of\<close> undoes that.
\<close>

section \<open>Little-endian encoding\<close>

fun le_word :: "u8 list \<Rightarrow> 'a::len word" where
  "le_word [] = 0"
| "le_word (b # bs) = ucast b OR push_bit 8 (le_word bs)"

fun le_bytes :: "nat \<Rightarrow> 'a::len word \<Rightarrow> u8 list" where
  "le_bytes 0 w = []"
| "le_bytes (Suc n) w = ucast w # le_bytes n (drop_bit 8 w)"

lemma length_le_bytes [simp]: "length (le_bytes n w) = n"
  by (induction n arbitrary: w) auto

lemma bit_le_word:
  "bit (le_word bs :: 'a::len word) k \<longleftrightarrow>
     k < LENGTH('a) \<and> k div 8 < length bs \<and> bit (bs ! (k div 8)) (k mod 8)"
proof (induction bs arbitrary: k)
  case (Cons b bs)
  show ?case
  proof (cases "k < 8")
    case True
    then show ?thesis by (auto simp: bit_simps)
  next
    case False
    then have "k div 8 = Suc ((k - 8) div 8)" "(k - 8) mod 8 = k mod 8"
      by (simp_all add: le_div_geq le_mod_geq)
    moreover have "\<not> bit b k" using False bit_imp_le_length by fastforce
    ultimately show ?thesis using False Cons.IH [of "k - 8"] by (auto simp: bit_simps)
  qed
qed simp

lemma nth_le_bytes: "i < n \<Longrightarrow> le_bytes n w ! i = ucast (drop_bit (8 * i) w)"
proof (induction n arbitrary: i w)
  case (Suc n)
  then show ?case by (cases i) (simp_all add: drop_bit_drop_bit add.commute)
qed simp

lemma le_word_le_bytes:
  fixes w :: "'a::len word"
  assumes "LENGTH('a) = 8 * n"
  shows "le_word (le_bytes n w) = w"
proof (rule bit_word_eqI)
  fix k assume k: "k < LENGTH('a)"
  then have "k div 8 < n" using assms by (simp add: less_mult_imp_div_less mult.commute)
  moreover have "8 * (k div 8) + k mod 8 = k" by simp
  ultimately show "bit (le_word (le_bytes n w) :: 'a word) k = bit w k"
    using k by (simp add: bit_le_word nth_le_bytes bit_simps)
qed

lemma le_bytes_le_word:
  assumes "LENGTH('a) = 8 * length bs"
  shows "le_bytes (length bs) (le_word bs :: 'a::len word) = bs"
proof (rule nth_equalityI)
  fix i assume "i < length (le_bytes (length bs) (le_word bs :: 'a word))"
  then have i: "i < length bs" by simp
  show "le_bytes (length bs) (le_word bs :: 'a word) ! i = bs ! i"
  proof (rule bit_word_eqI)
    fix j assume j: "j < LENGTH(8)"
    then have "8 * i + j < LENGTH('a)" using assms i by simp
    then show "bit (le_bytes (length bs) (le_word bs :: 'a word) ! i) j = bit (bs ! i) j"
      using i j by (simp add: nth_le_bytes bit_simps bit_le_word)
  qed
qed simp

section \<open>Memory\<close>

type_synonym mem = "u64 \<Rightarrow> u8"

fun read_mem :: "mem \<Rightarrow> u64 \<Rightarrow> nat \<Rightarrow> u8 list" where
  "read_mem m a 0 = []"
| "read_mem m a (Suc n) = m a # read_mem m (a + 1) n"

fun write_mem :: "u64 \<Rightarrow> u8 list \<Rightarrow> mem \<Rightarrow> mem" where
  "write_mem a [] m = m"
| "write_mem a (b # bs) m = write_mem (a + 1) bs (m(a := b))"

text \<open>The addresses of the \<open>n\<close> bytes from \<open>a\<close> on.\<close>

definition span :: "u64 \<Rightarrow> nat \<Rightarrow> u64 set" where
  "span a n = (\<lambda>i. a + of_nat i) ` {..<n}"

lemma length_read_mem [simp]: "length (read_mem m a n) = n"
  by (induction n arbitrary: a) auto

lemma span_0 [simp]: "span a 0 = {}"
  by (simp add: span_def)

lemma span_Suc: "span a (Suc n) = insert a (span (a + 1) n)"
proof -
  have "{..<Suc n} = insert 0 (Suc ` {..<n})" by (auto simp: image_iff less_Suc_eq_0_disj)
  then show ?thesis by (simp add: span_def image_image add.assoc)
qed

lemma write_mem_other [simp]: "x \<notin> span a (length bs) \<Longrightarrow> write_mem a bs m x = m x"
  by (induction bs arbitrary: a m) (simp_all add: span_Suc)

lemma read_mem_cong: "(\<And>x. x \<in> span a n \<Longrightarrow> m x = m' x) \<Longrightarrow> read_mem m a n = read_mem m' a n"
  by (induction n arbitrary: a) (simp_all add: span_Suc)

lemma read_write_other:
  "span a n \<inter> span b (length bs) = {} \<Longrightarrow> read_mem (write_mem b bs m) a n = read_mem m a n"
  by (rule read_mem_cong) (auto intro!: write_mem_other)

lemma first_notin_span:
  assumes "Suc n \<le> 2 ^ 64"
  shows "a \<notin> span (a + 1) n"
proof
  assume "a \<in> span (a + 1) n"
  then obtain i where i: "i < n" "a = a + 1 + of_nat i" by (auto simp: span_def)
  then have "of_nat (Suc i) = (0 :: u64)" by (simp add: algebra_simps)
  then have "2 ^ 64 dvd Suc i" by (simp add: word_of_nat_eq_0_iff del: of_nat_Suc)
  then show False using i(1) assms by (auto dest: dvd_imp_le)
qed

lemma read_write_same: "length bs \<le> 2 ^ 64 \<Longrightarrow> read_mem (write_mem a bs m) a (length bs) = bs"
proof (induction bs arbitrary: a m)
  case (Cons b bs)
  then have "a \<notin> span (a + 1) (length bs)" by (intro first_notin_span) simp
  with Cons show ?case by simp
qed simp

subsection \<open>Typed accesses\<close>

definition load64 :: "mem \<Rightarrow> u64 \<Rightarrow> u64" where
  "load64 m a = le_word (read_mem m a 8)"

definition store64 :: "u64 \<Rightarrow> u64 \<Rightarrow> mem \<Rightarrow> mem" where
  "store64 a v = write_mem a (le_bytes 8 v)"

lemma load_store64_same: "load64 (store64 a v m) a = v"
  using read_write_same [of "le_bytes 8 v" a m] le_word_le_bytes [of 8 v]
  by (simp add: load64_def store64_def)

lemma load_store64_other: "span a 8 \<inter> span b 8 = {} \<Longrightarrow> load64 (store64 b v m) a = load64 m a"
  by (simp add: load64_def store64_def read_write_other)

text \<open>Two 8-aligned words are the same or do not overlap.\<close>

lemma aligned_spans_disjoint:
  assumes "8 dvd unat a" "8 dvd unat b" "a \<noteq> b"
  shows "span a 8 \<inter> span b 8 = {}"
proof -
  have aux: "unat (x + of_nat i) = unat x + i" if al: "8 dvd unat x" and lt: "i < 8" for x :: u64 and i
  proof -
    obtain k where k: "unat x = 8 * k" using al by (elim dvdE)
    have "unat x < 2 ^ 64" using unat_less_power [of x] by simp
    then have "k < 2 ^ 61" using k by simp
    then have "unat x + i < 2 ^ 64" using k lt by simp
    then show ?thesis using lt by (simp add: unat_word_ariths unat_of_nat)
  qed
  have "a + of_nat i \<noteq> b + of_nat j" if "i < 8" "j < 8" for i j
  proof
    assume "a + of_nat i = b + of_nat j"
    then have "unat a + i = unat b + j" using aux assms(1,2) that by metis
    then have "(unat a + i) div 8 = (unat b + j) div 8" by simp
    then have "unat a div 8 = unat b div 8" using assms(1,2) that by (simp add: div_plus_div_distrib_dvd_left)
    then show False using assms by (metis dvd_mult_div_cancel word_unat_eq_iff)
  qed
  then show ?thesis by (auto simp: span_def)
qed

definition zero_mem :: "u64 \<Rightarrow> nat \<Rightarrow> mem \<Rightarrow> mem" where
  "zero_mem a n = write_mem a (replicate n 0)"

subsection \<open>Runs of bytes\<close>

lemma write_mem_append: "write_mem a (xs @ ys) m = write_mem (a + of_nat (length xs)) ys (write_mem a xs m)"
  by (induction xs arbitrary: a m) (simp_all add: algebra_simps)

lemma write_mem_merge:
  "b = a + of_nat (length xs) \<Longrightarrow> write_mem b ys (write_mem a xs m) = write_mem a (xs @ ys) m"
  by (simp add: write_mem_append)

lemma read_mem_append: "read_mem m a (n + k) = read_mem m a n @ read_mem m (a + of_nat n) k"
  by (induction n arbitrary: a) (simp_all add: algebra_simps)

lemma read_mem_prefix: "n \<le> k \<Longrightarrow> read_mem m a n = take n (read_mem m a k)"
  using read_mem_append [of m a n "k - n"] by simp

lemma read_mem_slice: "i + n \<le> k \<Longrightarrow> read_mem m (a + of_nat i) n = take n (drop i (read_mem m a k))"
  using read_mem_append [of m a i "k - i"] read_mem_prefix [of n "k - i" m "a + of_nat i"] by simp

lemma mem_spanI: "i < n \<Longrightarrow> a + of_nat i \<in> span a n"
  by (auto simp: span_def)

lemma span_offset: "unat off + n \<le> k \<Longrightarrow> span (a + off) n \<subseteq> span a k"
proof
  fix x assume k: "unat off + n \<le> k" and "x \<in> span (a + off) n"
  then obtain i where i: "i < n" "x = a + off + of_nat i" by (auto simp: span_def)
  then have "x = a + of_nat (unat off + i)" by (simp add: algebra_simps)
  moreover have "unat off + i < k" using i k by simp
  ultimately show "x \<in> span a k" using mem_spanI by metis
qed

lemma span_prefix: "n \<le> k \<Longrightarrow> span a n \<subseteq> span a k"
  by (auto simp: span_def)

lemma span_offsets_disjoint:
  assumes "unat off + n \<le> unat off'" "unat off' + n' \<le> 2 ^ 64"
  shows "span (a + off) n \<inter> span (a + off') n' = {}"
proof -
  have "off + of_nat i \<noteq> off' + of_nat j" if "i < n" "j < n'" for i j
  proof
    assume eq: "off + of_nat i = off' + of_nat j"
    have "unat (off + of_nat i) = unat off + i" "unat (off' + of_nat j) = unat off' + j"
      using that assms by (simp_all add: unat_word_ariths unat_of_nat)
    then show False using eq that assms by simp
  qed
  then show ?thesis by (auto simp: span_def add.assoc)
qed

text \<open>Two page frames are the same or do not overlap.\<close>

lemma unat_frame_offset:
  assumes "4096 dvd unat (p :: u64)" "i < 4096"
  shows "unat (p + of_nat i) = unat p + i"
proof -
  obtain k where k: "unat p = 4096 * k" using assms(1) by (elim dvdE)
  moreover have "unat p < 2 ^ 64" using unat_less_power [of p] by simp
  ultimately have "unat p + i < 2 ^ 64" using assms(2) by simp
  then show ?thesis using assms(2) by (simp add: unat_word_ariths unat_of_nat)
qed

lemma frames_disjoint:
  assumes "4096 dvd unat p" "4096 dvd unat q" "p \<noteq> q"
  shows "span p 4096 \<inter> span q 4096 = {}"
proof -
  have "p + of_nat i \<noteq> q + of_nat j" if "i < 4096" "j < 4096" for i j
  proof
    assume "p + of_nat i = q + of_nat j"
    then have "unat p + i = unat q + j" using unat_frame_offset assms(1,2) that by metis
    then have "(unat p + i) div 4096 = (unat q + j) div 4096" by simp
    then have "unat p div 4096 = unat q div 4096" using assms(1,2) that by (simp add: div_plus_div_distrib_dvd_left)
    then show False using assms by (metis dvd_mult_div_cancel word_unat_eq_iff)
  qed
  then show ?thesis by (auto simp: span_def)
qed

section \<open>Devices and the machine\<close>

record 'd bus =
  is_mmio :: "u64 \<Rightarrow> bool"
  mmio_read :: "u64 \<Rightarrow> nat \<Rightarrow> 'd \<Rightarrow> u64 \<times> 'd"
  mmio_write :: "u64 \<Rightarrow> nat \<Rightarrow> u64 \<Rightarrow> 'd \<times> mem \<Rightarrow> 'd \<times> mem"
  spin_loop :: "'d \<times> mem \<Rightarrow> 'd \<times> mem"
  port_read :: "u16 \<Rightarrow> nat \<Rightarrow> 'd \<Rightarrow> u32 \<times> 'd"
  port_write :: "u16 \<Rightarrow> nat \<Rightarrow> u32 \<Rightarrow> 'd \<Rightarrow> 'd"

record 'd machine =
  ram :: mem
  devs :: 'd

definition phys_of :: "u64 \<Rightarrow> u64 \<Rightarrow> u64" where
  "phys_of hhdm va = va - hhdm"

definition on_devs :: "('d \<times> mem \<Rightarrow> 'd \<times> mem) \<Rightarrow> 'd machine \<Rightarrow> 'd machine" where
  "on_devs f M = (let (d, m) = f (devs M, ram M) in M\<lparr>ram := m, devs := d\<rparr>)"

text \<open>A read or write of \<open>n\<close> bytes at a physical address: a device register, or memory.\<close>

definition bus_read :: "'d bus \<Rightarrow> nat \<Rightarrow> u64 \<Rightarrow> 'd machine \<Rightarrow> 'a::len word \<times> 'd machine" where
  "bus_read B n a M =
    (if is_mmio B a then let (v, d) = mmio_read B a n (devs M) in (ucast v, M\<lparr>devs := d\<rparr>)
     else (le_word (read_mem (ram M) a n), M))"

definition bus_write :: "'d bus \<Rightarrow> nat \<Rightarrow> u64 \<Rightarrow> 'a::len word \<Rightarrow> 'd machine \<Rightarrow> 'd machine" where
  "bus_write B n a v M =
    (if is_mmio B a then on_devs (mmio_write B a n (ucast v)) M
     else M\<lparr>ram := write_mem a (le_bytes n v) (ram M)\<rparr>)"

lemma bus_read_ram: "\<not> is_mmio B a \<Longrightarrow> bus_read B n a M = (le_word (read_mem (ram M) a n), M)"
  by (simp add: bus_read_def)

lemma bus_write_ram: "\<not> is_mmio B a \<Longrightarrow> bus_write B n a v M = M\<lparr>ram := write_mem a (le_bytes n v) (ram M)\<rparr>"
  by (simp add: bus_write_def)

end
