(* ===== verification/FrameAlloc.thy ===== *)
theory FrameAlloc
  imports Prelude
begin

text \<open>
  The verified bitmap frame allocator, \<^verbatim>\<open>crates/frame-alloc/src/lib.rs\<close>. The const generic
  \<^verbatim>\<open>FRAMES\<close> is an argument of every operation; the bitmap is the list of its 64-bit words.
  \<^verbatim>\<open>trailing_zeros\<close> and \<^verbatim>\<open>count_ones\<close> are the core library's functions on \<^verbatim>\<open>u64\<close>.

  The theory also states the interface a lowest-first frame allocator offers its clients, the
  locale \<open>frame_pool\<close>, proves the client facts once inside it (no frame is handed out twice,
  frames come out in increasing order, a freed frame can be had again), and interprets it on the
  bitmap. The kernel's range-list allocator interprets the same locale.
\<close>

section \<open>Bit queries of the core library\<close>

definition trailing_zeros :: "u64 \<Rightarrow> nat" where
  "trailing_zeros w = length (takeWhile (\<lambda>n. \<not> bit w n) [0..<64])"

definition count_ones :: "u64 \<Rightarrow> nat" where
  "count_ones w = length (filter (bit w) [0..<64])"

section \<open>The allocator\<close>

record BitmapFrameAllocator =
  words :: "u64 list"

definition BitmapFrameAllocator_new :: "nat \<Rightarrow> BitmapFrameAllocator" where
  "BitmapFrameAllocator_new FRAMES = \<lparr>words = replicate ((FRAMES + 63) div 64) 0\<rparr>"

definition mark_free :: "nat \<Rightarrow> nat \<Rightarrow> BitmapFrameAllocator \<Rightarrow> BitmapFrameAllocator" where
  "mark_free FRAMES frame s =
    (if FRAMES \<le> frame then s
     else let w = frame div 64; b = frame mod 64
          in s\<lparr>words := (words s)[w := (words s ! w) OR push_bit b 1]\<rparr>)"

definition mark_used :: "nat \<Rightarrow> nat \<Rightarrow> BitmapFrameAllocator \<Rightarrow> BitmapFrameAllocator" where
  "mark_used FRAMES frame s =
    (if FRAMES \<le> frame then s
     else let w = frame div 64; b = frame mod 64
          in s\<lparr>words := (words s)[w := (words s ! w) AND NOT (push_bit b 1)]\<rparr>)"

text \<open>The loop of \<^verbatim>\<open>alloc\<close>: \<open>wi\<close> is the index of the first word of the list.\<close>

fun alloc_words :: "nat \<Rightarrow> nat \<Rightarrow> u64 list \<Rightarrow> nat option \<times> u64 list" where
  "alloc_words FRAMES wi [] = (None, [])"
| "alloc_words FRAMES wi (word # rest) =
    (if word \<noteq> 0 then
       let bi = trailing_zeros word;
           frame = wi * 64 + bi;
           cleared = word AND NOT (push_bit bi 1)
       in if frame < FRAMES then (Some frame, cleared # rest)
          else let (r, rest') = alloc_words FRAMES (Suc wi) rest in (r, cleared # rest')
     else let (r, rest') = alloc_words FRAMES (Suc wi) rest in (r, word # rest'))"

definition alloc :: "nat \<Rightarrow> BitmapFrameAllocator \<Rightarrow> nat option \<times> BitmapFrameAllocator" where
  "alloc FRAMES s = (let (r, ws) = alloc_words FRAMES 0 (words s) in (r, s\<lparr>words := ws\<rparr>))"

definition free :: "nat \<Rightarrow> nat \<Rightarrow> BitmapFrameAllocator \<Rightarrow> BitmapFrameAllocator" where
  "free FRAMES frame s = mark_free FRAMES frame s"

definition is_free :: "nat \<Rightarrow> nat \<Rightarrow> BitmapFrameAllocator \<Rightarrow> bool" where
  "is_free FRAMES frame s =
    (if FRAMES \<le> frame then False
     else let w = frame div 64; b = frame mod 64
          in (words s ! w) AND push_bit b 1 \<noteq> 0)"

definition free_count :: "BitmapFrameAllocator \<Rightarrow> nat" where
  "free_count s = foldl (\<lambda>cnt w. cnt + count_ones w) 0 (words s)"

section \<open>Abstraction and invariant\<close>

text \<open>
  The bitmap stands for the set of frames whose bit is set. The invariant is the comment on the
  \<^verbatim>\<open>words\<close> field: the array has its fixed length, and the bits beyond \<^verbatim>\<open>FRAMES\<close> are 0.
\<close>

definition bit_at :: "u64 list \<Rightarrow> nat \<Rightarrow> bool" where
  "bit_at ws f \<longleftrightarrow> f div 64 < length ws \<and> bit (ws ! (f div 64)) (f mod 64)"

definition free_frames :: "BitmapFrameAllocator \<Rightarrow> nat set" where
  "free_frames s = {f. bit_at (words s) f}"

definition bitmap_inv :: "nat \<Rightarrow> BitmapFrameAllocator \<Rightarrow> bool" where
  "bitmap_inv FRAMES s \<longleftrightarrow>
     length (words s) = (FRAMES + 63) div 64 \<and> (\<forall>f. bit_at (words s) f \<longrightarrow> f < FRAMES)"

section \<open>The frame-pool interface\<close>

text \<open>A run of allocations by an allocator, stopping at the first failure.\<close>

fun alloc_run :: "('s \<Rightarrow> 'f option \<times> 's) \<Rightarrow> nat \<Rightarrow> 's \<Rightarrow> 'f list \<times> 's" where
  "alloc_run al 0 s = ([], s)"
| "alloc_run al (Suc n) s =
    (case al s of
       (None, s') \<Rightarrow> ([], s')
     | (Some f, s') \<Rightarrow> let (fs, s'') = alloc_run al n s' in (f # fs, s''))"

text \<open>
  \<open>frames\<close> is the set of free frames of a state. \<open>can_free s f\<close> is the provider's condition
  under which freeing \<open>f\<close> is not lost.
\<close>

locale frame_pool =
  fixes pool_alloc :: "'s \<Rightarrow> 'f::linorder option \<times> 's"
    and pool_free :: "'f \<Rightarrow> 's \<Rightarrow> 's"
    and frames :: "'s \<Rightarrow> 'f set"
    and invar :: "'s \<Rightarrow> bool"
    and can_free :: "'s \<Rightarrow> 'f \<Rightarrow> bool"
  assumes finite_frames: "invar s \<Longrightarrow> finite (frames s)"
    and alloc_None: "invar s \<Longrightarrow> pool_alloc s = (None, s') \<Longrightarrow> frames s = {} \<and> s' = s"
    and alloc_Some: "invar s \<Longrightarrow> pool_alloc s = (Some f, s') \<Longrightarrow>
          frames s \<noteq> {} \<and> f = Min (frames s) \<and> frames s' = frames s - {f} \<and> invar s'"
    and free_frames: "invar s \<Longrightarrow> can_free s f \<Longrightarrow> frames (pool_free f s) = insert f (frames s)"
    and free_invar: "invar s \<Longrightarrow> can_free s f \<Longrightarrow> invar (pool_free f s)"
begin

lemma alloc_run_spec:
  assumes "invar s" "alloc_run pool_alloc n s = (fs, s')"
  shows "set fs \<subseteq> frames s \<and> frames s' = frames s - set fs \<and> sorted_wrt (<) fs \<and> invar s' \<and>
    length fs = min n (card (frames s))"
  using assms
proof (induction n arbitrary: s fs)
  case (Suc n)
  obtain r t where rt: "pool_alloc s = (r, t)" by fastforce
  show ?case
  proof (cases r)
    case None
    then have "frames s = {}" "t = s" "fs = []" "s' = t"
      using rt Suc.prems alloc_None [of s t] by simp_all
    with Suc.prems(1) show ?thesis by simp
  next
    case (Some f)
    then obtain gs where gs: "alloc_run pool_alloc n t = (gs, s')" "fs = f # gs"
      using Suc.prems(2) rt by (auto split: prod.splits)
    have A: "frames s \<noteq> {}" "f = Min (frames s)" "frames t = frames s - {f}" "invar t"
      using alloc_Some [OF Suc.prems(1)] rt Some by simp_all
    have fin: "finite (frames s)" by (rule finite_frames [OF Suc.prems(1)])
    have f: "f \<in> frames s" unfolding A(2) using A(1) fin by simp
    note IH = Suc.IH [OF A(4) gs(1)]
    have gt: "f < g" if "g \<in> set gs" for g
    proof -
      have "g \<in> frames s" "g \<noteq> f" using that IH A(3) by blast+
      moreover have "f \<le> g" unfolding A(2) using \<open>g \<in> frames s\<close> fin by simp
      ultimately show ?thesis by simp
    qed
    have "card (frames s) = Suc (card (frames t))"
      unfolding A(3) using card_Suc_Diff1 [OF fin f] by simp
    then have "length fs = min (Suc n) (card (frames s))" using IH gs(2) by simp
    moreover have "set fs \<subseteq> frames s" "frames s' = frames s - set fs"
      using IH f by (auto simp: gs(2) A(3))
    moreover have "sorted_wrt (<) fs" using gt IH gs(2) by simp
    ultimately show ?thesis using IH by simp
  qed
qed simp

lemma alloc_run_distinct:
  assumes "invar s" "alloc_run pool_alloc n s = (fs, s')"
  shows "distinct fs"
  using alloc_run_spec [OF assms] by (simp add: strict_sorted_iff)

lemma alloc_free_roundtrip:
  assumes "invar s" "pool_alloc s = (Some f, s')" "can_free s' f"
  shows "frames (pool_free f s') = frames s"
proof -
  note A = alloc_Some [OF assms(1,2)]
  then have "Min (frames s) \<in> frames s" using finite_frames [OF assms(1)] by simp
  with A have "insert f (frames s') = frames s" by blast
  with A show ?thesis using free_frames [of s' f] assms(3) by simp
qed

end

section \<open>Words of the bitmap\<close>

lemma trailing_zeros:
  assumes "w \<noteq> 0"
  shows "trailing_zeros w < 64" "bit w (trailing_zeros w)" "k < trailing_zeros w \<Longrightarrow> \<not> bit w k"
proof -
  let ?P = "\<lambda>n. \<not> bit w n"
  obtain n where n: "bit w n" using assms by (metis bit_eqI bit_0_eq bot_apply bot_bool_def)
  then have "n < 64" using bit_imp_le_length by fastforce
  then have "\<not> (\<forall>x \<in> set [0..<64]. ?P x)" using n by auto
  then have "takeWhile ?P [0..<64] \<noteq> [0..<64]" by (metis takeWhile_eq_all_conv)
  then have "length (takeWhile ?P [0..<64]) \<noteq> length [0..<64]"
    by (metis takeWhile_eq_take take_all order_refl)
  then have lt: "length (takeWhile ?P [0..<64]) < length [0..<64]"
    using length_takeWhile_le [of ?P "[0..<64]"] by linarith
  then show "trailing_zeros w < 64" by (simp add: trailing_zeros_def)
  show "bit w (trailing_zeros w)"
    using nth_length_takeWhile [OF lt] lt by (simp add: trailing_zeros_def)
  assume k: "k < trailing_zeros w"
  then have "takeWhile ?P [0..<64] ! k \<in> set (takeWhile ?P [0..<64])"
    by (simp add: trailing_zeros_def)
  then have "\<not> bit w (takeWhile ?P [0..<64] ! k)" by (metis set_takeWhileD)
  then show "\<not> bit w k" using k lt by (simp add: trailing_zeros_def takeWhile_nth)
qed

lemma bit_word_imp_less: "bit (w :: u64) n \<Longrightarrow> n < 64"
  using bit_imp_le_length by fastforce

lemma bit_set: "b < 64 \<Longrightarrow> bit ((w :: u64) OR push_bit b 1) n \<longleftrightarrow> bit w n \<or> n = b"
  by (auto simp: bit_simps dest: bit_word_imp_less)

lemma bit_clear: "b < 64 \<Longrightarrow> bit ((w :: u64) AND NOT (push_bit b 1)) n \<longleftrightarrow> bit w n \<and> n \<noteq> b"
  by (auto simp: bit_simps dest: bit_word_imp_less)

lemma and_single: "b < 64 \<Longrightarrow> (w :: u64) AND push_bit b 1 \<noteq> 0 \<longleftrightarrow> bit w b"
  by (simp add: bit_iff_and_push_bit_not_eq_0)

lemma count_ones_card: "count_ones w = card {n. bit w n}"
proof -
  have "{n. bit w n} = set (filter (bit w) [0..<64])" by (auto dest: bit_word_imp_less)
  moreover have "distinct (filter (bit w) [0..<64])" by simp
  ultimately show ?thesis by (simp only: count_ones_def distinct_card)
qed

lemma bit_at_Cons: "bit_at (w # ws) f \<longleftrightarrow> (if f < 64 then bit w f else bit_at ws (f - 64))"
proof (cases "f < 64")
  case False
  then have "f div 64 = Suc ((f - 64) div 64)" "(f - 64) mod 64 = f mod 64"
    by (simp_all add: le_div_geq le_mod_geq)
  with False show ?thesis by (simp add: bit_at_def)
qed (simp add: bit_at_def)

lemma bit_at_Nil [simp]: "\<not> bit_at [] f"
  by (simp add: bit_at_def)

lemma bit_at_less: "bit_at ws f \<Longrightarrow> f < 64 * length ws"
  by (auto simp: bit_at_def)

lemma bit_at_update:
  assumes "w < length ws"
  shows "bit_at (ws[w := x]) f \<longleftrightarrow> (if f div 64 = w then bit x (f mod 64) else bit_at ws f)"
  using assms by (auto simp: bit_at_def)

lemma count_words:
  "foldl (\<lambda>cnt w. cnt + count_ones w) n ws = n + card {f. bit_at ws f}"
proof (induction ws arbitrary: n)
  case (Cons w ws)
  have "{f. bit_at (w # ws) f} = {f. bit w f} \<union> (+) 64 ` {f. bit_at ws f}"
    by (auto simp: bit_at_Cons image_iff dest: bit_word_imp_less split: if_splits)
      (metis le_add_diff_inverse not_less)
  moreover have "finite {f. bit w f}"
    by (rule finite_subset [of _ "{..<64}"]) (auto dest: bit_word_imp_less)
  moreover have "finite {f. bit_at ws f}"
    by (rule finite_subset [of _ "{..<64 * length ws}"]) (auto dest: bit_at_less)
  moreover have "{f. bit w f} \<inter> (+) 64 ` {f. bit_at ws f} = {}"
    by (auto dest!: bit_word_imp_less)
  ultimately have "card {f. bit_at (w # ws) f} = count_ones w + card {f. bit_at ws f}"
    by (simp add: card_Un_disjoint count_ones_card card_image)
  with Cons.IH show ?case by simp
qed (simp add: Collect_empty_eq [THEN iffD2])

text \<open>The allocation loop finds the lowest set bit and clears it.\<close>

lemma alloc_words_spec:
  assumes "\<And>f. bit_at ws f \<Longrightarrow> wi * 64 + f < FRAMES"
  shows "case alloc_words FRAMES wi ws of
      (None, ws') \<Rightarrow> ws' = ws \<and> (\<forall>f. \<not> bit_at ws f)
    | (Some g, ws') \<Rightarrow> length ws' = length ws \<and>
        (\<exists>f. g = wi * 64 + f \<and> bit_at ws f \<and> (\<forall>f' < f. \<not> bit_at ws f') \<and>
             (\<forall>f'. bit_at ws' f' \<longleftrightarrow> bit_at ws f' \<and> f' \<noteq> f))"
  using assms
proof (induction ws arbitrary: wi)
  case (Cons w ws)
  show ?case
  proof (cases "w = 0")
    case False
    note tz = trailing_zeros [OF False]
    have "wi * 64 + trailing_zeros w < FRAMES"
      using Cons.prems [of "trailing_zeros w"] tz by (simp add: bit_at_Cons)
    with False tz show ?thesis
      by (auto simp: Let_def bit_at_Cons bit_clear simp del: push_bit_of_1 intro!: exI [of _ "trailing_zeros w"])
  next
    case True
    have "Suc wi * 64 + f < FRAMES" if "bit_at ws f" for f
      using Cons.prems [of "f + 64"] that by (simp add: bit_at_Cons)
    note IH = Cons.IH [OF this]
    obtain r ws' where rw: "alloc_words FRAMES (Suc wi) ws = (r, ws')" by fastforce
    have zero: "bit_at (0 # xs) f \<longleftrightarrow> 64 \<le> f \<and> bit_at xs (f - 64)" for xs f
      by (simp add: bit_at_Cons)
    show ?thesis
    proof (cases r)
      case None
      with IH rw True show ?thesis by (simp add: zero)
    next
      case (Some g)
      with IH rw obtain f where f: "length ws' = length ws" "g = Suc wi * 64 + f" "bit_at ws f"
          "\<forall>f' < f. \<not> bit_at ws f'" "\<forall>f'. bit_at ws' f' \<longleftrightarrow> bit_at ws f' \<and> f' \<noteq> f" by auto
      show ?thesis
        using rw True Some f by (auto simp: zero intro!: exI [of _ "f + 64"])
    qed
  qed
qed simp

section \<open>The bitmap refines a set of frames\<close>

lemma bitmap_index: "(f :: nat) < FRAMES \<Longrightarrow> f div 64 < (FRAMES + 63) div 64"
  by linarith

lemma bit_position: "f div 64 = g div 64 \<Longrightarrow> f mod 64 = g mod 64 \<longleftrightarrow> f = (g :: nat)"
  by (metis div_mult_mod_eq)

lemma free_frames_new: "free_frames (BitmapFrameAllocator_new FRAMES) = {}"
  by (auto simp: free_frames_def BitmapFrameAllocator_new_def bit_at_def)

lemma bitmap_inv_new: "bitmap_inv FRAMES (BitmapFrameAllocator_new FRAMES)"
  by (auto simp: bitmap_inv_def BitmapFrameAllocator_new_def bit_at_def)

lemma finite_free_frames: "finite (free_frames s)"
  by (rule finite_subset [of _ "{..<64 * length (words s)}"])
    (auto simp: free_frames_def dest: bit_at_less)

lemma bit_at_mark:
  assumes "bitmap_inv FRAMES s" "f < FRAMES"
  shows "bit_at (words (mark_free FRAMES f s)) g \<longleftrightarrow> bit_at (words s) g \<or> g = f"
    and "bit_at (words (mark_used FRAMES f s)) g \<longleftrightarrow> bit_at (words s) g \<and> g \<noteq> f"
  using assms bitmap_index [OF assms(2)]
  by (auto simp: mark_free_def mark_used_def Let_def bitmap_inv_def bit_at_update bit_set bit_clear
      bit_position simp del: push_bit_of_1) (auto simp: bit_at_def bit_position)

lemma free_frames_mark_free:
  "bitmap_inv FRAMES s \<Longrightarrow>
     free_frames (mark_free FRAMES f s) = (if f < FRAMES then insert f (free_frames s) else free_frames s)"
  by (auto simp: free_frames_def bit_at_mark) (simp_all add: mark_free_def)

lemma free_frames_mark_used:
  "bitmap_inv FRAMES s \<Longrightarrow> free_frames (mark_used FRAMES f s) = free_frames s - {f}"
proof (cases "f < FRAMES")
  case False
  then show "bitmap_inv FRAMES s \<Longrightarrow> ?thesis"
    by (auto simp: free_frames_def mark_used_def bitmap_inv_def)
qed (auto simp: free_frames_def bit_at_mark)

lemma bitmap_inv_mark:
  assumes "bitmap_inv FRAMES s"
  shows "bitmap_inv FRAMES (mark_free FRAMES f s)" "bitmap_inv FRAMES (mark_used FRAMES f s)"
  using assms bit_at_mark [OF assms, of f]
  by (cases "f < FRAMES"; auto simp: bitmap_inv_def mark_free_def mark_used_def Let_def)+

lemma is_free_iff: "bitmap_inv FRAMES s \<Longrightarrow> is_free FRAMES f s \<longleftrightarrow> f \<in> free_frames s"
  using bitmap_index [of f FRAMES]
  by (auto simp: is_free_def bitmap_inv_def free_frames_def bit_at_def Let_def
      and_single simp del: push_bit_of_1)

lemma free_count_eq: "free_count s = card (free_frames s)"
  by (simp add: free_count_def free_frames_def count_words)

lemma alloc_result:
  assumes "bitmap_inv FRAMES s"
  shows "case alloc FRAMES s of
      (None, s') \<Rightarrow> s' = s \<and> free_frames s = {}
    | (Some f, s') \<Rightarrow> bitmap_inv FRAMES s' \<and> f \<in> free_frames s \<and> f = Min (free_frames s) \<and>
        free_frames s' = free_frames s - {f}"
proof -
  obtain r ws where rw: "alloc_words FRAMES 0 (words s) = (r, ws)" by fastforce
  have "bit_at (words s) f \<Longrightarrow> 0 * 64 + f < FRAMES" for f
    using assms by (simp add: bitmap_inv_def)
  note spec = alloc_words_spec [where wi = 0 and ws = "words s", OF this, unfolded rw]
  show ?thesis
  proof (cases r)
    case None
    with spec rw show ?thesis by (simp add: alloc_def free_frames_def)
  next
    case (Some f)
    with spec have len: "length ws = length (words s)" and f: "bit_at (words s) f"
      and least: "\<forall>f' < f. \<not> bit_at (words s) f'"
      and ws: "\<forall>f'. bit_at ws f' \<longleftrightarrow> bit_at (words s) f' \<and> f' \<noteq> f" by auto
    have "f = Min (free_frames s)"
      using f least finite_free_frames [of s]
      by (intro Min_eqI [symmetric]) (auto simp: free_frames_def not_less [symmetric])
    moreover have "bitmap_inv FRAMES (s\<lparr>words := ws\<rparr>)"
      using assms len ws by (simp add: bitmap_inv_def)
    ultimately show ?thesis
      using rw Some f ws by (auto simp: alloc_def free_frames_def)
  qed
qed

interpretation bm: frame_pool "alloc FRAMES" "FrameAlloc.free FRAMES" free_frames "bitmap_inv FRAMES"
    "\<lambda>s f. f < FRAMES" for FRAMES
proof
  fix s s' f
  assume inv: "bitmap_inv FRAMES s"
  note spec = alloc_result [OF inv]
  show "finite (free_frames s)" by (rule finite_free_frames)
  show "free_frames s = {} \<and> s' = s" if "alloc FRAMES s = (None, s')"
    using spec that by simp
  show "free_frames s \<noteq> {} \<and> f = Min (free_frames s) \<and> free_frames s' = free_frames s - {f} \<and>
      bitmap_inv FRAMES s'" if "alloc FRAMES s = (Some f, s')"
    using spec that by auto
  show "free_frames (FrameAlloc.free FRAMES f s) = insert f (free_frames s)" if "f < FRAMES"
    using that inv by (simp add: free_def free_frames_mark_free)
  show "bitmap_inv FRAMES (FrameAlloc.free FRAMES f s)"
    using inv by (simp add: free_def bitmap_inv_mark)
qed

section \<open>Properties\<close>

text \<open>
  C22: the bitmap allocator implements a set of free frame numbers. From any state in which the
  bits beyond \<open>FRAMES\<close> are zero, \<open>alloc\<close> fails exactly when the set is empty, otherwise it returns
  the least free frame and removes only that frame; \<open>free\<close>, \<open>mark_free\<close> and \<open>mark_used\<close> insert and remove
  one frame and ignore a frame out of range; \<open>is_free\<close> is membership, \<open>free_count\<close> the size; and
  every operation keeps the unused high bits zero.
\<close>
theorem bitmap_refines_set:
  assumes "bitmap_inv FRAMES s"
  shows "fst (alloc FRAMES s) = (if free_frames s = {} then None else Some (Min (free_frames s))) \<and>
    free_frames (snd (alloc FRAMES s)) = free_frames s - set_option (fst (alloc FRAMES s)) \<and>
    free_frames (FrameAlloc.free FRAMES f s) = free_frames s \<union> ({f} \<inter> {..<FRAMES}) \<and>
    free_frames (mark_used FRAMES f s) = free_frames s - {f} \<and>
    (is_free FRAMES f s \<longleftrightarrow> f \<in> free_frames s) \<and>
    free_count s = card (free_frames s) \<and>
    bitmap_inv FRAMES (snd (alloc FRAMES s)) \<and>
    bitmap_inv FRAMES (FrameAlloc.free FRAMES f s) \<and>
    bitmap_inv FRAMES (mark_used FRAMES f s)"
proof -
  obtain r s' where rs: "alloc FRAMES s = (r, s')" by fastforce
  note spec = alloc_result [OF assms, unfolded rs]
  have "fst (alloc FRAMES s) = (if free_frames s = {} then None else Some (Min (free_frames s)))"
    "free_frames (snd (alloc FRAMES s)) = free_frames s - set_option (fst (alloc FRAMES s))"
    "bitmap_inv FRAMES (snd (alloc FRAMES s))"
    using spec rs assms by (cases r; auto)+
  moreover have "free_frames (FrameAlloc.free FRAMES f s) = free_frames s \<union> ({f} \<inter> {..<FRAMES})"
    using assms by (simp add: free_def free_frames_mark_free)
  ultimately show ?thesis
    using assms by (simp add: free_frames_mark_used is_free_iff free_count_eq free_def bitmap_inv_mark)
qed

theorem bitmap_refines_set_witness:
  "let s = mark_free 130 129 (mark_free 130 70 (mark_free 130 3 (BitmapFrameAllocator_new 130)))
   in fst (alloc 130 s) = Some 3 \<and> free_frames (snd (alloc 130 s)) = {70, 129}"
proof -
  let ?s = "mark_free 130 129 (mark_free 130 70 (mark_free 130 3 (BitmapFrameAllocator_new 130)))"
  have inv: "bitmap_inv 130 ?s" by (intro bitmap_inv_mark bitmap_inv_new)
  have "free_frames ?s = {3, 70, 129}"
    by (auto simp: free_frames_mark_free bitmap_inv_mark bitmap_inv_new free_frames_new)
  then show ?thesis using bitmap_refines_set [OF inv] by (auto simp: Let_def)
qed

text \<open>
  No frame is handed out twice by the bitmap allocator: a run of \<open>n\<close> allocations returns
  distinct frames in increasing order, all of them free before and none of them free after, and
  it returns \<open>n\<close> of them unless fewer were free.
\<close>
theorem bitmap_alloc_run:
  assumes "bitmap_inv FRAMES s" "alloc_run (alloc FRAMES) n s = (fs, s')"
  shows "sorted_wrt (<) fs \<and> distinct fs \<and> set fs \<subseteq> free_frames s \<and>
    free_frames s' = free_frames s - set fs \<and> length fs = min n (free_count s)"
  using bm.alloc_run_spec [OF assms] bm.alloc_run_distinct [OF assms]
  by (simp add: free_count_eq)

theorem bitmap_alloc_run_witness:
  "let s = mark_free 130 70 (mark_free 130 3 (BitmapFrameAllocator_new 130))
   in length (fst (alloc_run (alloc 130) 5 s)) = 2 \<and> free_frames (snd (alloc_run (alloc 130) 5 s)) \<subseteq> {3, 70}"
proof -
  let ?s = "mark_free 130 70 (mark_free 130 3 (BitmapFrameAllocator_new 130))"
  obtain fs t where run: "alloc_run (alloc 130) 5 ?s = (fs, t)" by fastforce
  have inv: "bitmap_inv 130 ?s" by (intro bitmap_inv_mark bitmap_inv_new)
  have "free_frames ?s = {3, 70}"
    by (auto simp: free_frames_mark_free bitmap_inv_mark bitmap_inv_new free_frames_new)
  then show ?thesis using bitmap_alloc_run [OF inv run] run by (auto simp: Let_def free_count_eq)
qed

end
