(* ===== verification/FrameRanges.thy ===== *)
theory FrameRanges
  imports FrameAlloc "HOL-Library.Multiset"
begin

text \<open>
  The kernel's physical frame allocator, \<^verbatim>\<open>kernel/src/memory.rs\<close>: a fixed array of
  \<^verbatim>\<open>MAX_REGIONS\<close> optional regions of free frames. Arithmetic on frame numbers wraps at 64
  bits, as the release build does. The statics of the module (the allocator behind its lock and
  the HHDM offset) are the record \<open>Memory\<close>.

  The Limine memory map is input: a list of entries. The value of \<^verbatim>\<open>MEMMAP_USABLE\<close> belongs to
  the Limine crate and is an argument of \<open>init\<close>. The kernel heap (\<^verbatim>\<open>init_heap\<close>) hands a static
  buffer to a third-party allocator and is not modelled.

  The lemmas show that the region array implements a set of frames; the array interprets the
  locale \<open>frame_pool\<close>, and it stays in step with the verified bitmap of \<open>FrameAlloc\<close>.
\<close>

section \<open>The region array\<close>

definition MAX_REGIONS :: nat where [const_defs]: "MAX_REGIONS = 64"

record FreeRegion =
  fr_start :: u64
  fr_end :: u64

definition region_len :: "FreeRegion \<Rightarrow> u64" where
  "region_len r = saturating_sub (fr_end r) (fr_start r)"

record FrameAllocator =
  regions :: "FreeRegion option list"

definition FrameAllocator_empty :: FrameAllocator where
  "FrameAllocator_empty = \<lparr>regions = replicate MAX_REGIONS None\<rparr>"

definition clear :: "FrameAllocator \<Rightarrow> FrameAllocator" where
  "clear fa = fa\<lparr>regions := map (\<lambda>slot. None) (regions fa)\<rparr>"

definition add_region :: "u64 \<Rightarrow> u64 \<Rightarrow> FrameAllocator \<Rightarrow> FrameAllocator" where
  "add_region s e fa =
    (if e \<le> s then fa
     else case position (\<lambda>slot. slot = None) (regions fa) of
         Some i \<Rightarrow> fa\<lparr>regions := (regions fa)[i := Some \<lparr>fr_start = s, fr_end = e\<rparr>]\<rparr>
       | None \<Rightarrow> fa)"

text \<open>The scan of \<^verbatim>\<open>alloc\<close>; the pair is \<^verbatim>\<open>(best_idx, best_start)\<close>.\<close>

fun alloc_scan :: "nat \<Rightarrow> FreeRegion option list \<Rightarrow> nat option \<times> u64 \<Rightarrow> nat option \<times> u64" where
  "alloc_scan i [] best = best"
| "alloc_scan i (None # rest) best = alloc_scan (Suc i) rest best"
| "alloc_scan i (Some r # rest) (best_idx, best_start) =
    (if fr_start r < fr_end r \<and> fr_start r < best_start
     then alloc_scan (Suc i) rest (Some i, fr_start r)
     else alloc_scan (Suc i) rest (best_idx, best_start))"

definition region_alloc :: "FrameAllocator \<Rightarrow> u64 option \<times> FrameAllocator" where
  "region_alloc fa =
    (case alloc_scan 0 (regions fa) (None, - 1) of
       (None, _) \<Rightarrow> (None, fa)
     | (Some i, _) \<Rightarrow>
         (case regions fa ! i of
            None \<Rightarrow> (None, fa)
          | Some r \<Rightarrow>
              let f = fr_start r;
                  r' = r\<lparr>fr_start := fr_start r + 1\<rparr>
              in (Some f, fa\<lparr>regions := (regions fa)
                   [i := if fr_end r' \<le> fr_start r' then None else Some r']\<rparr>)))"

subsection \<open>Coalescing\<close>

text \<open>
  \<open>sift j live\<close> is the inner \<^verbatim>\<open>while\<close> of the insertion sort with its swap of neighbours;
  \<open>sort_live\<close> the outer \<^verbatim>\<open>for\<close>. The list \<open>live\<close> is the first \<^verbatim>\<open>n\<close> entries of the array of the
  same name: the entries beyond are never read.
\<close>

fun sift :: "nat \<Rightarrow> FreeRegion list \<Rightarrow> FreeRegion list" where
  "sift 0 live = live"
| "sift (Suc j) live =
    (if fr_start (live ! Suc j) < fr_start (live ! j)
     then sift j (live[j := live ! Suc j, Suc j := live ! j])
     else live)"

definition sort_live :: "FreeRegion list \<Rightarrow> FreeRegion list" where
  "sort_live live = foldl (\<lambda>live i. sift i live) live [1..<length live]"

text \<open>The merge loop: \<open>cur\<close> is the run being built, the result is what is written to \<^verbatim>\<open>out\<close>.\<close>

fun merge_runs :: "FreeRegion \<Rightarrow> FreeRegion list \<Rightarrow> FreeRegion list" where
  "merge_runs cur [] = [cur]"
| "merge_runs cur (r # rest) =
    (if fr_start r \<le> fr_end cur
     then merge_runs (if fr_end cur < fr_end r then cur\<lparr>fr_end := fr_end r\<rparr> else cur) rest
     else cur # merge_runs r rest)"

definition live_regions :: "FreeRegion option list \<Rightarrow> FreeRegion list" where
  "live_regions rs = [r. Some r \<leftarrow> rs, fr_start r < fr_end r]"

definition coalesce :: "FrameAllocator \<Rightarrow> FrameAllocator" where
  "coalesce fa =
    (case sort_live (live_regions (regions fa)) of
       [] \<Rightarrow> clear fa
     | cur # rest \<Rightarrow>
         let out = merge_runs cur rest
         in fa\<lparr>regions := map Some out @ drop (length out) (regions (clear fa))\<rparr>)"

subsection \<open>Freeing and counting\<close>

text \<open>The first loop of \<^verbatim>\<open>free\<close>; the flag is \<^verbatim>\<open>extended\<close>.\<close>

fun free_extend :: "u64 \<Rightarrow> FreeRegion option list \<Rightarrow> bool \<times> FreeRegion option list" where
  "free_extend frame [] = (False, [])"
| "free_extend frame (None # rest) =
    (let (extended, rest') = free_extend frame rest in (extended, None # rest'))"
| "free_extend frame (Some r # rest) =
    (if fr_end r = frame then (True, Some (r\<lparr>fr_end := fr_end r + 1\<rparr>) # rest)
     else if fr_start r = frame + 1 then (True, Some (r\<lparr>fr_start := frame\<rparr>) # rest)
     else let (extended, rest') = free_extend frame rest in (extended, Some r # rest'))"

definition region_free :: "u64 \<Rightarrow> FrameAllocator \<Rightarrow> FrameAllocator" where
  "region_free frame fa =
    (let (extended, rs) = free_extend frame (regions fa);
         rs' = (if extended then rs
                else case position (\<lambda>slot. slot = None) rs of
                    Some i \<Rightarrow> rs[i := Some \<lparr>fr_start = frame, fr_end = frame + 1\<rparr>]
                  | None \<Rightarrow> rs)
     in coalesce (fa\<lparr>regions := rs'\<rparr>))"

definition region_free_count :: "FrameAllocator \<Rightarrow> u64" where
  "region_free_count fa =
    foldl (\<lambda>sum slot. case slot of Some r \<Rightarrow> sum + region_len r | None \<Rightarrow> sum) 0 (regions fa)"

section \<open>The module\<close>

record MemmapEntry =
  base :: u64
  length_bytes :: u64
  entry_type :: u64

record Memory =
  FRAME_ALLOCATOR :: FrameAllocator
  HHDM_OFFSET :: u64

definition phys_frame_to_virt :: "u64 \<Rightarrow> Memory \<Rightarrow> u64" where
  "phys_frame_to_virt frame m = frame * 4096 + HHDM_OFFSET m"

definition add_entry :: "u64 \<Rightarrow> MemmapEntry \<Rightarrow> FrameAllocator \<Rightarrow> FrameAllocator" where
  "add_entry MEMMAP_USABLE entry fa =
    (if entry_type entry \<noteq> MEMMAP_USABLE then fa
     else let first = max ((base entry + 0xfff) div 0x1000) 0x100;
              last = (base entry + length_bytes entry) div 0x1000
          in if first < last then add_region first last fa else fa)"

definition init :: "u64 \<Rightarrow> u64 \<Rightarrow> MemmapEntry list \<Rightarrow> Memory \<Rightarrow> Memory" where
  "init MEMMAP_USABLE hhdm_offset memmap m =
    m\<lparr>FRAME_ALLOCATOR :=
        coalesce (foldl (\<lambda>fa entry. add_entry MEMMAP_USABLE entry fa) (clear (FRAME_ALLOCATOR m)) memmap),
      HHDM_OFFSET := hhdm_offset\<rparr>"

definition init_hhdm :: "u64 \<Rightarrow> Memory \<Rightarrow> Memory" where
  "init_hhdm hhdm_offset m = m\<lparr>HHDM_OFFSET := hhdm_offset\<rparr>"

definition allocate_frame :: "Memory \<Rightarrow> u64 option \<times> Memory" where
  "allocate_frame m =
    (let (r, fa) = region_alloc (FRAME_ALLOCATOR m) in (r, m\<lparr>FRAME_ALLOCATOR := fa\<rparr>))"

definition deallocate_frame :: "u64 \<Rightarrow> Memory \<Rightarrow> Memory" where
  "deallocate_frame frame m = m\<lparr>FRAME_ALLOCATOR := region_free frame (FRAME_ALLOCATOR m)\<rparr>"

definition free_frame_count :: "Memory \<Rightarrow> u64" where
  "free_frame_count m = region_free_count (FRAME_ALLOCATOR m)"

section \<open>Abstraction and invariant\<close>

text \<open>
  The array stands for the union of its regions. Between operations every region is non-empty
  and the regions, in array order, are sorted and separated by at least one used frame.
\<close>

definition region_set :: "FreeRegion \<Rightarrow> u64 set" where
  "region_set r = {fr_start r..<fr_end r}"

definition live_frames :: "FreeRegion list \<Rightarrow> u64 set" where
  "live_frames rs = (\<Union>r \<in> set rs. region_set r)"

definition pool_frames :: "FrameAllocator \<Rightarrow> u64 set" where
  "pool_frames fa = live_frames (live_regions (regions fa))"

definition nonempty :: "FreeRegion \<Rightarrow> bool" where
  "nonempty r \<longleftrightarrow> fr_start r < fr_end r"

definition separated :: "FreeRegion \<Rightarrow> FreeRegion \<Rightarrow> bool" where
  "separated a b \<longleftrightarrow> fr_end a < fr_start b"

definition regions_inv :: "FrameAllocator \<Rightarrow> bool" where
  "regions_inv fa \<longleftrightarrow>
     length (regions fa) = MAX_REGIONS \<and> (\<forall>r. Some r \<in> set (regions fa) \<longrightarrow> nonempty r) \<and>
     sorted_wrt separated (live_regions (regions fa))"

text \<open>Freeing a frame is not lost when it extends a region or a slot is left for it.\<close>

definition can_free :: "FrameAllocator \<Rightarrow> u64 \<Rightarrow> bool" where
  "can_free fa f \<longleftrightarrow> f \<noteq> - 1 \<and>
     (None \<in> set (regions fa) \<or>
      (\<exists>r. Some r \<in> set (regions fa) \<and> (fr_end r = f \<or> fr_start r = f + 1)))"

lemma live_frames_simps [simp]:
  "live_frames [] = {}" "live_frames (r # rs) = region_set r \<union> live_frames rs"
  "live_frames (rs @ ss) = live_frames rs \<union> live_frames ss"
  by (auto simp: live_frames_def)

lemma live_regions_simps [simp]:
  "live_regions [] = []"
  "live_regions (None # rs) = live_regions rs"
  "live_regions (Some r # rs) = (if nonempty r then r # live_regions rs else live_regions rs)"
  "live_regions (rs @ ss) = live_regions rs @ live_regions ss"
  "live_regions (replicate n None) = []"
  by (auto simp: live_regions_def nonempty_def)

lemma set_live_regions: "set (live_regions rs) = {r. Some r \<in> set rs \<and> nonempty r}"
proof (induction rs)
  case (Cons slot rs)
  then show ?case by (cases slot) auto
qed simp

lemma live_regions_map_Some: "live_regions (map Some rs) = filter nonempty rs"
  by (induction rs) auto

lemma live_regions_length: "length (live_regions rs) \<le> length rs"
proof (induction rs)
  case (Cons slot rs)
  then show ?case by (cases slot) auto
qed simp

lemma region_set_empty: "\<not> nonempty r \<Longrightarrow> region_set r = {}"
  by (simp add: nonempty_def region_set_def not_less)

section \<open>Coalescing keeps the frames and restores the invariant\<close>

abbreviation starts_le :: "FreeRegion \<Rightarrow> FreeRegion \<Rightarrow> bool" where
  "starts_le a b \<equiv> fr_start a \<le> fr_start b"

lemma sift_spec:
  assumes "sorted_wrt starts_le xs"
  shows "\<exists>zs. sift (length xs) (xs @ x # ys) = zs @ ys \<and> mset zs = mset (x # xs) \<and>
    sorted_wrt starts_le zs"
  using assms
proof (induction xs arbitrary: ys rule: rev_induct)
  case (snoc y xs)
  show ?case
  proof (cases "fr_start x < fr_start y")
    case True
    have sorted: "sorted_wrt starts_le xs" "\<forall>r \<in> set xs. starts_le r y"
      using snoc.prems by (simp_all add: sorted_wrt_append)
    obtain zs where zs: "sift (length xs) (xs @ x # y # ys) = zs @ y # ys"
        "mset zs = mset (x # xs)" "sorted_wrt starts_le zs"
      using snoc.IH [OF sorted(1)] by blast
    have "set zs = insert x (set xs)" using zs(2) by (metis list.set(2) set_mset_mset)
    then have "sorted_wrt starts_le (zs @ [y])"
      using zs(3) sorted(2) True by (auto simp: sorted_wrt_append)
    moreover have "sift (length (xs @ [y])) ((xs @ [y]) @ x # ys) = (zs @ [y]) @ ys"
      using True zs(1) by (simp add: nth_append list_update_append)
    ultimately show ?thesis using zs(2) by (intro exI [of _ "zs @ [y]"]) simp
  next
    case False
    then have "sorted_wrt starts_le (xs @ [y, x])"
      using snoc.prems by (auto simp: sorted_wrt_append intro: order_trans)
    moreover have "sift (length (xs @ [y])) ((xs @ [y]) @ x # ys) = (xs @ [y, x]) @ ys"
      using False by (simp add: nth_append)
    ultimately show ?thesis by (intro exI [of _ "xs @ [y, x]"]) simp
  qed
qed simp

lemma sort_live_prefix:
  assumes "n \<le> length live" "1 \<le> n"
  shows "\<exists>zs. foldl (\<lambda>live i. sift i live) live [1..<n] = zs @ drop n live \<and>
    mset zs = mset (take n live) \<and> sorted_wrt starts_le zs"
  using assms(2,1)
proof (induction n rule: dec_induct)
  case base
  then show ?case by (cases live) (auto intro: exI [of _ "[hd live]"])
next
  case (step n)
  then obtain zs where zs: "foldl (\<lambda>live i. sift i live) live [1..<n] = zs @ drop n live"
      "mset zs = mset (take n live)" "sorted_wrt starts_le zs" by auto
  have len: "length zs = n" using zs(2) step.prems by (metis length_take min.absorb4 size_mset Suc_le_eq)
  have "drop n live = live ! n # drop (Suc n) live" using step.prems by (simp add: Cons_nth_drop_Suc)
  then show ?case
    using sift_spec [OF zs(3), of "live ! n" "drop (Suc n) live"] zs(1,2) step len
    by (auto simp: take_Suc_conv_app_nth)
qed

lemma sort_live_spec: "mset (sort_live live) = mset live \<and> sorted_wrt starts_le (sort_live live)"
proof (cases live)
  case Nil
  then show ?thesis by (simp add: sort_live_def)
next
  case (Cons a rest)
  then show ?thesis
    using sort_live_prefix [of "length live" live] by (fastforce simp: sort_live_def)
qed

lemma merge_runs_spec:
  assumes "sorted_wrt starts_le (cur # rest)" "\<forall>r \<in> set (cur # rest). nonempty r"
  shows "live_frames (merge_runs cur rest) = live_frames (cur # rest) \<and>
    sorted_wrt separated (merge_runs cur rest) \<and>
    (\<forall>r \<in> set (merge_runs cur rest). nonempty r \<and> fr_start cur \<le> fr_start r) \<and>
    length (merge_runs cur rest) \<le> Suc (length rest)"
  using assms
proof (induction cur rest rule: merge_runs.induct)
  case (2 cur r rest)
  show ?case
  proof (cases "fr_start r \<le> fr_end cur")
    case True
    let ?c = "if fr_end cur < fr_end r then cur\<lparr>fr_end := fr_end r\<rparr> else cur"
    have "region_set ?c = region_set cur \<union> region_set r"
      using True 2(3,4) by (auto simp: region_set_def nonempty_def)
    moreover have "sorted_wrt starts_le (?c # rest)" "\<forall>r \<in> set (?c # rest). nonempty r"
      using 2(3,4) by (auto simp: nonempty_def)
    note 2(1) [OF True this]
    ultimately show ?thesis using True by (auto split: if_splits)
  next
    case False
    then have "live_frames (merge_runs r rest) = live_frames (r # rest) \<and>
        sorted_wrt separated (merge_runs r rest) \<and>
        (\<forall>q \<in> set (merge_runs r rest). nonempty q \<and> fr_start r \<le> fr_start q) \<and>
        length (merge_runs r rest) \<le> Suc (length rest)"
      using 2(2-4) by simp
    moreover from this False have "\<forall>q \<in> set (merge_runs r rest). separated cur q"
      by (force simp: separated_def)
    ultimately show ?thesis using False 2(3,4) by auto
  qed
qed simp

lemma length_clear [simp]: "length (regions (clear fa)) = length (regions fa)"
  by (simp add: clear_def)

lemma clear_replicate: "regions (clear fa) = replicate (length (regions fa)) None"
  by (simp add: clear_def map_replicate_const)

lemma set_sort_live: "set (sort_live live) = set live"
  using sort_live_spec [of live] by (metis set_mset_mset)

lemma coalesce_spec:
  assumes "length (regions fa) = MAX_REGIONS"
  shows "regions_inv (coalesce fa) \<and> pool_frames (coalesce fa) = pool_frames fa"
proof (cases "sort_live (live_regions (regions fa))")
  case Nil
  then have "live_regions (regions fa) = []" by (metis set_empty set_sort_live)
  with Nil assms show ?thesis
    by (auto simp: coalesce_def regions_inv_def pool_frames_def clear_replicate)
next
  case (Cons cur rest)
  let ?live = "live_regions (regions fa)"
  let ?out = "merge_runs cur rest"
  have set_eq: "set (cur # rest) = set ?live" using Cons set_sort_live [of ?live] by simp
  have "sorted_wrt starts_le (cur # rest)" "\<forall>r \<in> set (cur # rest). nonempty r"
    using Cons sort_live_spec [of ?live] set_eq by (simp_all add: set_live_regions)
  note M = merge_runs_spec [OF this]
  have "length (cur # rest) \<le> MAX_REGIONS"
    using Cons sort_live_spec [of ?live] live_regions_length [of "regions fa"] assms
    by (metis size_mset)
  with M have len: "length ?out \<le> MAX_REGIONS" by simp
  have regs: "regions (coalesce fa) = map Some ?out @ replicate (MAX_REGIONS - length ?out) None"
    using Cons assms by (simp add: coalesce_def clear_replicate Let_def)
  have live: "live_regions (regions (coalesce fa)) = ?out"
    using M by (simp add: regs live_regions_map_Some)
  have "live_frames (cur # rest) = live_frames ?live" unfolding live_frames_def set_eq ..
  then have "pool_frames (coalesce fa) = pool_frames fa"
    using M by (simp add: pool_frames_def live)
  moreover have "regions_inv (coalesce fa)"
    using M len by (auto simp: regions_inv_def live) (auto simp: regs)
  ultimately show ?thesis by simp
qed

section \<open>Allocation takes the lowest frame\<close>

lemma alloc_scan_spec:
  assumes "alloc_scan i rs (bi, bs) = (bi', bs')"
  shows "bs' \<le> bs \<and> (\<forall>r \<in> set (live_regions rs). bs' \<le> fr_start r) \<and>
    ((bi', bs') = (bi, bs) \<or>
     (\<exists>k r. k < length rs \<and> bi' = Some (i + k) \<and> rs ! k = Some r \<and> nonempty r \<and> fr_start r = bs'))"
  using assms
proof (induction rs arbitrary: i bi bs)
  case (Cons slot rs)
  show ?case
  proof (cases "\<exists>r. slot = Some r \<and> fr_start r < fr_end r \<and> fr_start r < bs")
    case True
    then obtain r where r: "slot = Some r" "fr_start r < fr_end r" "fr_start r < bs" by blast
    then have "alloc_scan (Suc i) rs (Some i, fr_start r) = (bi', bs')" using Cons.prems by simp
    from Cons.IH [OF this] r show ?thesis
      by (force simp: nonempty_def)
  next
    case False
    then have "alloc_scan (Suc i) rs (bi, bs) = (bi', bs')"
      using Cons.prems by (cases slot) auto
    from Cons.IH [OF this] False show ?thesis
      by (cases slot) (force simp: nonempty_def)+
  qed
qed simp

lemma live_regions_split:
  assumes "k < length rs"
  shows "live_regions (rs[k := slot]) =
    live_regions (take k rs) @ live_regions [slot] @ live_regions (drop (Suc k) rs)"
  using assms by (simp add: upd_conv_take_nth_drop flip: live_regions_simps(4))

lemma not_in_separated:
  assumes "sorted_wrt separated (xs @ r # ys)" "\<forall>q \<in> set (xs @ r # ys). nonempty q"
  shows "fr_start r \<notin> live_frames (xs @ ys)"
  using assms
  by (auto simp: live_frames_def region_set_def sorted_wrt_append separated_def nonempty_def)

definition shrink :: "FreeRegion \<Rightarrow> FreeRegion option" where
  "shrink r = (let r' = r\<lparr>fr_start := fr_start r + 1\<rparr> in if fr_end r' \<le> fr_start r' then None else Some r')"

lemma region_set_shrink:
  assumes "nonempty r"
  shows "live_frames (live_regions [shrink r]) = region_set r - {fr_start r}"
  using assms less_word_not_max [of "fr_start r" "fr_end r"]
  by (auto simp: shrink_def Let_def nonempty_def region_set_def Suc_word_le not_le)
    (metis less_Suc_word order_antisym order_less_le_trans)

lemma sorted_shrink:
  assumes "sorted_wrt separated (xs @ r # ys)" "nonempty r"
  shows "sorted_wrt separated (xs @ live_regions [shrink r] @ ys)"
proof -
  have "fr_start r \<le> fr_start r + 1"
    using assms(2) less_word_not_max Suc_word_le by (metis nonempty_def order_less_imp_le order_refl)
  then have "separated q (r\<lparr>fr_start := fr_start r + 1\<rparr>)" if "separated q r" for q
    using that by (auto simp: separated_def)
  moreover have "separated (r\<lparr>fr_start := fr_start r + 1\<rparr>) q" if "separated r q" for q
    using that by (auto simp: separated_def)
  ultimately show ?thesis
    using assms(1) by (auto simp: shrink_def Let_def sorted_wrt_append)
qed

lemma region_alloc_spec:
  assumes "regions_inv fa"
  shows "case region_alloc fa of
      (None, fa') \<Rightarrow> fa' = fa \<and> pool_frames fa = {}
    | (Some f, fa') \<Rightarrow> regions_inv fa' \<and> f \<in> pool_frames fa \<and> f = Min (pool_frames fa) \<and>
        pool_frames fa' = pool_frames fa - {f} \<and> can_free fa' f"
proof -
  obtain bi bs where scan: "alloc_scan 0 (regions fa) (None, - 1) = (bi, bs)" by fastforce
  note S = alloc_scan_spec [OF scan]
  show ?thesis
  proof (cases bi)
    case None
    have "r \<notin> set (live_regions (regions fa))" for r
    proof
      assume "r \<in> set (live_regions (regions fa))"
      with S None have "(- 1 :: u64) \<le> fr_start r" "fr_start r < fr_end r"
        by (auto simp: set_live_regions nonempty_def)
      then show False using less_word_not_max [of "fr_start r"] word_n1_ge [of "fr_start r"]
        by (meson order_antisym)
    qed
    then have "live_regions (regions fa) = []" by (meson set_empty subset_empty subsetI)
    with None scan show ?thesis by (simp add: region_alloc_def pool_frames_def)
  next
    case (Some i)
    with S obtain r where r: "i < length (regions fa)" "regions fa ! i = Some r" "nonempty r"
        "fr_start r = bs" by auto
    let ?fa' = "fa\<lparr>regions := (regions fa)[i := shrink r]\<rparr>"
    have res: "region_alloc fa = (Some (fr_start r), ?fa')"
      using scan Some r by (simp add: region_alloc_def shrink_def Let_def)
    let ?xs = "live_regions (take i (regions fa))" and ?ys = "live_regions (drop (Suc i) (regions fa))"
    have old: "live_regions (regions fa) = ?xs @ r # ?ys"
      using live_regions_split [OF r(1), of "Some r"] r by (metis append_Cons append_Nil list_update_id
          live_regions_simps(1,3))
    have new: "live_regions (regions ?fa') = ?xs @ live_regions [shrink r] @ ?ys"
      using live_regions_split [OF r(1)] by simp
    have sep: "sorted_wrt separated (?xs @ r # ?ys)" "\<forall>q \<in> set (?xs @ r # ?ys). nonempty q"
      using assms set_live_regions [of "regions fa"] unfolding old regions_inv_def by auto
    have "pool_frames ?fa' = pool_frames fa - {fr_start r}"
      using not_in_separated [OF sep] region_set_shrink [OF r(3)]
      unfolding pool_frames_def old new by auto
    moreover have "regions_inv ?fa'"
      using assms sorted_shrink [OF sep(1) r(3)] unfolding regions_inv_def new
      by (auto dest!: set_update_subset_insert [THEN subsetD] simp: shrink_def Let_def nonempty_def
          split: if_splits)
    moreover have "fr_start r \<in> pool_frames fa"
      using r(3) by (simp add: pool_frames_def old region_set_def nonempty_def)
    moreover have "fr_start r = Min (pool_frames fa)"
      using S r(4) \<open>fr_start r \<in> pool_frames fa\<close>
      by (intro Min_eqI [symmetric])
        (auto simp: pool_frames_def live_frames_def region_set_def intro: order_trans)
    moreover have "can_free ?fa' (fr_start r)"
    proof -
      have "shrink r \<in> set (regions ?fa')" using r(1) by (simp add: set_update_memI)
      then show ?thesis
        using r(3) less_word_not_max [of "fr_start r" "fr_end r"]
        by (auto simp: can_free_def shrink_def Let_def nonempty_def split: if_splits)
    qed
    ultimately show ?thesis using res by simp
  qed
qed

section \<open>Freeing inserts one frame\<close>

lemma region_set_extend:
  assumes "nonempty r" "f \<noteq> - 1"
  shows "fr_end r = f \<Longrightarrow> nonempty (r\<lparr>fr_end := f + 1\<rparr>) \<and>
      region_set (r\<lparr>fr_end := f + 1\<rparr>) = insert f (region_set r)"
    and "fr_start r = f + 1 \<Longrightarrow> nonempty (r\<lparr>fr_start := f\<rparr>) \<and>
      region_set (r\<lparr>fr_start := f\<rparr>) = insert f (region_set r)"
proof -
  have f: "f < f + 1" using assms(2) by (simp add: less_Suc_word)
  show "nonempty (r\<lparr>fr_end := f + 1\<rparr>) \<and> region_set (r\<lparr>fr_end := f + 1\<rparr>) = insert f (region_set r)"
    if "fr_end r = f"
    using that assms interval_Suc_word(1) [OF assms(2), of "fr_start r"]
    by (simp add: nonempty_def region_set_def less_Suc_word)
  show "nonempty (r\<lparr>fr_start := f\<rparr>) \<and> region_set (r\<lparr>fr_start := f\<rparr>) = insert f (region_set r)"
    if "fr_start r = f + 1"
    using that assms(1) order.strict_trans [OF f, of "fr_end r"] interval_Suc_word(2) [OF assms(2), of "fr_end r"]
    by (simp add: nonempty_def region_set_def)
qed

lemma free_extend_spec:
  assumes "free_extend f rs = (ex, rs')" "f \<noteq> - 1" "\<forall>r. Some r \<in> set rs \<longrightarrow> nonempty r"
  shows "length rs' = length rs \<and>
    live_frames (live_regions rs') = (if ex then {f} else {}) \<union> live_frames (live_regions rs) \<and>
    (\<not> ex \<longrightarrow> rs' = rs) \<and>
    (ex \<longleftrightarrow> (\<exists>r. Some r \<in> set rs \<and> (fr_end r = f \<or> fr_start r = f + 1)))"
  using assms
proof (induction f rs arbitrary: ex rs' rule: free_extend.induct)
  case (2 f rest)
  then obtain rest' where "free_extend f rest = (ex, rest')" "rs' = None # rest'"
    by (auto split: prod.splits)
  with 2(1) [OF this(1) 2(3)] 2(4) show ?case by simp
next
  case (3 f r rest)
  then have ne: "nonempty r" by simp
  show ?case
  proof (cases "fr_end r = f \<or> fr_start r = f + 1")
    case True
    obtain r' where r': "ex" "rs' = Some r' # rest" "nonempty r'" "region_set r' = insert f (region_set r)"
    proof (cases "fr_end r = f")
      case True
      with 3(2) region_set_extend(1) [OF ne 3(3) True] that show ?thesis by force
    next
      case False
      with \<open>fr_end r = f \<or> fr_start r = f + 1\<close> have "fr_start r = f + 1" by simp
      with False 3(2) region_set_extend(2) [OF ne 3(3) this] that show ?thesis by force
    qed
    with ne True show ?thesis by (simp, blast)
  next
    case False
    then obtain rest' where "free_extend f rest = (ex, rest')" "rs' = Some r # rest'"
      using 3(2) by (auto split: prod.splits)
    with 3(1) [OF _ _ this(1) 3(3)] 3(4) False ne show ?thesis by auto
  qed
qed simp

lemma region_free_spec:
  assumes "regions_inv fa" "f \<noteq> - 1"
  shows "regions_inv (region_free f fa) \<and>
    pool_frames (region_free f fa) = (if can_free fa f then insert f (pool_frames fa) else pool_frames fa)"
proof -
  obtain ex rs where ext: "free_extend f (regions fa) = (ex, rs)" by fastforce
  have E: "length rs = MAX_REGIONS"
      "live_frames (live_regions rs) = (if ex then {f} else {}) \<union> pool_frames fa"
      "ex \<longleftrightarrow> (\<exists>r. Some r \<in> set (regions fa) \<and> (fr_end r = f \<or> fr_start r = f + 1))"
      "\<not> ex \<longrightarrow> rs = regions fa"
    using free_extend_spec [OF ext assms(2)] assms(1) by (simp_all add: regions_inv_def pool_frames_def)
  show ?thesis
  proof (cases "ex \<or> None \<notin> set rs")
    case True
    then have "ex \<or> position (\<lambda>slot. slot = None) rs = None" by (simp add: position_is_None)
    then have eq: "region_free f fa = coalesce (fa\<lparr>regions := rs\<rparr>)"
      using ext by (auto simp: region_free_def)
    have "can_free fa f \<longleftrightarrow> ex" unfolding can_free_def using True E(3,4) assms(2) by metis
    then have "pool_frames (fa\<lparr>regions := rs\<rparr>) =
        (if can_free fa f then insert f (pool_frames fa) else pool_frames fa)"
      using E(2) by (simp add: pool_frames_def)
    then show ?thesis using coalesce_spec [of "fa\<lparr>regions := rs\<rparr>"] E(1) eq by simp
  next
    case False
    then obtain i where i: "position (\<lambda>slot. slot = None) rs = Some i"
      using position_is_None [of rs] by (cases "position (\<lambda>slot. slot = None) rs") simp_all
    note P = position_SomeD [OF i]
    let ?r = "\<lparr>fr_start = f, fr_end = f + 1\<rparr>"
    have "nonempty ?r" "region_set ?r = {f}"
      using assms(2) by (auto simp: nonempty_def region_set_def less_Suc_word)
    moreover have "live_regions rs = live_regions (take i rs) @ live_regions (drop (Suc i) rs)"
      using live_regions_split [of i rs None] P by (metis append_Nil list_update_id live_regions_simps(1,2))
    ultimately have "live_frames (live_regions (rs[i := Some ?r])) = insert f (live_frames (live_regions rs))"
      using live_regions_split [of i rs "Some ?r"] P by simp
    moreover have "region_free f fa = coalesce (fa\<lparr>regions := rs[i := Some ?r]\<rparr>)"
      using ext False i by (simp add: region_free_def)
    moreover have "can_free fa f" using False E(4) assms(2) by (simp add: can_free_def)
    moreover have "rs = regions fa" using False E(4) by simp
    ultimately show ?thesis
      using coalesce_spec [of "fa\<lparr>regions := rs[i := Some ?r]\<rparr>"] E(1)
      by (simp add: pool_frames_def)
  qed
qed

interpretation rl: frame_pool region_alloc region_free pool_frames regions_inv can_free
proof
  fix fa fa' f
  assume inv: "regions_inv fa"
  show "finite (pool_frames fa)" by simp
  show "pool_frames fa = {} \<and> fa' = fa" if "region_alloc fa = (None, fa')"
    using region_alloc_spec [OF inv] that by simp
  show "pool_frames fa \<noteq> {} \<and> f = Min (pool_frames fa) \<and> pool_frames fa' = pool_frames fa - {f} \<and>
      regions_inv fa'" if "region_alloc fa = (Some f, fa')"
    using region_alloc_spec [OF inv] that by auto
  show "pool_frames (region_free f fa) = insert f (pool_frames fa)" "regions_inv (region_free f fa)"
    if "can_free fa f"
  proof -
    have "f \<noteq> - 1" using that by (simp add: can_free_def)
    from region_free_spec [OF inv this] that
    show "pool_frames (region_free f fa) = insert f (pool_frames fa)" "regions_inv (region_free f fa)"
      by simp_all
  qed
qed

section \<open>Counting\<close>

lemma region_len_card: "region_len r = of_nat (card (region_set r))"
  by (simp add: region_len_def region_set_def card_word_interval flip: unat_saturating_sub)

lemma count_regions:
  "foldl (\<lambda>sum slot. case slot of Some r \<Rightarrow> sum + region_len r | None \<Rightarrow> sum) n rs =
     n + of_nat (\<Sum>r \<leftarrow> live_regions rs. card (region_set r))"
proof (induction rs arbitrary: n)
  case (Cons slot rs)
  then show ?case by (cases slot) (simp_all add: region_len_card region_set_empty)
qed simp

lemma card_separated:
  "sorted_wrt separated rs \<Longrightarrow> \<forall>r \<in> set rs. nonempty r \<Longrightarrow>
     card (live_frames rs) = (\<Sum>r \<leftarrow> rs. card (region_set r))"
proof (induction rs)
  case (Cons r rs)
  have "x \<notin> live_frames rs" if "x \<in> region_set r" for x
  proof
    assume "x \<in> live_frames rs"
    then obtain q where q: "q \<in> set rs" "fr_start q \<le> x" by (auto simp: live_frames_def region_set_def)
    moreover have "fr_end r < fr_start q" using Cons.prems(1) q(1) by (simp add: separated_def)
    ultimately show False using that by (auto simp: region_set_def)
  qed
  then have "region_set r \<inter> live_frames rs = {}" by blast
  with Cons show ?case by (simp add: card_Un_disjoint)
qed simp

lemma card_pool: "card (pool_frames fa) < 2 ^ 64"
proof -
  have "pool_frames fa \<subseteq> UNIV - {- 1}"
    using less_word_not_max by (auto simp: pool_frames_def live_frames_def region_set_def)
  then have "card (pool_frames fa) \<le> card (UNIV - {- 1 :: u64})" by (intro card_mono) simp_all
  also have "\<dots> < 2 ^ 64" by (simp add: card_Diff_singleton card_word)
  finally show ?thesis .
qed

lemma region_free_count_eq: "regions_inv fa \<Longrightarrow> unat (region_free_count fa) = card (pool_frames fa)"
proof -
  assume "regions_inv fa"
  then have "card (pool_frames fa) = (\<Sum>r \<leftarrow> live_regions (regions fa). card (region_set r))"
    unfolding pool_frames_def regions_inv_def by (intro card_separated) (simp_all add: set_live_regions)
  then have "region_free_count fa = of_nat (card (pool_frames fa))"
    by (simp add: region_free_count_def count_regions)
  then show ?thesis using card_pool [of fa] by (simp add: unat_of_nat)
qed

section \<open>The boot-time memory map\<close>

text \<open>The frames that lie wholly inside a usable entry and above the first MiB, as numbers.\<close>

definition usable_frames :: "u64 \<Rightarrow> MemmapEntry \<Rightarrow> nat set" where
  "usable_frames MEMMAP_USABLE e =
    {f. entry_type e = MEMMAP_USABLE \<and> 0x100 \<le> f \<and>
        unat (base e) \<le> f * 0x1000 \<and> (f + 1) * 0x1000 \<le> unat (base e) + unat (length_bytes e)}"

definition entry_fits :: "MemmapEntry \<Rightarrow> bool" where
  "entry_fits e \<longleftrightarrow> unat (base e) + unat (length_bytes e) + 0xfff < 2 ^ 64"

definition entry_frames :: "u64 \<Rightarrow> MemmapEntry \<Rightarrow> u64 set" where
  "entry_frames MEMMAP_USABLE e =
    (if entry_type e \<noteq> MEMMAP_USABLE then {}
     else {max ((base e + 0xfff) div 0x1000) 0x100 ..< (base e + length_bytes e) div 0x1000})"

lemma entry_frames_usable:
  assumes "entry_fits e"
  shows "unat ` entry_frames U e = usable_frames U e"
proof (cases "entry_type e = U")
  case True
  let ?first = "max ((base e + 0xfff) div 0x1000) 0x100" and ?last = "(base e + length_bytes e) div 0x1000"
  have first: "unat ?first = max ((unat (base e) + 0xfff) div 0x1000) 0x100"
    using assms by (simp add: entry_fits_def max_def word_le_nat_alt unat_div unat_word_ariths)
  have last: "unat ?last = (unat (base e) + unat (length_bytes e)) div 0x1000"
    using assms by (simp add: entry_fits_def unat_div unat_word_ariths)
  have "unat ` {?first..<?last} = {unat ?first..<unat ?last}" by (rule unat_image_interval)
  also have "\<dots> = usable_frames U e"
    unfolding first last using True by (auto simp: usable_frames_def)
  finally show ?thesis using True by (simp add: entry_frames_def)
qed (simp add: entry_frames_def usable_frames_def)

definition free_slots :: "FrameAllocator \<Rightarrow> nat" where
  "free_slots fa = length (filter (\<lambda>slot. slot = None) (regions fa))"

lemma add_entry_spec:
  "\<exists>S. pool_frames (add_entry U e fa) = pool_frames fa \<union> S \<and> S \<subseteq> entry_frames U e \<and>
     length (regions (add_entry U e fa)) = length (regions fa) \<and>
     (0 < free_slots fa \<longrightarrow> S = entry_frames U e) \<and>
     free_slots fa \<le> free_slots (add_entry U e fa) + (if entry_type e = U then 1 else 0)"
proof -
  let ?first = "max ((base e + 0xfff) div 0x1000) 0x100" and ?last = "(base e + length_bytes e) div 0x1000"
  let ?r = "\<lparr>fr_start = ?first, fr_end = ?last\<rparr>"
  show ?thesis
  proof (cases "entry_type e = U \<and> ?first < ?last \<and> None \<in> set (regions fa)")
    case False
    then have "add_entry U e fa = fa"
      by (auto simp: add_entry_def add_region_def Let_def split: option.splits)
        (metis option.distinct(1) position_is_None)
    moreover have "0 < free_slots fa \<longrightarrow> entry_frames U e = {}"
      using False by (auto simp: free_slots_def entry_frames_def filter_empty_conv)
    ultimately show ?thesis by auto
  next
    case True
    then obtain i where i: "position (\<lambda>slot. slot = None) (regions fa) = Some i"
      using position_is_None [of "regions fa"]
      by (cases "position (\<lambda>slot. slot = None) (regions fa)") simp_all
    note P = position_SomeD [OF i]
    have add: "add_entry U e fa = fa\<lparr>regions := (regions fa)[i := Some ?r]\<rparr>"
      using True i by (auto simp: add_entry_def add_region_def Let_def le_max_iff_disj)
    have split: "regions fa = take i (regions fa) @ None # drop (Suc i) (regions fa)"
      using P by (metis id_take_nth_drop)
    have "pool_frames (add_entry U e fa) = pool_frames fa \<union> entry_frames U e"
      using True live_regions_split [of i "regions fa" "Some ?r"] P
      unfolding pool_frames_def add
      by (subst (2) split) (auto simp: nonempty_def region_set_def entry_frames_def)
    moreover have "free_slots fa \<le> Suc (free_slots (add_entry U e fa))"
      using P unfolding free_slots_def add
      by (subst split) (simp add: upd_conv_take_nth_drop)
    ultimately show ?thesis using True add by auto
  qed
qed

lemma add_entries_spec:
  assumes "foldl (\<lambda>fa e. add_entry U e fa) fa es = fa'"
  shows "length (regions fa') = length (regions fa) \<and>
    pool_frames fa' \<subseteq> pool_frames fa \<union> (\<Union>e \<in> set es. entry_frames U e) \<and>
    (length (filter (\<lambda>e. entry_type e = U) es) \<le> free_slots fa \<longrightarrow>
      pool_frames fa' = pool_frames fa \<union> (\<Union>e \<in> set es. entry_frames U e))"
  using assms
proof (induction es arbitrary: fa)
  case (Cons e es)
  let ?fa = "add_entry U e fa"
  obtain S where S: "pool_frames ?fa = pool_frames fa \<union> S" "S \<subseteq> entry_frames U e"
      "length (regions ?fa) = length (regions fa)" "0 < free_slots fa \<longrightarrow> S = entry_frames U e"
      "free_slots fa \<le> free_slots ?fa + (if entry_type e = U then 1 else 0)"
    using add_entry_spec [of U e fa] by (elim exE conjE) (rule that)
  have IH: "length (regions fa') = length (regions ?fa)"
      "pool_frames fa' \<subseteq> pool_frames ?fa \<union> (\<Union>e \<in> set es. entry_frames U e)"
      "length (filter (\<lambda>e. entry_type e = U) es) \<le> free_slots ?fa \<Longrightarrow>
        pool_frames fa' = pool_frames ?fa \<union> (\<Union>e \<in> set es. entry_frames U e)"
    using Cons.IH [of ?fa] Cons.prems by simp_all
  have "pool_frames fa' = pool_frames fa \<union> (\<Union>e \<in> set (e # es). entry_frames U e)"
    if "length (filter (\<lambda>e. entry_type e = U) (e # es)) \<le> free_slots fa"
  proof -
    have "S = entry_frames U e"
      using that S(2,4) by (cases "entry_type e = U") (auto simp: entry_frames_def)
    moreover have "length (filter (\<lambda>e. entry_type e = U) es) \<le> free_slots ?fa"
      using that S(5) by (auto split: if_splits)
    ultimately show ?thesis using IH(3) S(1) by auto
  qed
  with IH(1,2) S(1-3) show ?case by (intro conjI impI) auto
qed auto

lemma init_spec:
  assumes "length (regions (FRAME_ALLOCATOR m)) = MAX_REGIONS"
  shows "regions_inv (FRAME_ALLOCATOR (init U off es m)) \<and>
    pool_frames (FRAME_ALLOCATOR (init U off es m)) \<subseteq> (\<Union>e \<in> set es. entry_frames U e) \<and>
    (length (filter (\<lambda>e. entry_type e = U) es) \<le> MAX_REGIONS \<longrightarrow>
      pool_frames (FRAME_ALLOCATOR (init U off es m)) = (\<Union>e \<in> set es. entry_frames U e))"
proof -
  let ?fa = "clear (FRAME_ALLOCATOR m)"
  have "pool_frames ?fa = {}" "free_slots ?fa = MAX_REGIONS"
    using assms by (simp_all add: pool_frames_def free_slots_def clear_replicate filter_replicate)
  then show ?thesis
    using add_entries_spec [OF refl, of U ?fa es] assms
      coalesce_spec [of "foldl (\<lambda>fa e. add_entry U e fa) ?fa es"]
    by (simp add: init_def)
qed

section \<open>A concrete pool\<close>

definition demo_allocator :: FrameAllocator where
  "demo_allocator = \<lparr>regions = Some \<lparr>fr_start = 256, fr_end = 259\<rparr> # replicate 63 None\<rparr>"

definition demo_memory :: Memory where
  "demo_memory = \<lparr>FRAME_ALLOCATOR = demo_allocator, HHDM_OFFSET = 0\<rparr>"

definition demo_memmap :: "MemmapEntry list" where
  "demo_memmap =
    [\<lparr>base = 0, length_bytes = 0x9fc00, entry_type = 0\<rparr>,
     \<lparr>base = 0xff800, length_bytes = 0x2fff, entry_type = 0\<rparr>,
     \<lparr>base = 0x200000, length_bytes = 0x10000, entry_type = 1\<rparr>]"

lemma demo_inv: "regions_inv (FRAME_ALLOCATOR demo_memory)"
  by (auto simp: regions_inv_def demo_memory_def demo_allocator_def const_defs nonempty_def)

lemma demo_pool: "pool_frames (FRAME_ALLOCATOR demo_memory) = {256..<259}"
  by (simp add: pool_frames_def demo_memory_def demo_allocator_def region_set_def nonempty_def)

lemma demo_alloc: "fst (allocate_frame demo_memory) = Some 256"
proof -
  obtain r fa where r: "region_alloc (FRAME_ALLOCATOR demo_memory) = (r, fa)" by fastforce
  have "Min {256..<259 :: u64} = 256" by (rule Min_eqI) auto
  then have "r = Some 256"
    using region_alloc_spec [OF demo_inv] demo_pool r by (cases r) auto
  with r show ?thesis by (simp add: allocate_frame_def)
qed

section \<open>Properties\<close>

text \<open>
  C9: the kernel's region array implements a set of free frames with the contract of the
  verified bitmap. On an array of non-empty, sorted, separated regions, \<open>allocate_frame\<close> fails
  exactly when no frame is free and otherwise takes the lowest free frame and only that one;
  \<open>deallocate_frame\<close> adds the frame when a neighbouring region or a free slot can hold it and is
  dropped otherwise; the count is exact and never wraps; both keep the array well formed, and
  a frame just allocated can always be given back, which restores the set.
\<close>
theorem region_array_refines_set:
  assumes "regions_inv (FRAME_ALLOCATOR m)" "f \<noteq> - 1"
  shows "fst (allocate_frame m) =
      (if pool_frames (FRAME_ALLOCATOR m) = {} then None else Some (Min (pool_frames (FRAME_ALLOCATOR m)))) \<and>
    pool_frames (FRAME_ALLOCATOR (snd (allocate_frame m))) =
      pool_frames (FRAME_ALLOCATOR m) - set_option (fst (allocate_frame m)) \<and>
    pool_frames (FRAME_ALLOCATOR (deallocate_frame f m)) =
      pool_frames (FRAME_ALLOCATOR m) \<union> (if can_free (FRAME_ALLOCATOR m) f then {f} else {}) \<and>
    unat (free_frame_count m) = card (pool_frames (FRAME_ALLOCATOR m)) \<and>
    regions_inv (FRAME_ALLOCATOR (snd (allocate_frame m))) \<and>
    regions_inv (FRAME_ALLOCATOR (deallocate_frame f m)) \<and>
    (\<forall>g m'. allocate_frame m = (Some g, m') \<longrightarrow>
       pool_frames (FRAME_ALLOCATOR (deallocate_frame g m')) = pool_frames (FRAME_ALLOCATOR m))"
proof -
  let ?fa = "FRAME_ALLOCATOR m"
  obtain r fa' where al: "region_alloc ?fa = (r, fa')" by fastforce
  have am: "allocate_frame m = (r, m\<lparr>FRAME_ALLOCATOR := fa'\<rparr>)" by (simp add: allocate_frame_def al)
  note A = region_alloc_spec [OF assms(1), unfolded al]
  have giveback: "pool_frames (region_free g fa') = pool_frames ?fa" if "r = Some g" for g
    using rl.alloc_free_roundtrip [OF assms(1)] A al that by auto
  have "r = (if pool_frames ?fa = {} then None else Some (Min (pool_frames ?fa)))"
    "pool_frames fa' = pool_frames ?fa - set_option r" "regions_inv fa'"
    using A assms(1) by (cases r; auto)+
  with region_free_spec [OF assms] region_free_count_eq [OF assms(1)] giveback show ?thesis
    by (simp add: am deallocate_frame_def free_frame_count_def)
qed

theorem region_array_refines_set_witness:
  "fst (allocate_frame demo_memory) = Some 256 \<and>
   pool_frames (FRAME_ALLOCATOR (deallocate_frame 259 demo_memory)) = {256..<260} \<and>
   unat (free_frame_count demo_memory) = 3"
proof -
  note P = demo_pool
  have ins: "insert 259 {256..<259} = {256..<260 :: u64}"
    using interval_Suc_word(1) [of "259 :: u64" 256] by simp
  have "Min {256..<259 :: u64} = 256" by (rule Min_eqI) auto
  moreover have "can_free (FRAME_ALLOCATOR demo_memory) 259"
    by (simp add: can_free_def demo_memory_def demo_allocator_def)
  ultimately show ?thesis
    using region_array_refines_set [OF demo_inv, of 259] P ins by (simp add: card_word_interval)
qed

text \<open>
  C31: the boot-time frame pool is exactly the usable memory. Every frame in the pool after
  \<open>init\<close> lies wholly inside one usable entry of the memory map and above the first MiB, so the
  byte ranges are rounded inward; if at most \<open>MAX_REGIONS\<close> entries are usable, every such frame is
  in the pool; and the array is well formed. Entries must not reach the end of the 64-bit address
  space.
\<close>
theorem init_pool_is_usable_memory:
  assumes "length (regions (FRAME_ALLOCATOR m)) = MAX_REGIONS" "\<forall>e \<in> set memmap. entry_fits e"
  shows "regions_inv (FRAME_ALLOCATOR (init U off memmap m)) \<and>
    unat ` pool_frames (FRAME_ALLOCATOR (init U off memmap m)) \<subseteq> (\<Union>e \<in> set memmap. usable_frames U e) \<and>
    (length (filter (\<lambda>e. entry_type e = U) memmap) \<le> MAX_REGIONS \<longrightarrow>
      unat ` pool_frames (FRAME_ALLOCATOR (init U off memmap m)) = (\<Union>e \<in> set memmap. usable_frames U e)) \<and>
    HHDM_OFFSET (init U off memmap m) = off"
proof -
  have "unat ` (\<Union>e \<in> set memmap. entry_frames U e) = (\<Union>e \<in> set memmap. usable_frames U e)"
    using assms(2) entry_frames_usable by (simp add: image_UN)
  moreover have "HHDM_OFFSET (init U off memmap m) = off" by (simp add: init_def)
  ultimately show ?thesis using init_spec [OF assms(1), of U off memmap] by (metis image_mono)
qed

theorem init_pool_is_usable_memory_witness:
  "unat ` pool_frames (FRAME_ALLOCATOR (init 0 0xffff800000000000 demo_memmap demo_memory)) = {256, 257}"
proof -
  have "\<forall>e \<in> set demo_memmap. entry_fits e" by (simp add: demo_memmap_def entry_fits_def)
  moreover have "(\<Union>e \<in> set demo_memmap. usable_frames 0 e) = {256, 257}"
    by (auto simp: demo_memmap_def usable_frames_def)
  moreover have "length (regions (FRAME_ALLOCATOR demo_memory)) = MAX_REGIONS"
    using demo_inv by (simp add: regions_inv_def)
  ultimately show ?thesis
    using init_pool_is_usable_memory [where m = demo_memory and memmap = demo_memmap and U = 0
        and off = "0xffff800000000000"]
    by (simp add: demo_memmap_def const_defs)
qed


definition demo_bitmap :: BitmapFrameAllocator where
  "demo_bitmap = mark_free 1024 258 (mark_free 1024 257 (mark_free 1024 256 (BitmapFrameAllocator_new 1024)))"


end
