(* ===== verification/Paging.thy ===== *)
theory Paging
  imports Machine FrameRanges
begin

text \<open>
  The kernel's paging helpers, \<^verbatim>\<open>kernel/src/paging.rs\<close>, over the four-level page tables in
  physical memory. The state of an operation is the pair of physical memory and the frame
  allocator. \<open>cr3\<close> is the address of the active top-level table; \<open>hhdm\<close> the offset of the direct
  map, through which the kernel reads and writes table entries. The TLB is not modelled.

  \<^verbatim>\<open>unmap_page\<close>, \<^verbatim>\<open>manual_map\<close> and \<^verbatim>\<open>dump_walk\<close> are written out in the repository and are
  modelled entry by entry. The other helpers call the \<^verbatim>\<open>Mapper\<close> of the \<^verbatim>\<open>x86_64\<close> crate, which is
  the parameter \<open>mapper\<close>; what the kernel relies on is the locale \<open>page_mapper\<close>.
\<close>

type_synonym vm = "mem \<times> Memory"

section \<open>Page-table flags\<close>

definition PRESENT :: u64 where [const_defs]: "PRESENT = 1"
definition WRITABLE :: u64 where [const_defs]: "WRITABLE = 2"
definition USER_ACCESSIBLE :: u64 where [const_defs]: "USER_ACCESSIBLE = 4"
definition NO_CACHE :: u64 where [const_defs]: "NO_CACHE = 16"
definition NO_EXECUTE :: u64 where [const_defs]: "NO_EXECUTE = 0x8000000000000000"

definition page_base :: "u64 \<Rightarrow> u64" where
  "page_base va = va AND NOT 0xfff"

section \<open>Walking the tables\<close>

definition pt_index :: "u64 \<Rightarrow> nat \<Rightarrow> u64" where
  "pt_index va shift = drop_bit shift va AND 0x1ff"

definition entry_addr :: "u64 \<Rightarrow> u64 \<Rightarrow> u64 \<Rightarrow> nat \<Rightarrow> u64" where
  "entry_addr hhdm table va shift = phys_of hhdm (hhdm + table + 8 * pt_index va shift)"

definition PTE_ADDR :: u64 where [const_defs]: "PTE_ADDR = 0x000ffffffffff000"

definition TABLE_SHIFTS :: "nat list" where "TABLE_SHIFTS = [39, 30, 21]"

text \<open>
  The loop over the levels shared by \<^verbatim>\<open>manual_map\<close> and \<^verbatim>\<open>unmap_page\<close>: each level must be a
  present table that is not a huge page; the result is the address of the last table.
\<close>

fun walk :: "u64 \<Rightarrow> mem \<Rightarrow> u64 \<Rightarrow> nat list \<Rightarrow> u64 \<Rightarrow> u64 option" where
  "walk hhdm m va [] table_phys = Some table_phys"
| "walk hhdm m va (shift # shifts) table_phys =
    (let e = load64 m (entry_addr hhdm table_phys va shift)
     in if e AND 1 = 0 \<or> drop_bit 7 e AND 1 = 1 then None
        else walk hhdm m va shifts (e AND PTE_ADDR))"

definition manual_map :: "u64 \<Rightarrow> u64 \<Rightarrow> u64 \<Rightarrow> vm \<Rightarrow> bool \<times> vm" where
  "manual_map cr3 hhdm addr s =
    (let (m, mm) = s; va = page_base addr
     in case walk hhdm m va TABLE_SHIFTS cr3 of
         None \<Rightarrow> (False, s)
       | Some table_phys \<Rightarrow>
           let l1 = entry_addr hhdm table_phys va 12;
               existing = load64 m l1
           in if existing AND 1 = 1 then (True, s)
              else (case allocate_frame mm of
                  (None, mm') \<Rightarrow> (False, (m, mm'))
                | (Some f, mm') \<Rightarrow>
                    let frame = f * 4096
                    in (True, (zero_mem frame 4096 (store64 l1 (frame OR 3) m), mm'))))"

definition unmap_page :: "u64 \<Rightarrow> u64 \<Rightarrow> u64 \<Rightarrow> mem \<Rightarrow> bool \<times> mem" where
  "unmap_page cr3 hhdm addr m =
    (let va = page_base addr
     in case walk hhdm m va TABLE_SHIFTS cr3 of
         None \<Rightarrow> (False, m)
       | Some table_phys \<Rightarrow> (True, store64 (entry_addr hhdm table_phys va 12) 0 m))"

text \<open>The lines \<^verbatim>\<open>dump_walk\<close> prints, and its last line.\<close>

datatype walk_line = WalkLine nat u64 u64 u64 u64 u64
datatype walk_end = NotPresentAt nat | HugeAt nat | Mapped4KiB

fun dump_levels :: "u64 \<Rightarrow> mem \<Rightarrow> u64 \<Rightarrow> (nat \<times> nat) list \<Rightarrow> u64 \<Rightarrow> walk_line list \<times> walk_end" where
  "dump_levels hhdm m va [] table = ([], Mapped4KiB)"
| "dump_levels hhdm m va ((lvl, shift) # rest) table =
    (let idx = pt_index va shift;
         e = load64 m (entry_addr hhdm table va shift);
         present = e AND 1;
         huge = drop_bit 7 e AND 1;
         phys = e AND PTE_ADDR;
         line = WalkLine lvl idx e present huge phys
     in if present = 0 then ([line], NotPresentAt lvl)
        else if huge = 1 then ([line], HugeAt lvl)
        else let (lines, w) = dump_levels hhdm m va rest phys in (line # lines, w))"

definition dump_walk :: "u64 \<Rightarrow> u64 \<Rightarrow> u64 \<Rightarrow> mem \<Rightarrow> walk_line list \<times> walk_end" where
  "dump_walk cr3 hhdm va m = dump_levels hhdm m va [(4, 39), (3, 30), (2, 21), (1, 12)] cr3"

section \<open>Mapping through the crate's mapper\<close>

record OffsetPageTable =
  l4_virt :: u64
  phys_offset :: u64

definition active_mapper :: "u64 \<Rightarrow> u64 \<Rightarrow> OffsetPageTable" where
  "active_mapper cr3 hhdm = \<lparr>l4_virt = hhdm + cr3, phys_offset = hhdm\<rparr>"

text \<open>
  The mapper's operations: arguments are the page table, the page, the frame, the leaf flags and
  (for the second) the flags of the tables above; the frame allocator it is given is the
  kernel's, so it acts on the pair of memory and allocator.
\<close>

record mapper =
  map_to :: "OffsetPageTable \<Rightarrow> u64 \<Rightarrow> u64 \<Rightarrow> u64 \<Rightarrow> vm \<Rightarrow> bool \<times> vm"
  map_to_with_table_flags :: "OffsetPageTable \<Rightarrow> u64 \<Rightarrow> u64 \<Rightarrow> u64 \<Rightarrow> u64 \<Rightarrow> vm \<Rightarrow> bool \<times> vm"
  translate_page :: "OffsetPageTable \<Rightarrow> u64 \<Rightarrow> mem \<Rightarrow> u64 option"

text \<open>The adapter \<^verbatim>\<open>KernelFrames\<close>: the allocator the mapper draws page-table frames from.\<close>

definition KernelFrames_allocate_frame :: "Memory \<Rightarrow> u64 option \<times> Memory" where
  "KernelFrames_allocate_frame mm =
    (let (r, mm') = allocate_frame mm in (map_option (\<lambda>f. page_base (f * 4096)) r, mm'))"

definition mmio_flags :: u64 where
  "mmio_flags = PRESENT OR WRITABLE OR NO_CACHE OR NO_EXECUTE"

definition map_mmio :: "mapper \<Rightarrow> u64 \<Rightarrow> u64 \<Rightarrow> u64 \<Rightarrow> u64 \<Rightarrow> vm \<Rightarrow> bool \<times> vm" where
  "map_mmio P cr3 hhdm_offset virt phys s =
    map_to P (active_mapper cr3 hhdm_offset) (page_base virt) (page_base phys) mmio_flags s"

text \<open>
  The loop of \<^verbatim>\<open>map_mmio_range\<close>. It visits \<open>pa\<close>, \<open>pa + 0x1000\<close>, \<dots> until it has handled the last page;
  the first argument is the number of pages still to come after \<open>pa\<close>.
\<close>

fun mmio_pages :: "mapper \<Rightarrow> u64 \<Rightarrow> u64 \<Rightarrow> nat \<Rightarrow> u64 \<Rightarrow> vm \<Rightarrow> bool \<times> vm" where
  "mmio_pages P cr3 hhdm_offset n pa s =
    (let pt = active_mapper cr3 hhdm_offset;
         page = page_base (hhdm_offset + pa);
         (ok, s') =
           (if translate_page P pt page (fst s) = None
            then map_to P pt page (page_base pa) mmio_flags s else (True, s))
     in if \<not> ok then (False, s')
        else case n of 0 \<Rightarrow> (True, s') | Suc n' \<Rightarrow> mmio_pages P cr3 hhdm_offset n' (pa + 0x1000) s')"

definition map_mmio_range :: "mapper \<Rightarrow> u64 \<Rightarrow> u64 \<Rightarrow> u64 \<Rightarrow> u64 \<Rightarrow> vm \<Rightarrow> u64 option \<times> vm" where
  "map_mmio_range P cr3 hhdm_offset phys len s =
    (if len = 0 then (Some (hhdm_offset + phys), s)
     else let first = page_base phys;
              last = page_base (phys + len - 1);
              (ok, s') = mmio_pages P cr3 hhdm_offset (unat (last - first) div 0x1000) first s
          in (if ok then Some (hhdm_offset + phys) else None, s'))"

definition map_one_page :: "mapper \<Rightarrow> u64 \<Rightarrow> u64 \<Rightarrow> u64 \<Rightarrow> vm \<Rightarrow> bool \<times> vm" where
  "map_one_page P cr3 hhdm_offset addr s =
    (let (m, mm) = s; page = page_base addr; pt = active_mapper cr3 hhdm_offset
     in if translate_page P pt page m \<noteq> None then (True, s)
        else case KernelFrames_allocate_frame mm of
            (None, mm') \<Rightarrow> (False, (m, mm'))
          | (Some frame, mm') \<Rightarrow>
              (case map_to P pt page frame (PRESENT OR WRITABLE) (m, mm') of
                 (True, (m', mm'')) \<Rightarrow> (True, (zero_mem frame 4096 m', mm''))
               | (False, s') \<Rightarrow> (False, s')))"

definition user_parent_flags :: u64 where
  "user_parent_flags = PRESENT OR WRITABLE OR USER_ACCESSIBLE"

definition user_leaf_flags :: "bool \<Rightarrow> bool \<Rightarrow> bool \<Rightarrow> u64" where
  "user_leaf_flags writable exec no_cache =
    (let leaf = PRESENT OR USER_ACCESSIBLE;
         leaf = (if writable then leaf OR WRITABLE else leaf);
         leaf = (if \<not> exec then leaf OR NO_EXECUTE else leaf)
     in if no_cache then leaf OR NO_CACHE else leaf)"

definition map_user_page :: "mapper \<Rightarrow> u64 \<Rightarrow> u64 \<Rightarrow> u64 \<Rightarrow> bool \<Rightarrow> bool \<Rightarrow> vm \<Rightarrow> u64 option \<times> vm" where
  "map_user_page P cr3 hhdm virt writable exec s =
    (let (m, mm) = s
     in case allocate_frame mm of
         (None, mm') \<Rightarrow> (None, (m, mm'))
       | (Some fnum, mm') \<Rightarrow>
           (case map_to_with_table_flags P (active_mapper cr3 hhdm) (page_base virt)
                (page_base (fnum * 4096)) (user_leaf_flags writable exec False) user_parent_flags (m, mm') of
              (True, (m', mm'')) \<Rightarrow> (Some fnum, (zero_mem (phys_of hhdm (hhdm + fnum * 4096)) 4096 m', mm''))
            | (False, s') \<Rightarrow> (None, s')))"

definition map_user_phys :: "mapper \<Rightarrow> u64 \<Rightarrow> u64 \<Rightarrow> u64 \<Rightarrow> u64 \<Rightarrow> bool \<Rightarrow> bool \<Rightarrow> bool \<Rightarrow> vm \<Rightarrow> bool \<times> vm" where
  "map_user_phys P cr3 hhdm virt phys writable exec no_cache s =
    map_to_with_table_flags P (active_mapper cr3 hhdm) (page_base virt) (page_base phys)
      (user_leaf_flags writable exec no_cache) user_parent_flags s"

declare mmio_pages.simps [simp del]

section \<open>Addresses of table entries\<close>

lemma phys_of_hhdm [simp]: "phys_of hhdm (hhdm + a) = a" "phys_of hhdm (hhdm + a + b) = a + b"
  by (simp_all add: phys_of_def)

lemma page_base_push: "page_base x = push_bit 12 (drop_bit 12 x)"
proof (rule bit_word_eqI)
  fix n assume "n < LENGTH(64)"
  have eq: "(0xfff :: u64) = mask 12" by (simp add: mask_eq_exp_minus_1)
  show "bit (page_base x) n = bit (push_bit 12 (drop_bit 12 x)) n"
    unfolding page_base_def eq using \<open>n < LENGTH(64)\<close> by (auto simp: bit_simps)
qed

lemma unat_page_base: "unat (page_base x) = unat x div 4096 * 4096"
proof -
  have "unat (page_base x) = take_bit 64 (push_bit 12 (unat x div 4096))"
    by (simp add: page_base_push unsigned_push_bit_eq unat_div drop_bit_eq_div)
  moreover have "push_bit 12 (unat x div 4096) = unat x div 4096 * 4096"
    by (simp add: push_bit_eq_mult)
  moreover have "unat x div 4096 * 4096 < 2 ^ 64"
    using unat_less_power [of x] div_times_less_eq_dividend [of "unat x" 4096] by simp
  ultimately show ?thesis by (simp add: take_bit_eq_mod)
qed

lemma page_base_aligned: "4096 dvd unat (page_base x)"
  by (simp add: unat_page_base)

lemma page_base_eq_iff: "page_base x = page_base y \<longleftrightarrow> unat x div 4096 = unat y div 4096"
  by (simp add: word_unat_eq_iff unat_page_base)

lemma page_base_idem [simp]: "page_base (page_base x) = page_base x"
  by (simp add: page_base_eq_iff unat_page_base)

lemma page_base_id: "4096 dvd unat p \<Longrightarrow> page_base p = p"
  by (simp add: word_unat_eq_iff unat_page_base)

lemma pte_addr_aligned: "4096 dvd unat (e AND PTE_ADDR)"
proof -
  have "take_bit 12 (e AND PTE_ADDR) = 0"
    by (simp add: take_bit_and PTE_ADDR_def)
  then have "take_bit 12 (unat (e AND PTE_ADDR)) = 0"
    by (metis unsigned_take_bit_eq unsigned_0)
  then show ?thesis by (simp add: take_bit_eq_mod mod_eq_0_iff_dvd)
qed

lemma pt_index_less: "unat (pt_index va shift) < 512"
proof -
  have "(0x1ff :: u64) = mask 9" by (simp add: mask_eq_exp_minus_1)
  then have "pt_index va shift = take_bit 9 (drop_bit shift va)"
    by (simp add: pt_index_def take_bit_eq_mask)
  then have "unat (pt_index va shift) = take_bit 9 (unat (drop_bit shift va))"
    by (simp add: unsigned_take_bit_eq)
  then show ?thesis using take_bit_nat_less_exp [of 9] by simp
qed

lemma pt_index_page_base: "12 \<le> shift \<Longrightarrow> pt_index (page_base va) shift = pt_index va shift"
  unfolding pt_index_def page_base_push
  by (rule bit_word_eqI) (auto simp: bit_simps dest: bit_imp_le_length)

lemma unat_entry_addr:
  assumes "4096 dvd unat t"
  shows "unat (entry_addr hhdm t va shift) = unat t + 8 * unat (pt_index va shift)"
proof -
  let ?i = "pt_index va shift"
  have "unat ?i < 512" by (rule pt_index_less)
  moreover obtain k where k: "unat t = 4096 * k" using assms by (elim dvdE)
  moreover have "unat t < 2 ^ 64" using unat_less_power [of t] by simp
  ultimately have "unat t + 8 * unat ?i < 2 ^ 64" by simp
  then show ?thesis by (simp add: entry_addr_def unat_word_ariths)
qed

lemma entry_addr_aligned: "4096 dvd unat t \<Longrightarrow> 8 dvd unat (entry_addr hhdm t va shift)"
  using dvd_trans [of 8 4096 "unat t"] by (simp add: unat_entry_addr)

lemma entry_addr_page: "4096 dvd unat t \<Longrightarrow> page_base (entry_addr hhdm t va shift) = t"
  using pt_index_less [of va shift]
  by (auto simp: word_unat_eq_iff unat_page_base unat_entry_addr elim!: dvdE)

lemma entry_addr_hhdm: "entry_addr hhdm t va shift = entry_addr 0 t va shift"
  by (simp add: entry_addr_def phys_of_def)

lemma load_store_aligned:
  assumes "8 dvd unat a" "8 dvd unat b"
  shows "load64 (store64 b v m) a = (if a = b then v else load64 m a)"
  using aligned_spans_disjoint [OF assms] by (simp add: load_store64_same load_store64_other)

section \<open>What a page maps to\<close>

text \<open>The leaf entry the processor finds for a page, if it is mapped by a 4 KiB page.\<close>

definition page_entry :: "u64 \<Rightarrow> u64 \<Rightarrow> mem \<Rightarrow> u64 option" where
  "page_entry cr3 va m =
    (case walk 0 m va TABLE_SHIFTS cr3 of
       None \<Rightarrow> None
     | Some l1 \<Rightarrow> let e = load64 m (entry_addr 0 l1 va 12) in if e AND 1 = 1 then Some e else None)"

lemma walk_hhdm: "walk hhdm m va shifts t = walk 0 m va shifts t"
  by (induction shifts arbitrary: t) (simp_all add: Let_def entry_addr_hhdm [of hhdm])

lemma walk_page_base: "\<forall>k \<in> set shifts. 12 \<le> k \<Longrightarrow> walk hhdm m (page_base va) shifts t = walk hhdm m va shifts t"
  by (induction shifts arbitrary: t) (simp_all add: Let_def entry_addr_def pt_index_page_base)

lemma walk_tables_page_base [simp]: "walk hhdm m (page_base va) TABLE_SHIFTS t = walk hhdm m va TABLE_SHIFTS t"
  by (rule walk_page_base) (simp add: TABLE_SHIFTS_def)

lemma entry_addr_page_base [simp]: "entry_addr hhdm t (page_base va) 12 = entry_addr hhdm t va 12"
  by (simp add: entry_addr_def pt_index_page_base)

lemma page_entry_page_base: "page_entry cr3 (page_base va) m = page_entry cr3 va m"
  by (simp add: page_entry_def split: option.split)

lemma walk_aligned: "walk hhdm m va shifts t = Some l \<Longrightarrow> 4096 dvd unat t \<Longrightarrow> 4096 dvd unat l"
  by (induction shifts arbitrary: t) (auto simp: Let_def pte_addr_aligned split: if_splits)

text \<open>Clearing one entry can only remove translations.\<close>

lemma walk_clear:
  assumes "8 dvd unat x" "4096 dvd unat t"
  shows "walk 0 (store64 x 0 m) va shifts t = walk 0 m va shifts t \<or>
    walk 0 (store64 x 0 m) va shifts t = None"
  using assms(2)
proof (induction shifts arbitrary: t)
  case (Cons shift shifts)
  have "8 dvd unat (entry_addr 0 t va shift)" using Cons.prems by (rule entry_addr_aligned)
  note ld = load_store_aligned [OF this assms(1)]
  show ?case
    using Cons.IH [OF pte_addr_aligned, of "load64 m (entry_addr 0 t va shift)"]
    by (auto simp: ld Let_def)
qed simp

lemma page_entry_clear:
  assumes "8 dvd unat x" "4096 dvd unat cr3"
  shows "page_entry cr3 va (store64 x 0 m) = page_entry cr3 va m \<or> page_entry cr3 va (store64 x 0 m) = None"
proof (cases "walk 0 m va TABLE_SHIFTS cr3")
  case None
  then show ?thesis using walk_clear [OF assms, of m va "TABLE_SHIFTS"] by (auto simp: page_entry_def)
next
  case (Some l1)
  then have "8 dvd unat (entry_addr 0 l1 va 12)" using walk_aligned assms(2) entry_addr_aligned by blast
  note ld = load_store_aligned [OF this assms(1)]
  show ?thesis
    using walk_clear [OF assms, of m va "TABLE_SHIFTS"] Some by (auto simp: page_entry_def ld Let_def split: if_splits)
qed

lemma unmap_page_spec:
  assumes "4096 dvd unat cr3" "unmap_page cr3 hhdm va m = (ok, m')"
  shows "page_entry cr3 va m' = None \<and>
    (\<forall>va'. page_entry cr3 va' m' = page_entry cr3 va' m \<or> page_entry cr3 va' m' = None) \<and>
    (ok \<longleftrightarrow> walk 0 m va TABLE_SHIFTS cr3 \<noteq> None) \<and> (\<not> ok \<longrightarrow> m' = m)"
proof (cases "walk 0 m va TABLE_SHIFTS cr3")
  case None
  then show ?thesis
    using assms(2) by (auto simp: unmap_page_def walk_hhdm [of hhdm] page_entry_def Let_def)
next
  case (Some l1)
  let ?x = "entry_addr 0 l1 va 12"
  have eq: "ok" "m' = store64 ?x 0 m"
    using assms(2) Some by (auto simp: unmap_page_def walk_hhdm [of hhdm] Let_def entry_addr_hhdm [of hhdm])
  have al: "8 dvd unat ?x" using walk_aligned [OF Some assms(1)] by (rule entry_addr_aligned)
  have "page_entry cr3 va m' = None"
    using walk_clear [OF al assms(1), of m va "TABLE_SHIFTS"] Some
    by (auto simp: page_entry_def eq Let_def load_store_aligned [OF al al])
  then show ?thesis using page_entry_clear [OF al assms(1)] eq Some by auto
qed

section \<open>Installing an entry\<close>

text \<open>The addresses of the entries a walk reads, the leaf entry included.\<close>

fun walk_entries :: "mem \<Rightarrow> u64 \<Rightarrow> nat list \<Rightarrow> u64 \<Rightarrow> u64 list" where
  "walk_entries m va [] t = []"
| "walk_entries m va (shift # shifts) t =
    (let a = entry_addr 0 t va shift; e = load64 m a
     in a # (if e AND 1 = 0 \<or> drop_bit 7 e AND 1 = 1 then [] else walk_entries m va shifts (e AND PTE_ADDR)))"

lemma walk_cong:
  "(\<And>a. a \<in> set (walk_entries m va shifts t) \<Longrightarrow> load64 m' a = load64 m a) \<Longrightarrow>
     walk 0 m' va shifts t = walk 0 m va shifts t \<and> walk_entries m' va shifts t = walk_entries m va shifts t"
  by (induction shifts arbitrary: t) (simp_all add: Let_def)

lemma walk_entries_aligned:
  "4096 dvd unat t \<Longrightarrow> a \<in> set (walk_entries m va shifts t) \<Longrightarrow> 8 dvd unat a"
proof (induction shifts arbitrary: t)
  case (Cons shift shifts)
  show ?case
  proof (cases "a = entry_addr 0 t va shift")
    case True
    then show ?thesis using entry_addr_aligned [OF Cons.prems(1)] by simp
  next
    case False
    then have "a \<in> set (walk_entries m va shifts (load64 m (entry_addr 0 t va shift) AND PTE_ADDR))"
      using Cons.prems(2) by (simp add: Let_def split: if_splits)
    then show ?thesis by (rule Cons.IH [OF pte_addr_aligned])
  qed
qed simp

lemma page_base_span8:
  assumes "8 dvd unat a" "x \<in> span a 8"
  shows "page_base x = page_base a"
proof -
  obtain k where k: "unat a = 8 * k" using assms(1) by (elim dvdE)
  obtain i where i: "i < 8" "x = a + of_nat i" using assms(2) by (auto simp: span_def)
  have "k < 2 ^ 61" using k unat_less_power [of a] by simp
  then have "unat x = 8 * k + i" using i k by (simp add: unat_word_ariths unat_of_nat)
  moreover have "(8 * k + i) div 4096 = (8 * k) div 4096"
    using i(1) div_mult2_eq [of "8 * k + i" 8 512] div_mult2_eq [of "8 * k" 8 512] by simp
  ultimately show ?thesis by (simp add: page_base_eq_iff k)
qed

lemma page_base_span4096:
  assumes "4096 dvd unat p" "x \<in> span p 4096"
  shows "page_base x = p"
proof -
  obtain k where k: "unat p = 4096 * k" using assms(1) by (elim dvdE)
  obtain i where i: "i < 4096" "x = p + of_nat i" using assms(2) by (auto simp: span_def)
  have "k < 2 ^ 52" using k unat_less_power [of p] by simp
  then have "unat x = 4096 * k + i" using i k by (simp add: unat_word_ariths unat_of_nat)
  then show ?thesis using i(1) k by (simp add: word_unat_eq_iff unat_page_base)
qed

lemma load_zero_page:
  assumes "4096 dvd unat p" "8 dvd unat a" "page_base a \<noteq> p"
  shows "load64 (zero_mem p 4096 m) a = load64 m a"
proof -
  have "span a 8 \<inter> span p (length (replicate 4096 (0 :: u8))) = {}"
    using page_base_span8 [OF assms(2)] page_base_span4096 [OF assms(1)] assms(3) by fastforce
  then show ?thesis by (simp add: load64_def zero_mem_def read_write_other)
qed

text \<open>
  The tables of a walk are in order for \<open>f\<close> when the leaf entry is not also an entry of an upper
  level and none of them lies in the frame \<open>f\<close>.
\<close>

definition walk_clear_of :: "u64 \<Rightarrow> u64 \<Rightarrow> mem \<Rightarrow> u64 \<Rightarrow> bool" where
  "walk_clear_of cr3 va m p \<longleftrightarrow>
     (case walk 0 m va TABLE_SHIFTS cr3 of
        None \<Rightarrow> True
      | Some l1 \<Rightarrow> let x = entry_addr 0 l1 va 12; as = walk_entries m va TABLE_SHIFTS cr3
          in x \<notin> set as \<and> l1 \<noteq> p \<and> (\<forall>a \<in> set as. page_base a \<noteq> p))"

lemma or3_present: "(x OR 3) AND 1 = (1 :: u64)"
  by (rule bit_word_eqI) (auto simp: bit_simps)

lemma manual_map_new:
  assumes "4096 dvd unat cr3" "page_entry cr3 va m = None"
    and "allocate_frame mm = (Some f, mm')" "unat f < 2 ^ 52" "walk_clear_of cr3 va m (f * 4096)"
    and "manual_map cr3 hhdm va (m, mm) = (True, (m', mm''))"
  shows "page_entry cr3 va m' = Some (f * 4096 OR 3) \<and> mm'' = mm' \<and>
    read_mem m' (f * 4096) 4096 = replicate 4096 0"
proof -
  obtain l1 where l1: "walk 0 m va TABLE_SHIFTS cr3 = Some l1"
    using assms(6) by (cases "walk 0 m va TABLE_SHIFTS cr3") (auto simp: manual_map_def walk_hhdm [of hhdm] Let_def)
  let ?x = "entry_addr 0 l1 va 12" and ?p = "f * 4096"
  let ?m1 = "store64 ?x (?p OR 3) m"
  have l1_al: "4096 dvd unat l1" using walk_aligned [OF l1 assms(1)] .
  have x_al: "8 dvd unat ?x" using l1_al by (rule entry_addr_aligned)
  have p_al: "4096 dvd unat ?p" using assms(4) by (simp add: unat_word_ariths)
  have clear: "?x \<notin> set (walk_entries m va TABLE_SHIFTS cr3)" "l1 \<noteq> ?p"
      "\<forall>a \<in> set (walk_entries m va TABLE_SHIFTS cr3). page_base a \<noteq> ?p"
    using assms(5) l1 by (auto simp: walk_clear_of_def Let_def)
  have "load64 m ?x AND 1 \<noteq> 1" using assms(2) l1 by (auto simp: page_entry_def Let_def)
  then have eq: "m' = zero_mem ?p 4096 ?m1" "mm'' = mm'"
    using assms(3,6) l1
    by (auto simp: manual_map_def walk_hhdm [of hhdm] Let_def entry_addr_hhdm [of hhdm])
  have same: "load64 m' a = load64 m a" if "a \<in> set (walk_entries m va TABLE_SHIFTS cr3)" for a
  proof -
    have al: "8 dvd unat a" using walk_entries_aligned [OF assms(1) that] .
    moreover have "page_base a \<noteq> ?p" "a \<noteq> ?x" using clear that by auto
    ultimately show ?thesis by (simp add: eq load_zero_page [OF p_al] load_store_aligned [OF al x_al])
  qed
  have leaf: "load64 m' ?x = ?p OR 3"
    using clear(2) entry_addr_page [OF l1_al]
    by (simp add: eq load_zero_page [OF p_al x_al] load_store64_same)
  have "walk 0 m' va TABLE_SHIFTS cr3 = Some l1" using walk_cong [OF same] l1 by simp
  then have "page_entry cr3 va m' = Some (?p OR 3)"
    using leaf by (simp add: page_entry_def or3_present)
  moreover have "read_mem m' ?p 4096 = replicate 4096 0"
    using read_write_same [of "replicate 4096 0" ?p ?m1] by (simp add: eq zero_mem_def)
  ultimately show ?thesis using eq(2) by simp
qed

section \<open>Tables without aliasing\<close>

text \<open>
  The processor identifies a page by its four table indices. \<open>tables_ok\<close> says that the tables form
  a tree: a leaf entry of one page is neither an entry above any page nor the leaf of another.
\<close>

definition page_id :: "u64 \<Rightarrow> u64 \<times> u64 \<times> u64 \<times> u64" where
  "page_id va = (pt_index va 39, pt_index va 30, pt_index va 21, pt_index va 12)"

definition leaf_addr :: "u64 \<Rightarrow> mem \<Rightarrow> u64 \<Rightarrow> u64 option" where
  "leaf_addr cr3 m va = map_option (\<lambda>l1. entry_addr 0 l1 va 12) (walk 0 m va TABLE_SHIFTS cr3)"

definition tables_ok :: "u64 \<Rightarrow> mem \<Rightarrow> bool" where
  "tables_ok cr3 m \<longleftrightarrow> 4096 dvd unat cr3 \<and>
     (\<forall>va va' x. leaf_addr cr3 m va = Some x \<longrightarrow>
        x \<notin> set (walk_entries m va' TABLE_SHIFTS cr3) \<and>
        (leaf_addr cr3 m va' = Some x \<longrightarrow> page_id va' = page_id va))"

lemma tables_okD:
  assumes "tables_ok cr3 m" "leaf_addr cr3 m va = Some x"
  shows "x \<notin> set (walk_entries m va' TABLE_SHIFTS cr3)"
    and "leaf_addr cr3 m va' = Some x \<Longrightarrow> page_id va' = page_id va"
  using assms unfolding tables_ok_def by metis+

lemma page_entry_leaf:
  "page_entry cr3 va m =
    (case leaf_addr cr3 m va of None \<Rightarrow> None | Some x \<Rightarrow> if load64 m x AND 1 = 1 then Some (load64 m x) else None)"
  by (simp add: page_entry_def leaf_addr_def Let_def split: option.splits)

lemma leaf_addr_aligned: "leaf_addr cr3 m va = Some x \<Longrightarrow> 4096 dvd unat cr3 \<Longrightarrow> 8 dvd unat x"
  by (auto simp: leaf_addr_def intro: entry_addr_aligned walk_aligned)

lemma leaf_addr_page_id: "page_id va = page_id va' \<Longrightarrow> leaf_addr cr3 m va = leaf_addr cr3 m va'"
  by (simp add: leaf_addr_def page_id_def TABLE_SHIFTS_def entry_addr_def Let_def)

lemma store_leaf:
  assumes "tables_ok cr3 m" "leaf_addr cr3 m va = Some x"
  shows "tables_ok cr3 (store64 x v m)"
    and "leaf_addr cr3 (store64 x v m) va' = leaf_addr cr3 m va'"
    and "page_id va' \<noteq> page_id va \<Longrightarrow> page_entry cr3 va' (store64 x v m) = page_entry cr3 va' m"
    and "page_entry cr3 va (store64 x v m) = (if v AND 1 = 1 then Some v else None)"
proof -
  let ?m = "store64 x v m"
  have cr3: "4096 dvd unat cr3" using assms(1) by (simp add: tables_ok_def)
  have x: "8 dvd unat x" using leaf_addr_aligned [OF assms(2) cr3] .
  have same: "walk 0 ?m va' TABLE_SHIFTS cr3 = walk 0 m va' TABLE_SHIFTS cr3 \<and>
      walk_entries ?m va' TABLE_SHIFTS cr3 = walk_entries m va' TABLE_SHIFTS cr3" for va'
  proof (rule walk_cong)
    fix a assume a: "a \<in> set (walk_entries m va' TABLE_SHIFTS cr3)"
    then have "a \<noteq> x" using tables_okD(1) [OF assms] by metis
    then show "load64 ?m a = load64 m a"
      using load_store_aligned [OF walk_entries_aligned [OF cr3 a] x] by simp
  qed
  then have leaf: "leaf_addr cr3 ?m va' = leaf_addr cr3 m va'"
    and entries: "walk_entries ?m va' TABLE_SHIFTS cr3 = walk_entries m va' TABLE_SHIFTS cr3" for va'
    by (simp_all only: leaf_addr_def)
  show "leaf_addr cr3 ?m va' = leaf_addr cr3 m va'" by (rule leaf)
  show "tables_ok cr3 ?m" using assms(1) unfolding tables_ok_def leaf entries .
  show "page_entry cr3 va ?m = (if v AND 1 = 1 then Some v else None)"
    using leaf [of va] assms(2) by (simp add: page_entry_leaf load_store64_same)
  show "page_entry cr3 va' ?m = page_entry cr3 va' m" if "page_id va' \<noteq> page_id va"
  proof (cases "leaf_addr cr3 m va'")
    case (Some y)
    then have "y \<noteq> x" using tables_okD(2) [OF assms, of va'] that by metis
    then show ?thesis
      using leaf [of va'] Some load_store_aligned [OF leaf_addr_aligned [OF Some cr3] x]
      by (simp add: page_entry_leaf)
  qed (use leaf [of va'] in \<open>simp add: page_entry_leaf\<close>)
qed

lemma unmap_page_leaf:
  "unmap_page cr3 hhdm va m =
    (case leaf_addr cr3 m va of None \<Rightarrow> (False, m) | Some x \<Rightarrow> (True, store64 x 0 m))"
  by (simp add: unmap_page_def leaf_addr_def walk_hhdm [of hhdm] entry_addr_hhdm [of hhdm] Let_def
      split: option.splits)

section \<open>The mapper's contract\<close>

text \<open>
  What the kernel relies on from \<^verbatim>\<open>map_to_with_table_flags\<close>, on states that satisfy \<open>vm_ok\<close>: it
  succeeds only on a page that is not mapped and then installs the frame with the leaf flags; it
  changes the translation of no other page, and of no page at all when it fails.
\<close>

locale page_mapper =
  fixes P :: mapper and cr3 hhdm :: u64 and vm_ok :: "vm \<Rightarrow> bool"
  assumes cr3_aligned: "vm_ok s \<Longrightarrow> 4096 dvd unat cr3"
    and map_success: "vm_ok s \<Longrightarrow>
      map_to_with_table_flags P (active_mapper cr3 hhdm) page frame leaf parent s = (True, s') \<Longrightarrow>
      leaf AND 1 = 1 \<Longrightarrow>
      page_entry cr3 page (fst s) = None \<and> page_entry cr3 page (fst s') = Some (frame OR leaf)"
    and map_other: "vm_ok s \<Longrightarrow>
      map_to_with_table_flags P (active_mapper cr3 hhdm) page frame leaf parent s = (ok, s') \<Longrightarrow>
      \<not> ok \<or> page_id va \<noteq> page_id page \<Longrightarrow> page_entry cr3 va (fst s') = page_entry cr3 va (fst s)"
    and map_vm_ok: "vm_ok s \<Longrightarrow>
      map_to_with_table_flags P (active_mapper cr3 hhdm) page frame leaf parent s = (ok, s') \<Longrightarrow> vm_ok s'"
    and unmap_vm_ok: "vm_ok (m, mm) \<Longrightarrow> unmap_page cr3 hhdm va m = (ok, m') \<Longrightarrow> vm_ok (m', mm)"
begin

lemma map_user_phys_success:
  assumes "vm_ok s" "map_user_phys P cr3 hhdm virt phys w x nc s = (True, s')"
  shows "page_entry cr3 virt (fst s) = None \<and>
    page_entry cr3 virt (fst s') = Some (page_base phys OR user_leaf_flags w x nc)"
proof -
  have "user_leaf_flags w x nc AND 1 = 1"
    by (rule bit_word_eqI) (auto simp: user_leaf_flags_def const_defs bit_simps)
  then show ?thesis
    using map_success [OF assms(1) assms(2) [unfolded map_user_phys_def]] by (simp add: page_entry_page_base)
qed

lemma map_user_phys_other:
  assumes "vm_ok s" "map_user_phys P cr3 hhdm virt phys w x nc s = (ok, s')"
    and "\<not> ok \<or> page_id va \<noteq> page_id virt"
  shows "page_entry cr3 va (fst s') = page_entry cr3 va (fst s)"
proof -
  have "page_id (page_base virt) = page_id virt" by (simp add: page_id_def pt_index_page_base)
  then show ?thesis
    using map_other [OF assms(1) assms(2) [unfolded map_user_phys_def], of va] assms(3) by simp
qed

lemma map_user_phys_ok: "vm_ok s \<Longrightarrow> map_user_phys P cr3 hhdm virt phys w x nc s = (ok, s') \<Longrightarrow> vm_ok s'"
  unfolding map_user_phys_def by (rule map_vm_ok)

lemma map_unmap:
  assumes "vm_ok s" "map_user_phys P cr3 hhdm virt phys w x nc s = (True, s')"
    and "unmap_page cr3 hhdm virt (fst s') = (ok, m')"
  shows "ok \<and> page_entry cr3 virt m' = None"
proof -
  have "page_entry cr3 virt (fst s') \<noteq> None" using map_user_phys_success [OF assms(1,2)] by simp
  then have "leaf_addr cr3 (fst s') virt \<noteq> None" by (auto simp: page_entry_leaf split: option.splits)
  then show ?thesis
    using unmap_page_spec [OF cr3_aligned [OF assms(1)] assms(3)] assms(3) by (auto simp: unmap_page_leaf)
qed

end

text \<open>
  A mapper that satisfies the contract: it installs leaf entries in tables that exist already and
  fails when a table is missing.
\<close>

definition leaf_map :: "OffsetPageTable \<Rightarrow> u64 \<Rightarrow> u64 \<Rightarrow> u64 \<Rightarrow> vm \<Rightarrow> bool \<times> vm" where
  "leaf_map pt page frame flags s =
    (let (m, mm) = s
     in case leaf_addr (phys_of (phys_offset pt) (l4_virt pt)) m page of
         None \<Rightarrow> (False, s)
       | Some x \<Rightarrow> if load64 m x AND 1 = 1 then (False, s) else (True, (store64 x (frame OR flags) m, mm)))"

definition leaf_mapper :: mapper where
  "leaf_mapper = \<lparr>map_to = leaf_map, map_to_with_table_flags = \<lambda>pt page frame leaf parent. leaf_map pt page frame leaf,
     translate_page = \<lambda>pt page m.
       map_option (\<lambda>e. e AND PTE_ADDR) (page_entry (phys_of (phys_offset pt) (l4_virt pt)) page m)\<rparr>"

lemma leaf_map_active:
  "leaf_map (active_mapper cr3 hhdm) page frame flags (m, mm) =
    (case leaf_addr cr3 m page of
       None \<Rightarrow> (False, (m, mm))
     | Some x \<Rightarrow> if load64 m x AND 1 = 1 then (False, (m, mm)) else (True, (store64 x (frame OR flags) m, mm)))"
  by (simp add: leaf_map_def active_mapper_def)

lemma leaf_mapper_cases:
  assumes "map_to_with_table_flags leaf_mapper (active_mapper cr3 hhdm) page frame leaf parent s = (ok, s')"
  obtains (fail) "\<not> ok" "s' = s"
    | (success) x where "ok" "leaf_addr cr3 (fst s) page = Some x" "load64 (fst s) x AND 1 \<noteq> 1"
        "s' = (store64 x (frame OR leaf) (fst s), snd s)"
  using assms
  by (cases s) (auto simp: leaf_mapper_def leaf_map_active split: option.splits if_splits)

lemma or_present: "leaf AND 1 = 1 \<Longrightarrow> (frame OR leaf) AND 1 = (1 :: u64)"
proof -
  assume leaf: "leaf AND 1 = 1"
  have "bit leaf 0" using arg_cong [OF leaf, of "\<lambda>w. bit w 0"] by (simp add: bit_simps)
  then show ?thesis by (intro bit_word_eqI) (auto simp: bit_simps)
qed

lemma leaf_mapper_success:
  assumes "tables_ok cr3 (fst s)" "leaf AND 1 = 1"
    and "map_to_with_table_flags leaf_mapper (active_mapper cr3 hhdm) page frame leaf parent s = (True, s')"
  shows "page_entry cr3 page (fst s) = None \<and> page_entry cr3 page (fst s') = Some (frame OR leaf)"
  using assms(3)
proof (cases rule: leaf_mapper_cases)
  case (success x)
  then show ?thesis
    using store_leaf(4) [OF assms(1) success(2), of "frame OR leaf"] or_present [OF assms(2)]
    by (simp add: page_entry_leaf)
qed simp

lemma leaf_mapper_other:
  assumes "tables_ok cr3 (fst s)"
    and "map_to_with_table_flags leaf_mapper (active_mapper cr3 hhdm) page frame leaf parent s = (ok, s')"
    and "\<not> ok \<or> page_id va \<noteq> page_id page"
  shows "page_entry cr3 va (fst s') = page_entry cr3 va (fst s)"
  using assms(2)
proof (cases rule: leaf_mapper_cases)
  case (success x)
  then show ?thesis using store_leaf(3) [OF assms(1) success(2), of va] assms(3) by simp
qed simp

lemma leaf_mapper_ok:
  assumes "tables_ok cr3 (fst s)"
    and "map_to_with_table_flags leaf_mapper (active_mapper cr3 hhdm) page frame leaf parent s = (ok, s')"
  shows "tables_ok cr3 (fst s')"
  using assms(2)
proof (cases rule: leaf_mapper_cases)
  case (success x)
  then show ?thesis using store_leaf(1) [OF assms(1) success(2)] by simp
qed (use assms(1) in simp)

lemma unmap_page_ok: "tables_ok cr3 m \<Longrightarrow> unmap_page cr3 hhdm va m = (ok, m') \<Longrightarrow> tables_ok cr3 m'"
  using store_leaf(1) [of cr3 m va] by (auto simp: unmap_page_leaf split: option.splits)

interpretation lm: page_mapper leaf_mapper cr3 hhdm "\<lambda>s. tables_ok cr3 (fst s)" for cr3 hhdm
proof (unfold_locales, goal_cases)
  case 1
  then show ?case by (simp add: tables_ok_def)
next
  case 2
  then show ?case by (intro leaf_mapper_success)
next
  case 3
  then show ?case by (intro leaf_mapper_other)
next
  case 4
  then show ?case by (rule leaf_mapper_ok)
next
  case 5
  then show ?case using unmap_page_ok by simp
qed

section \<open>The bits of a user leaf\<close>

lemma bit_page_base: "bit (page_base x) n \<longleftrightarrow> 12 \<le> n \<and> bit x n"
  by (auto simp: page_base_push bit_simps dest: bit_imp_le_length)

lemma bit_small: "unat (x :: u64) < 2 ^ 52 \<Longrightarrow> bit x n \<Longrightarrow> n < 52"
proof (rule ccontr)
  assume x: "unat x < 2 ^ 52" "bit x n" "\<not> n < 52"
  have "(2 :: nat) ^ 52 \<le> 2 ^ n" using x(3) by (intro power_increasing) simp_all
  then have "unat x div 2 ^ n = 0" using x(1) by simp
  moreover have "bit (unat x) n" using x(2) by (simp add: bit_unsigned_iff)
  ultimately show False by (simp add: bit_iff_odd)
qed

lemma flag_powers:
  "PRESENT = 2 ^ 0" "WRITABLE = 2 ^ 1" "USER_ACCESSIBLE = 2 ^ 2" "NO_CACHE = 2 ^ 4" "NO_EXECUTE = 2 ^ 63"
  by (simp_all add: const_defs)

lemma bit_flags:
  "bit PRESENT n \<longleftrightarrow> n = 0" "bit WRITABLE n \<longleftrightarrow> n = 1" "bit USER_ACCESSIBLE n \<longleftrightarrow> n = 2"
  "bit NO_CACHE n \<longleftrightarrow> n = 4" "bit NO_EXECUTE n \<longleftrightarrow> n = 63"
  unfolding flag_powers bit_exp_iff by (auto simp: possible_bit_word)

lemma bit_user_leaf_flags:
  "bit (user_leaf_flags w x nc) n \<longleftrightarrow> n = 0 \<or> n = 2 \<or> n = 1 \<and> w \<or> n = 63 \<and> \<not> x \<or> n = 4 \<and> nc"
  by (auto simp: user_leaf_flags_def Let_def bit_or_iff bit_flags)

lemma bit_PTE_ADDR: "bit PTE_ADDR n \<longleftrightarrow> 12 \<le> n \<and> n < 52"
proof -
  have eq: "PTE_ADDR = push_bit 12 (mask 40)" by (simp add: const_defs mask_eq_exp_minus_1 push_bit_eq_mult)
  show ?thesis unfolding eq by (auto simp: bit_simps)
qed

lemma user_leaf_bits:
  assumes "unat phys < 2 ^ 52"
  defines "e w x nc \<equiv> page_base phys OR user_leaf_flags w x nc"
  shows "e w x nc AND PTE_ADDR = page_base phys" "bit (e w x nc) 0" "bit (e w x nc) 2"
    "bit (e w x nc) 1 \<longleftrightarrow> w" "bit (e w x nc) 63 \<longleftrightarrow> \<not> x" "bit (e w x nc) 4 \<longleftrightarrow> nc"
  unfolding e_def using bit_small [OF assms(1)] bit_small [OF assms(1), of 63]
  by (auto simp: bit_or_iff bit_page_base bit_user_leaf_flags bit_and_iff bit_PTE_ADDR intro!: bit_word_eqI)

section \<open>Concrete tables\<close>

text \<open>Tables at \<open>0x1000\<close> to \<open>0x4000\<close> that cover the 2 MiB from \<open>0x1000000\<close> on, with no page mapped.\<close>

definition demo_tables :: mem where
  "demo_tables = store64 0x1000 0x2007 (store64 0x2000 0x3007 (store64 0x3040 0x4007 (\<lambda>a. 0)))"

lemma load_zero: "load64 (\<lambda>a. 0) a = 0"
proof -
  have "read_mem (\<lambda>a. 0) a n = replicate n 0" for a n by (induction n arbitrary: a) simp_all
  moreover have "le_word (replicate n 0) = (0 :: u64)" for n by (induction n) simp_all
  ultimately show ?thesis by (simp add: load64_def)
qed

lemma demo_load:
  assumes "8 dvd unat a"
  shows "load64 demo_tables a =
    (if a = 0x1000 then 0x2007 else if a = 0x2000 then 0x3007 else if a = 0x3040 then 0x4007 else 0)"
  using assms by (simp add: demo_tables_def load_store_aligned load_zero)

lemma demo_entry:
  assumes "4096 dvd unat t"
  shows "load64 demo_tables (entry_addr 0 t va shift) =
    (if t = 0x1000 \<and> pt_index va shift = 0 then 0x2007
     else if t = 0x2000 \<and> pt_index va shift = 0 then 0x3007
     else if t = 0x3000 \<and> pt_index va shift = 8 then 0x4007 else 0)"
proof -
  have eq: "entry_addr 0 t va shift = a \<longleftrightarrow> t = page_base a \<and> 8 * unat (pt_index va shift) = unat a - unat (page_base a)"
    for a
  proof
    assume a: "entry_addr 0 t va shift = a"
    then have "t = page_base a" using entry_addr_page [OF assms] by auto
    then show "t = page_base a \<and> 8 * unat (pt_index va shift) = unat a - unat (page_base a)"
      using a unat_entry_addr [OF assms, of 0 va shift] by simp
  next
    assume "t = page_base a \<and> 8 * unat (pt_index va shift) = unat a - unat (page_base a)"
    moreover have "unat (page_base a) \<le> unat a" by (simp add: unat_page_base)
    ultimately show "entry_addr 0 t va shift = a"
      using unat_entry_addr [OF assms, of 0 va shift] by (simp add: word_unat_eq_iff)
  qed
  have "page_base 0x1000 = 0x1000" "page_base 0x2000 = 0x2000" "page_base 0x3040 = 0x3000"
    by (simp_all add: page_base_def)
  then show ?thesis
    unfolding demo_load [OF entry_addr_aligned [OF assms]] eq
    by (auto simp: word_unat_eq_iff)
qed

lemma demo_walk:
  "walk 0 demo_tables va TABLE_SHIFTS 0x1000 =
    (if pt_index va 39 = 0 \<and> pt_index va 30 = 0 \<and> pt_index va 21 = 8 then Some 0x4000 else None)"
  by (simp add: TABLE_SHIFTS_def demo_entry Let_def PTE_ADDR_def)

lemma demo_leaf_addr:
  "leaf_addr 0x1000 demo_tables va = Some x \<Longrightarrow>
     x = entry_addr 0 0x4000 va 12 \<and> page_base x = 0x4000 \<and> unat x = 0x4000 + 8 * unat (pt_index va 12) \<and>
     pt_index va 39 = 0 \<and> pt_index va 30 = 0 \<and> pt_index va 21 = 8"
  using entry_addr_page [of "0x4000" 0 va 12] unat_entry_addr [of "0x4000" 0 va 12]
  by (auto simp: leaf_addr_def demo_walk split: if_splits)

lemma demo_walk_entries:
  "a \<in> set (walk_entries demo_tables va TABLE_SHIFTS 0x1000) \<Longrightarrow> page_base a \<in> {0x1000, 0x2000, 0x3000}"
  using entry_addr_page [of "0x1000" 0 va 39] entry_addr_page [of "0x2000" 0 va 30]
    entry_addr_page [of "0x3000" 0 va 21]
  by (auto simp: TABLE_SHIFTS_def demo_entry Let_def PTE_ADDR_def split: if_splits)

lemma demo_tables_ok: "tables_ok 0x1000 demo_tables"
  unfolding tables_ok_def
proof (intro conjI allI impI)
  fix va va' x
  assume x: "leaf_addr 0x1000 demo_tables va = Some x"
  show "x \<notin> set (walk_entries demo_tables va' TABLE_SHIFTS 0x1000)"
    using demo_leaf_addr [OF x] demo_walk_entries [of x va'] by auto
  assume "leaf_addr 0x1000 demo_tables va' = Some x"
  from demo_leaf_addr [OF this] demo_leaf_addr [OF x] show "page_id va' = page_id va"
    by (simp add: page_id_def word_unat_eq_iff)
qed simp

lemma demo_indices: "page_id 0x1000000 = (0, 0, 8, 0)" "page_id 0x1001000 = (0, 0, 8, 1)"
  by (simp_all add: page_id_def pt_index_def)

section \<open>Properties\<close>

text \<open>
  C24: \<open>unmap_page\<close> closes the page. Whatever the tables contain, afterwards the processor finds no
  4 KiB mapping for the page, and no other page has gained or changed a translation; if the
  tables form a tree, every other page keeps its translation. The result is false exactly when
  a table on the way is missing or a huge page, and then memory is unchanged.
\<close>
theorem unmap_page_closes:
  assumes "4096 dvd unat cr3" "unmap_page cr3 hhdm va m = (ok, m')"
  shows "page_entry cr3 va m' = None \<and>
    (\<forall>va'. page_entry cr3 va' m' = page_entry cr3 va' m \<or> page_entry cr3 va' m' = None) \<and>
    (tables_ok cr3 m \<longrightarrow> (\<forall>va'. page_id va' \<noteq> page_id va \<longrightarrow> page_entry cr3 va' m' = page_entry cr3 va' m)) \<and>
    (ok \<longleftrightarrow> walk 0 m va TABLE_SHIFTS cr3 \<noteq> None) \<and> (\<not> ok \<longrightarrow> m' = m)"
proof -
  have "page_entry cr3 va' m' = page_entry cr3 va' m" if "tables_ok cr3 m" "page_id va' \<noteq> page_id va" for va'
    using assms(2) store_leaf(3) [OF that(1) _ that(2)]
    by (cases "leaf_addr cr3 m va") (auto simp: unmap_page_leaf)
  with unmap_page_spec [OF assms] show ?thesis by simp
qed

theorem unmap_page_closes_witness:
  "page_entry 0x1000 0x1000000 (store64 0x4000 0x5007 demo_tables) = Some 0x5007 \<and>
   page_entry 0x1000 0x1000000 (snd (unmap_page 0x1000 0xffff800000000000 0x1000000
     (store64 0x4000 0x5007 demo_tables))) = None"
proof -
  let ?m = "store64 0x4000 0x5007 demo_tables"
  have leaf: "leaf_addr 0x1000 demo_tables 0x1000000 = Some 0x4000"
    using demo_indices by (simp add: leaf_addr_def demo_walk page_id_def entry_addr_def phys_of_def)
  obtain ok m' where u: "unmap_page 0x1000 0xffff800000000000 0x1000000 ?m = (ok, m')" by fastforce
  have "page_entry 0x1000 0x1000000 m' = None"
    using unmap_page_closes [OF _ u] by simp
  moreover have "page_entry 0x1000 0x1000000 ?m = Some 0x5007"
    using store_leaf(4) [OF demo_tables_ok leaf, of "0x5007"] by simp
  ultimately show ?thesis using u by simp
qed

text \<open>
  C33: \<open>manual_map\<close> backs a missing page with a fresh zeroed frame. If the tables above are present
  and hold no leaf for the page, it takes the lowest free frame, and if that frame is outside the
  tables of the walk the page afterwards maps to it, present and writable, and the frame is all
  zero. A page already mapped is left alone; with a table missing or no free frame it fails and
  memory is unchanged.
\<close>
theorem manual_map_backs_page:
  assumes "4096 dvd unat cr3" "manual_map cr3 hhdm va (m, mm) = (ok, (m', mm'))"
  shows "(walk 0 m va TABLE_SHIFTS cr3 = None \<longrightarrow> \<not> ok \<and> m' = m \<and> mm' = mm) \<and>
    (page_entry cr3 va m \<noteq> None \<longrightarrow> ok \<and> m' = m \<and> mm' = mm) \<and>
    (walk 0 m va TABLE_SHIFTS cr3 \<noteq> None \<and> page_entry cr3 va m = None \<longrightarrow>
      mm' = snd (allocate_frame mm) \<and>
      (case fst (allocate_frame mm) of
         None \<Rightarrow> \<not> ok \<and> m' = m
       | Some f \<Rightarrow> ok \<and>
           (unat f < 2 ^ 52 \<and> walk_clear_of cr3 va m (f * 4096) \<longrightarrow>
             page_entry cr3 va m' = Some (f * 4096 OR 3) \<and> read_mem m' (f * 4096) 4096 = replicate 4096 0)))"
proof (cases "walk 0 m va TABLE_SHIFTS cr3")
  case None
  then show ?thesis
    using assms(2) by (simp add: manual_map_def walk_hhdm [of hhdm] Let_def page_entry_def)
next
  case (Some l1)
  show ?thesis
  proof (cases "page_entry cr3 va m")
    case None
    then have np: "load64 m (entry_addr 0 l1 va 12) AND 1 \<noteq> 1"
      using Some by (auto simp: page_entry_def Let_def)
    obtain r mm1 where al: "allocate_frame mm = (r, mm1)" by fastforce
    show ?thesis
    proof (cases r)
      case None
      then show ?thesis
        using assms(2) Some np al \<open>page_entry cr3 va m = None\<close>
        by (simp add: manual_map_def walk_hhdm [of hhdm] entry_addr_hhdm [of hhdm] Let_def)
    next
      case (Some f)
      have "ok" "mm' = mm1"
        using assms(2) \<open>walk 0 m va TABLE_SHIFTS cr3 = Some l1\<close> np al Some
        by (auto simp: manual_map_def walk_hhdm [of hhdm] entry_addr_hhdm [of hhdm] Let_def)
      moreover have "manual_map cr3 hhdm va (m, mm) = (True, (m', mm'))" using assms(2) \<open>ok\<close> by simp
      ultimately show ?thesis
        using manual_map_new [OF assms(1) \<open>page_entry cr3 va m = None\<close>, of mm f mm1] al Some
          \<open>page_entry cr3 va m = None\<close> \<open>walk 0 m va TABLE_SHIFTS cr3 = Some l1\<close> by simp
    qed
  next
    case (Some e)
    then have "load64 m (entry_addr 0 l1 va 12) AND 1 = 1"
      using \<open>walk 0 m va TABLE_SHIFTS cr3 = Some l1\<close> by (auto simp: page_entry_def Let_def split: if_splits)
    then show ?thesis
      using assms(2) \<open>walk 0 m va TABLE_SHIFTS cr3 = Some l1\<close> Some
      by (simp add: manual_map_def walk_hhdm [of hhdm] entry_addr_hhdm [of hhdm] Let_def)
  qed
qed

theorem manual_map_backs_page_witness:
  "page_entry 0x1000 0x1000000 (fst (snd (manual_map 0x1000 0xffff800000000000 0x1000000 (demo_tables, demo_memory)))) =
     Some 0x100003"
proof -
  obtain ok m' mm' where r: "manual_map 0x1000 0xffff800000000000 0x1000000 (demo_tables, demo_memory) = (ok, (m', mm'))"
    by (metis prod.exhaust)
  have w: "walk 0 demo_tables 0x1000000 TABLE_SHIFTS 0x1000 = Some 0x4000"
    using demo_indices by (simp add: demo_walk page_id_def)
  have "page_entry 0x1000 0x1000000 demo_tables = None"
    using demo_indices by (simp add: page_entry_def w demo_entry)
  moreover have "walk_clear_of 0x1000 0x1000000 demo_tables 0x100000"
    using demo_walk_entries [of _ "0x1000000"] entry_addr_page [of "0x4000" 0 "0x1000000" 12]
    by (fastforce simp: walk_clear_of_def w Let_def)
  moreover note demo_alloc
  ultimately show ?thesis
    using manual_map_backs_page [OF _ r] w r by simp
qed



end
