(* ===== verification/Pci.thy ===== *)
theory Pci
  imports Machine
begin

text \<open>
  PCI enumeration over the legacy configuration ports, \<^verbatim>\<open>kernel/src/pci.rs\<close>. The configuration
  space is a device and so a parameter: the operations go through the ports of the \<open>bus\<close>. The locale
  \<open>pci_config\<close> states what the configuration mechanism promises: the address port selects a dword,
  the data port reads it, and a write changes its writable bits only. \<^verbatim>\<open>scan\<close> only prints; its model
  returns the lines it prints.
\<close>

definition CONFIG_ADDR :: u16 where [const_defs]: "CONFIG_ADDR = 0xCF8"
definition CONFIG_DATA :: u16 where [const_defs]: "CONFIG_DATA = 0xCFC"
definition VIRTIO_VENDOR :: u16 where [const_defs]: "VIRTIO_VENDOR = 0x1AF4"
definition CLASS_STORAGE :: u8 where [const_defs]: "CLASS_STORAGE = 0x01"

definition cfg_addr :: "u8 \<Rightarrow> u8 \<Rightarrow> u8 \<Rightarrow> u16 \<Rightarrow> u32" where
  "cfg_addr bus dev func off =
    0x80000000 OR push_bit 16 (ucast bus) OR push_bit 11 (ucast dev) OR push_bit 8 (ucast func) OR
    (ucast off AND 0xFC)"

definition cfg_read32 :: "'d bus \<Rightarrow> u8 \<Rightarrow> u8 \<Rightarrow> u8 \<Rightarrow> u16 \<Rightarrow> 'd \<Rightarrow> u32 \<times> 'd" where
  "cfg_read32 B bus dev func off d =
    (let d = port_write B CONFIG_ADDR 4 (cfg_addr bus dev func off) d in port_read B CONFIG_DATA 4 d)"

definition cfg_write32 :: "'d bus \<Rightarrow> u8 \<Rightarrow> u8 \<Rightarrow> u8 \<Rightarrow> u16 \<Rightarrow> u32 \<Rightarrow> 'd \<Rightarrow> 'd" where
  "cfg_write32 B bus dev func off val d =
    (let d = port_write B CONFIG_ADDR 4 (cfg_addr bus dev func off) d in port_write B CONFIG_DATA 4 val d)"

definition cfg_read8 :: "'d bus \<Rightarrow> u8 \<Rightarrow> u8 \<Rightarrow> u8 \<Rightarrow> u16 \<Rightarrow> 'd \<Rightarrow> u8 \<times> 'd" where
  "cfg_read8 B bus dev func off d =
    (let (v, d) = cfg_read32 B bus dev func (off AND NOT 3) d
     in (ucast (drop_bit (unat (off AND 3) * 8) v), d))"

text \<open>The two loops of \<^verbatim>\<open>find_virtio_blk\<close>, over the device and function numbers in order.\<close>

fun find_in :: "'d bus \<Rightarrow> (u8 \<times> u8) list \<Rightarrow> 'd \<Rightarrow> (u8 \<times> u8 \<times> u8) option \<times> 'd" where
  "find_in B [] d = (None, d)"
| "find_in B ((dev, func) # rest) d =
    (let (i, d) = cfg_read32 B 0 dev func 0x00 d
     in if ucast (i AND 0xFFFF) \<noteq> VIRTIO_VENDOR then find_in B rest d
        else let (c, d) = cfg_read32 B 0 dev func 0x08 d
             in if ucast (drop_bit 24 c AND 0xFF) = CLASS_STORAGE then (Some (0, dev, func), d)
                else find_in B rest d)"

definition find_virtio_blk :: "'d bus \<Rightarrow> 'd \<Rightarrow> (u8 \<times> u8 \<times> u8) option \<times> 'd" where
  "find_virtio_blk B = find_in B [(of_nat dev, of_nat func). dev \<leftarrow> [0..<32], func \<leftarrow> [0..<8]]"

definition bar_base :: "'d bus \<Rightarrow> u8 \<Rightarrow> u8 \<Rightarrow> u8 \<Rightarrow> u8 \<Rightarrow> 'd \<Rightarrow> u64 \<times> 'd" where
  "bar_base B bus dev func i d =
    (let off = 0x10 + ucast i * 4;
         (raw, d) = cfg_read32 B bus dev func off d
     in if raw AND 1 \<noteq> 0 then (ucast (raw AND 0xFFFFFFFC), d)
        else let base = ucast (raw AND 0xFFFFFFF0)
             in if drop_bit 1 raw AND 3 = 2
                then let (hi, d) = cfg_read32 B bus dev func (off + 4) d
                     in (base OR push_bit 32 (ucast hi), d)
                else (base, d))"

definition enable_bus_master :: "'d bus \<Rightarrow> u8 \<Rightarrow> u8 \<Rightarrow> u8 \<Rightarrow> 'd \<Rightarrow> 'd" where
  "enable_bus_master B bus dev func d =
    (let (cmd, d) = cfg_read32 B bus dev func 0x04 d in cfg_write32 B bus dev func 0x04 (cmd OR 6) d)"

section \<open>Sizing a BAR\<close>

record Bar =
  bar_addr :: u64
  bar_size :: u64
  is_io :: bool
  is_64 :: bool

text \<open>Write all ones, read back, restore: the probe the three cases of \<^verbatim>\<open>bar_info\<close> share.\<close>

definition probe :: "'d bus \<Rightarrow> u8 \<Rightarrow> u8 \<Rightarrow> u8 \<Rightarrow> u16 \<Rightarrow> u32 \<Rightarrow> 'd \<Rightarrow> u32 \<times> 'd" where
  "probe B bus dev func off raw d =
    (let d = cfg_write32 B bus dev func off 0xFFFFFFFF d;
         (readback, d) = cfg_read32 B bus dev func off d;
         d = cfg_write32 B bus dev func off raw d
     in (readback, d))"

definition bar_info :: "'d bus \<Rightarrow> u8 \<Rightarrow> u8 \<Rightarrow> u8 \<Rightarrow> u8 \<Rightarrow> 'd \<Rightarrow> Bar \<times> 'd" where
  "bar_info B bus dev func i d =
    (let off = 0x10 + ucast i * 4;
         (raw, d) = cfg_read32 B bus dev func off d
     in if raw = 0 then (\<lparr>bar_addr = 0, bar_size = 0, is_io = False, is_64 = False\<rparr>, d)
        else if raw AND 1 \<noteq> 0 then
          let (readback, d) = probe B bus dev func off raw d;
              size = NOT (readback AND 0xFFFFFFFC) + 1
          in (\<lparr>bar_addr = ucast (raw AND 0xFFFFFFFC), bar_size = ucast size, is_io = True, is_64 = False\<rparr>, d)
        else
          let is64 = (drop_bit 1 raw AND 3 = 2);
              base = ucast (raw AND 0xFFFFFFF0);
              (lo, d) = probe B bus dev func off raw d
          in if is64 then
               let off_hi = off + 4;
                   (raw_hi, d) = cfg_read32 B bus dev func off_hi d;
                   base = base OR push_bit 32 (ucast raw_hi);
                   (hi, d) = probe B bus dev func off_hi raw_hi d;
                   size_mask = ucast (lo AND 0xFFFFFFF0) OR push_bit 32 (ucast hi)
               in (\<lparr>bar_addr = base, bar_size = NOT size_mask + 1, is_io = False, is_64 = True\<rparr>, d)
             else
               let size = NOT (lo AND 0xFFFFFFF0) + 1
               in (\<lparr>bar_addr = base, bar_size = ucast size, is_io = False, is_64 = False\<rparr>, d))"

section \<open>The boot-time scan\<close>

datatype scan_line =
    FunctionLine u8 u8 u16 u16 u8 u8 u8
  | BarLine nat bool bool u64 u64
  | VirtioBlkLine u16

text \<open>The \<^verbatim>\<open>while\<close> loop over the BARs; \<open>n\<close> bounds the iterations and each one advances \<open>i\<close>.\<close>

fun scan_bars :: "'d bus \<Rightarrow> u8 \<Rightarrow> u8 \<Rightarrow> nat \<Rightarrow> nat \<Rightarrow> 'd \<Rightarrow> scan_line list \<times> 'd" where
  "scan_bars B dev func 0 i d = ([], d)"
| "scan_bars B dev func (Suc n) i d =
    (if i < 6 then
       let (b, d) = bar_info B 0 dev func (of_nat i) d;
           line = (if bar_size b \<noteq> 0 then [BarLine i (is_io b) (is_64 b) (bar_addr b) (bar_size b)] else []);
           (lines, d) = scan_bars B dev func n (i + (if is_64 b then 2 else 1)) d
       in (line @ lines, d)
     else ([], d))"

fun scan_funcs :: "'d bus \<Rightarrow> u8 \<Rightarrow> u8 list \<Rightarrow> 'd \<Rightarrow> scan_line list \<times> 'd" where
  "scan_funcs B dev [] d = ([], d)"
| "scan_funcs B dev (func # funcs) d =
    (let (i, d) = cfg_read32 B 0 dev func 0x00 d;
         vendor = ucast (i AND 0xFFFF)
     in if vendor = 0xFFFF then (if func = 0 then ([], d) else scan_funcs B dev funcs d)
        else
          let device = ucast (drop_bit 16 i);
              (cls, d) = cfg_read32 B 0 dev func 0x08 d;
              class_code = ucast (drop_bit 24 cls AND 0xFF);
              sub = ucast (drop_bit 16 cls AND 0xFF);
              (h, d) = cfg_read32 B 0 dev func 0x0C d;
              hdr = ucast (drop_bit 16 h AND 0xFF);
              (bars, d) = (if hdr AND 0x7F = 0 then scan_bars B dev func 6 0 d else ([], d));
              virt = (if vendor = VIRTIO_VENDOR \<and> class_code = CLASS_STORAGE then [VirtioBlkLine device] else []);
              lines = FunctionLine dev func vendor device class_code sub hdr # bars @ virt
          in if func = 0 \<and> hdr AND 0x80 = 0 then (lines, d)
             else let (more, d) = scan_funcs B dev funcs d in (lines @ more, d))"

fun scan_devs :: "'d bus \<Rightarrow> u8 list \<Rightarrow> 'd \<Rightarrow> scan_line list \<times> 'd" where
  "scan_devs B [] d = ([], d)"
| "scan_devs B (dev # rest) d =
    (let (lines, d) = scan_funcs B dev (map of_nat [0..<8]) d;
         (more, d) = scan_devs B rest d
     in (lines @ more, d))"

definition scan :: "'d bus \<Rightarrow> 'd \<Rightarrow> scan_line list \<times> 'd" where
  "scan B = scan_devs B (map of_nat [0..<32])"

section \<open>The configuration mechanism\<close>

text \<open>
  What the probe should find, from the contents of the BAR dword, its writable bits, and the same
  of the next dword.
\<close>

definition decode_bar :: "u32 \<Rightarrow> u32 \<Rightarrow> u32 \<Rightarrow> u32 \<Rightarrow> Bar" where
  "decode_bar raw m raw_hi m_hi =
    (let lo = m OR (raw AND NOT m); hi = m_hi OR (raw_hi AND NOT m_hi)
     in if raw = 0 then \<lparr>bar_addr = 0, bar_size = 0, is_io = False, is_64 = False\<rparr>
        else if raw AND 1 \<noteq> 0
        then \<lparr>bar_addr = ucast (raw AND 0xFFFFFFFC), bar_size = ucast (NOT (lo AND 0xFFFFFFFC) + 1),
               is_io = True, is_64 = False\<rparr>
        else if drop_bit 1 raw AND 3 = 2
        then \<lparr>bar_addr = ucast (raw AND 0xFFFFFFF0) OR push_bit 32 (ucast raw_hi),
               bar_size = NOT (ucast (lo AND 0xFFFFFFF0) OR push_bit 32 (ucast hi)) + 1,
               is_io = False, is_64 = True\<rparr>
        else \<lparr>bar_addr = ucast (raw AND 0xFFFFFFF0), bar_size = ucast (NOT (lo AND 0xFFFFFFF0) + 1),
               is_io = False, is_64 = False\<rparr>)"

text \<open>The first function of a list whose identity says virtio storage.\<close>

definition is_blk :: "(u32 \<Rightarrow> u32) \<Rightarrow> u8 \<times> u8 \<Rightarrow> bool" where
  "is_blk c = (\<lambda>(dev, func). ucast (c (cfg_addr 0 dev func 0) AND 0xFFFF) = VIRTIO_VENDOR \<and>
     ucast (drop_bit 24 (c (cfg_addr 0 dev func 8)) AND 0xFF) = CLASS_STORAGE)"

fun first_blk :: "(u32 \<Rightarrow> u32) \<Rightarrow> (u8 \<times> u8) list \<Rightarrow> (u8 \<times> u8 \<times> u8) option" where
  "first_blk c [] = None"
| "first_blk c (slot # slots) = (if is_blk c slot then Some (0, slot) else first_blk c slots)"

lemma first_blk_find: "first_blk c slots = map_option (\<lambda>slot. (0, slot)) (find (is_blk c) slots)"
  by (induction slots) simp_all

locale pci_config =
  fixes B :: "'d bus" and cfg :: "'d \<Rightarrow> u32 \<Rightarrow> u32" and rw_mask :: "u32 \<Rightarrow> u32"
  assumes config_read: "port_read B CONFIG_DATA 4 (port_write B CONFIG_ADDR 4 a d) = (v, d') \<Longrightarrow>
      v = cfg d a \<and> cfg d' = cfg d"
    and config_write: "cfg (port_write B CONFIG_DATA 4 v (port_write B CONFIG_ADDR 4 a d)) =
      (cfg d)(a := (v AND rw_mask a) OR (cfg d a AND NOT (rw_mask a)))"
begin

lemma read32: "cfg_read32 B bus dev func off d = (v, d') \<Longrightarrow> v = cfg d (cfg_addr bus dev func off) \<and> cfg d' = cfg d"
  unfolding cfg_read32_def Let_def by (rule config_read)

lemma write32: "cfg (cfg_write32 B bus dev func off v d) =
   (cfg d)(cfg_addr bus dev func off := (v AND rw_mask (cfg_addr bus dev func off)) OR
     (cfg d (cfg_addr bus dev func off) AND NOT (rw_mask (cfg_addr bus dev func off))))"
  unfolding cfg_write32_def Let_def by (rule config_write)

lemma probe_spec:
  assumes "probe B bus dev func off raw d = (rb, d')" "raw = cfg d (cfg_addr bus dev func off)"
  shows "cfg d' = cfg d" and "rb = rw_mask (cfg_addr bus dev func off) OR (raw AND NOT (rw_mask (cfg_addr bus dev func off)))"
proof -
  let ?a = "cfg_addr bus dev func off"
  obtain v d1 where r: "cfg_read32 B bus dev func off (cfg_write32 B bus dev func off 0xFFFFFFFF d) = (v, d1)"
    by fastforce
  have ones: "(0xFFFFFFFF :: u32) = - 1" by simp
  have v: "v = rw_mask ?a OR (raw AND NOT (rw_mask ?a))" and d1: "cfg d1 = (cfg d)(?a := v)"
    using read32 [OF r] assms(2) unfolding write32 ones by simp_all
  have "(raw AND rw_mask ?a) OR (v AND NOT (rw_mask ?a)) = raw"
    unfolding v by (rule bit_word_eqI) (auto simp: bit_simps)
  then have "cfg (cfg_write32 B bus dev func off raw d1) = cfg d"
    unfolding write32 d1 using assms(2) by auto
  then show "cfg d' = cfg d" "rb = rw_mask ?a OR (raw AND NOT (rw_mask ?a))"
    using assms(1) r v by (auto simp: probe_def Let_def)
qed

lemma bar_info_result:
  assumes "bar_info B bus dev func i d = (b, d')"
  defines "a \<equiv> cfg_addr bus dev func (0x10 + ucast i * 4)"
    and "h \<equiv> cfg_addr bus dev func (0x10 + ucast i * 4 + 4)"
  shows "cfg d' = cfg d \<and> b = decode_bar (cfg d a) (rw_mask a) (cfg d h) (rw_mask h)"
proof -
  let ?off = "0x10 + ucast i * 4 :: u16"
  obtain raw d1 where 1: "cfg_read32 B bus dev func ?off d = (raw, d1)" by fastforce
  then have raw: "raw = cfg d a" "cfg d1 = cfg d" using read32 by (auto simp: a_def)
  obtain lo d2 where 2: "probe B bus dev func ?off raw d1 = (lo, d2)" by fastforce
  have lo: "cfg d2 = cfg d" "lo = rw_mask a OR (raw AND NOT (rw_mask a))"
    using probe_spec [OF 2] raw by (auto simp: a_def)
  obtain rhi d3 where 3: "cfg_read32 B bus dev func (?off + 4) d2 = (rhi, d3)" by fastforce
  then have rhi: "rhi = cfg d h" "cfg d3 = cfg d" using read32 [OF 3] lo by (simp_all add: h_def)
  obtain hi d4 where 4: "probe B bus dev func (?off + 4) rhi d3 = (hi, d4)" by fastforce
  have hi: "cfg d4 = cfg d" "hi = rw_mask h OR (rhi AND NOT (rw_mask h))"
    using probe_spec [OF 4] rhi by (simp_all add: h_def)
  show ?thesis
    using assms(1) 1 2 3 4 raw(2) lo(1) hi(1)
    unfolding raw(1) [symmetric] rhi(1) [symmetric] decode_bar_def Let_def lo(2) [symmetric] hi(2) [symmetric]
    by (auto simp: bar_info_def Let_def split: if_splits)
qed

lemma bar_info_restores: "bar_info B bus dev func i d = (b, d') \<Longrightarrow> cfg d' = cfg d"
  using bar_info_result by blast

lemma scan_bars_restores: "scan_bars B dev func n i d = (lines, d') \<Longrightarrow> cfg d' = cfg d"
  by (induction n arbitrary: i d lines)
    (fastforce simp: Let_def split: prod.splits if_splits dest: bar_info_restores)+

lemma scan_funcs_restores: "scan_funcs B dev funcs d = (lines, d') \<Longrightarrow> cfg d' = cfg d"
proof (induction funcs arbitrary: d lines)
  case (Cons func funcs)
  obtain i d1 where 1: "cfg_read32 B 0 dev func 0 d = (i, d1)" by fastforce
  obtain cls d2 where 2: "cfg_read32 B 0 dev func 8 d1 = (cls, d2)" by fastforce
  obtain h d3 where 3: "cfg_read32 B 0 dev func 12 d2 = (h, d3)" by fastforce
  obtain bars d4 where 4: "scan_bars B dev func 6 0 d3 = (bars, d4)" by fastforce
  have "cfg d1 = cfg d" "cfg d2 = cfg d" "cfg d3 = cfg d" "cfg d4 = cfg d"
    using read32 [OF 1] read32 [OF 2] read32 [OF 3] scan_bars_restores [OF 4] by simp_all
  then show ?case
    using Cons.prems 1 2 3 4 by (auto simp: Let_def split: prod.splits if_splits dest: Cons.IH)
qed simp

lemma scan_devs_restores: "scan_devs B devices d = (lines, d') \<Longrightarrow> cfg d' = cfg d"
  by (induction devices arbitrary: d lines)
    (fastforce simp: Let_def split: prod.splits dest: scan_funcs_restores)+

lemma find_in_spec:
  "find_in B slots d = (r, d') \<Longrightarrow> cfg d' = cfg d \<and> r = first_blk (cfg d) slots"
proof (induction slots arbitrary: d)
  case (Cons slot slots)
  obtain dev func where slot: "slot = (dev, func)" by fastforce
  obtain i d1 where 1: "cfg_read32 B 0 dev func 0 d = (i, d1)" by fastforce
  obtain c d2 where 2: "cfg_read32 B 0 dev func 8 d1 = (c, d2)" by fastforce
  show ?case
    using Cons.prems Cons.IH [of d1] Cons.IH [of d2] read32 [OF 1] read32 [OF 2] 1 2
    by (auto simp: slot is_blk_def Let_def split: if_splits)
qed simp

end

text \<open>
  The executable configuration space: the address port latches, the data port reads or merges into the
  latched dword.
\<close>

definition config_ports :: "(u32 \<Rightarrow> u32) \<Rightarrow> (u32 \<times> (u32 \<Rightarrow> u32)) bus" where
  "config_ports w = \<lparr>is_mmio = \<lambda>_. False, mmio_read = \<lambda>_ _ d. (0, d), mmio_write = \<lambda>_ _ _ dm. dm,
     spin_loop = \<lambda>dm. dm,
     port_read = \<lambda>p _ (sel, c). (if p = CONFIG_DATA then c sel else sel, (sel, c)),
     port_write = \<lambda>p _ v (sel, c).
       if p = CONFIG_ADDR then (v, c)
       else if p = CONFIG_DATA then (sel, c(sel := (v AND w sel) OR (c sel AND NOT (w sel))))
       else (sel, c)\<rparr>"

interpretation cs: pci_config "config_ports w" snd w for w
  by unfold_locales (auto simp: config_ports_def CONFIG_ADDR_def CONFIG_DATA_def)

section \<open>Properties\<close>

text \<open>
  A BAR of \<open>2 ^ k\<close> bytes: the address bits from \<open>k\<close> up are writable, those below read as zero; the
  lowest \<open>t\<close> bits carry the type.
\<close>

definition power_bar :: "nat \<Rightarrow> nat \<Rightarrow> 'a::len word \<Rightarrow> 'a word \<Rightarrow> bool" where
  "power_bar t k raw m \<longleftrightarrow>
    t \<le> k \<and> k < LENGTH('a) \<and> m = NOT (mask k) \<and> raw AND mask k = raw AND mask t"

lemma power_bar_bits:
  fixes raw m :: "'a::len word"
  assumes "power_bar t k raw m" "n < LENGTH('a)"
  shows "bit m n \<longleftrightarrow> k \<le> n" and "t \<le> n \<Longrightarrow> n < k \<Longrightarrow> \<not> bit raw n"
proof -
  have "bit (raw AND mask k) n = bit (raw AND mask t) n" using assms by (simp add: power_bar_def)
  then show "t \<le> n \<Longrightarrow> n < k \<Longrightarrow> \<not> bit raw n" using assms(2) by (simp add: bit_simps)
qed (use assms in \<open>auto simp: power_bar_def bit_simps\<close>)

lemma size_mask_32:
  fixes raw m :: u32
  assumes "power_bar t k raw m"
  shows "(m OR (raw AND NOT m)) AND NOT (mask t) = NOT (mask k)" and "raw AND NOT (mask t) = raw AND NOT (mask k)"
  using power_bar_bits [OF assms] assms
  by (auto intro!: bit_word_eqI simp: bit_simps power_bar_def not_less [symmetric])

lemma size_mask_64:
  fixes raw m raw_hi m_hi :: u32
  assumes "power_bar 4 k (ucast raw OR push_bit 32 (ucast raw_hi) :: u64) (ucast m OR push_bit 32 (ucast m_hi))"
  shows "ucast ((m OR (raw AND NOT m)) AND NOT (mask 4)) OR push_bit 32 (ucast (m_hi OR (raw_hi AND NOT m_hi))) =
      NOT (mask k :: u64)"
proof (rule bit_word_eqI)
  fix n assume "n < LENGTH(64)"
  then have n: "n < 64" by simp
  then show "bit (ucast ((m OR (raw AND NOT m)) AND NOT (mask 4)) OR
        push_bit 32 (ucast (m_hi OR (raw_hi AND NOT m_hi))) :: u64) n \<longleftrightarrow> bit (NOT (mask k) :: u64) n"
    using power_bar_bits [OF assms, of n] assms
    by (cases "n < 32") (auto simp: bit_simps power_bar_def dest: bit_imp_le_length)
qed

lemma not_mask_plus_1: "NOT (NOT (mask k)) + 1 = (2 ^ k :: 'a::len word)"
  by (simp add: mask_eq_exp_minus_1)

lemma bar_masks: "(0xFFFFFFF0 :: u32) = NOT (mask 4)" "(0xFFFFFFFC :: u32) = NOT (mask 2)"
  by (simp_all add: mask_eq_exp_minus_1)

lemma ucast_exp: "power_bar t k raw (m :: u32) \<Longrightarrow> ucast (2 ^ k :: u32) = (2 ^ k :: u64)"
  by (rule bit_word_eqI) (auto simp: power_bar_def bit_simps)

lemma decode_bar_size:
  assumes "raw \<noteq> 0"
  shows "power_bar 2 k raw m \<Longrightarrow> bit raw 0 \<Longrightarrow>
      decode_bar raw m raw_hi m_hi =
        \<lparr>bar_addr = ucast (raw AND NOT (mask k)), bar_size = 2 ^ k, is_io = True, is_64 = False\<rparr>"
    and "power_bar 4 k raw m \<Longrightarrow> \<not> bit raw 0 \<Longrightarrow> drop_bit 1 raw AND 3 \<noteq> 2 \<Longrightarrow>
      decode_bar raw m raw_hi m_hi =
        \<lparr>bar_addr = ucast (raw AND NOT (mask k)), bar_size = 2 ^ k, is_io = False, is_64 = False\<rparr>"
    and "power_bar 4 j (ucast raw OR push_bit 32 (ucast raw_hi) :: u64) (ucast m OR push_bit 32 (ucast m_hi)) \<Longrightarrow>
      \<not> bit raw 0 \<Longrightarrow> drop_bit 1 raw AND 3 = 2 \<Longrightarrow>
      decode_bar raw m raw_hi m_hi =
        \<lparr>bar_addr = ucast (raw AND NOT (mask 4)) OR push_bit 32 (ucast raw_hi), bar_size = 2 ^ j,
          is_io = False, is_64 = True\<rparr>"
proof -
  have b: "raw AND 1 \<noteq> 0 \<longleftrightarrow> bit raw 0" by (simp add: and_one_eq mod_2_eq_odd bit_0)
  note defs = decode_bar_def Let_def bar_masks b assms if_False if_True simp_thms
  show "power_bar 2 k raw m \<Longrightarrow> bit raw 0 \<Longrightarrow>
      decode_bar raw m raw_hi m_hi =
        \<lparr>bar_addr = ucast (raw AND NOT (mask k)), bar_size = 2 ^ k, is_io = True, is_64 = False\<rparr>"
    by (simp only: defs size_mask_32 not_mask_plus_1 ucast_exp)
  show "power_bar 4 k raw m \<Longrightarrow> \<not> bit raw 0 \<Longrightarrow> drop_bit 1 raw AND 3 \<noteq> 2 \<Longrightarrow>
      decode_bar raw m raw_hi m_hi =
        \<lparr>bar_addr = ucast (raw AND NOT (mask k)), bar_size = 2 ^ k, is_io = False, is_64 = False\<rparr>"
    by (simp only: defs size_mask_32 not_mask_plus_1 ucast_exp)
  show "power_bar 4 j (ucast raw OR push_bit 32 (ucast raw_hi) :: u64) (ucast m OR push_bit 32 (ucast m_hi)) \<Longrightarrow>
      \<not> bit raw 0 \<Longrightarrow> drop_bit 1 raw AND 3 = 2 \<Longrightarrow>
      decode_bar raw m raw_hi m_hi =
        \<lparr>bar_addr = ucast (raw AND NOT (mask 4)) OR push_bit 32 (ucast raw_hi), bar_size = 2 ^ j,
          is_io = False, is_64 = True\<rparr>"
    by (simp only: defs size_mask_64 not_mask_plus_1)
qed

text \<open>
  C34: \<^verbatim>\<open>bar_info\<close> leaves the configuration space as it found it, and of a BAR that decodes \<open>2 ^ k\<close>
  bytes it reports the size \<open>2 ^ k\<close> and the programmed base, for an I/O BAR, a 32-bit memory BAR and a
  64-bit memory BAR spread over two dwords; an all-zero BAR reports size 0.
\<close>

theorem bar_info_sizes:
  assumes "pci_config B cfg rw" and "bar_info B bus dev func i d = (b, d')"
    and "a = cfg_addr bus dev func (0x10 + ucast i * 4)" and "h = cfg_addr bus dev func (0x10 + ucast i * 4 + 4)"
  shows "cfg d' = cfg d \<and>
    (cfg d a = 0 \<longrightarrow> bar_size b = 0) \<and>
    (cfg d a \<noteq> 0 \<and> bit (cfg d a) 0 \<and> power_bar 2 k (cfg d a) (rw a) \<longrightarrow>
      b = \<lparr>bar_addr = ucast (cfg d a AND NOT (mask k)), bar_size = 2 ^ k, is_io = True, is_64 = False\<rparr>) \<and>
    (cfg d a \<noteq> 0 \<and> \<not> bit (cfg d a) 0 \<and> drop_bit 1 (cfg d a) AND 3 \<noteq> 2 \<and> power_bar 4 k (cfg d a) (rw a) \<longrightarrow>
      b = \<lparr>bar_addr = ucast (cfg d a AND NOT (mask k)), bar_size = 2 ^ k, is_io = False, is_64 = False\<rparr>) \<and>
    (cfg d a \<noteq> 0 \<and> \<not> bit (cfg d a) 0 \<and> drop_bit 1 (cfg d a) AND 3 = 2 \<and>
       power_bar 4 k (ucast (cfg d a) OR push_bit 32 (ucast (cfg d h)) :: u64) (ucast (rw a) OR push_bit 32 (ucast (rw h))) \<longrightarrow>
      b = \<lparr>bar_addr = ucast (cfg d a AND NOT (mask 4)) OR push_bit 32 (ucast (cfg d h)), bar_size = 2 ^ k,
            is_io = False, is_64 = True\<rparr>)"
  using pci_config.bar_info_result [OF assms(1,2)] assms(3,4)
  by (auto simp: decode_bar_size) (simp add: decode_bar_def)

text \<open>A 16 KiB 64-bit BAR at \<open>0x8_0000_0000\<close>, in slot 4 of function 00:03.0.\<close>

definition demo_cfg :: "u32 \<Rightarrow> u32" where
  "demo_cfg = (\<lambda>_. 0)(cfg_addr 0 3 0 0 := 0x10421AF4, cfg_addr 0 3 0 8 := 0x01000000,
     cfg_addr 0 3 0 0x20 := 0xC, cfg_addr 0 3 0 0x24 := 8)"

definition demo_rw :: "u32 \<Rightarrow> u32" where
  "demo_rw = (\<lambda>_. 0)(cfg_addr 0 3 0 0x20 := 0xFFFFC000, cfg_addr 0 3 0 0x24 := 0xFFFFFFFF)"

theorem bar_info_sizes_witness:
  "fst (bar_info (config_ports demo_rw) 0 3 0 4 (0, demo_cfg)) =
     \<lparr>bar_addr = 0x800000000, bar_size = 0x4000, is_io = False, is_64 = True\<rparr>"
proof -
  obtain b d' where r: "bar_info (config_ports demo_rw) 0 3 0 4 (0, demo_cfg) = (b, d')" by (rule prod.exhaust)
  have "power_bar 4 14 (ucast (demo_cfg (cfg_addr 0 3 0 0x20)) OR push_bit 32 (ucast (demo_cfg (cfg_addr 0 3 0 0x24))) :: u64)
      (ucast (demo_rw (cfg_addr 0 3 0 0x20)) OR push_bit 32 (ucast (demo_rw (cfg_addr 0 3 0 0x24))))"
    by (simp add: power_bar_def demo_cfg_def demo_rw_def cfg_addr_def mask_eq_exp_minus_1)
  then show ?thesis
    using bar_info_sizes [OF cs.pci_config_axioms r refl refl, of 14] r
    by (simp add: demo_cfg_def cfg_addr_def mask_eq_exp_minus_1)
qed

text \<open>
  C35: The boot scan is read-only in effect: \<^verbatim>\<open>scan\<close> leaves every dword of the configuration space
  as it was. \<^verbatim>\<open>find_virtio_blk\<close> returns the first function of bus 0, in device and function
  order, whose vendor and class say virtio storage, and \<open>None\<close> only when there is none.
\<close>

theorem pci_scan_and_find:
  assumes "pci_config B cfg rw"
  shows "cfg (snd (scan B d)) = cfg d \<and>
    (\<forall>r d'. find_virtio_blk B d = (r, d') \<longrightarrow> cfg d' = cfg d \<and>
      r = map_option (\<lambda>slot. (0, slot))
            (find (is_blk (cfg d)) [(of_nat dev, of_nat func). dev \<leftarrow> [0..<32], func \<leftarrow> [0..<8]]))"
  using pci_config.scan_devs_restores [OF assms] pci_config.find_in_spec [OF assms]
  unfolding scan_def find_virtio_blk_def first_blk_find by (metis prod.collapse)

theorem pci_scan_and_find_witness:
  "fst (find_virtio_blk (config_ports demo_rw) (0, demo_cfg)) = Some (0, 3, 0)"
proof -
  obtain r d' where r: "find_virtio_blk (config_ports demo_rw) (0, demo_cfg) = (r, d')" by (rule prod.exhaust)
  have "find (is_blk demo_cfg) [(of_nat dev, of_nat func). dev \<leftarrow> [0..<32], func \<leftarrow> [0..<8]] = Some (3, 0)"
    by code_simp
  then show ?thesis
    using pci_scan_and_find [OF cs.pci_config_axioms, of demo_rw "(0, demo_cfg)"] r by (cases d') simp
qed

end
