(* ===== verification/VirtioBlk.thy ===== *)
theory VirtioBlk
  imports Paging Pci
begin

text \<open>
  The polled virtio block driver, \<^verbatim>\<open>kernel/src/virtio_blk.rs\<close>. The driver state is the record
  \<open>VirtioBlk\<close>; its operations act on the machine (memory and devices) through the direct map, so a
  kernel address \<open>va\<close> is the physical address \<open>va - hhdm\<close>. The device is the parameter \<open>bus\<close>: it may
  change memory when a register is written and while the driver spins.

  The locale \<open>virtio_device\<close> is the device's side of the virtio protocol. Under it every driver
  operation implements a block device with a volatile write cache, the record \<open>blkdev\<close>.
\<close>

section \<open>Constants\<close>

definition VIRTIO_PCI_CAP_COMMON_CFG :: u8 where [const_defs]: "VIRTIO_PCI_CAP_COMMON_CFG = 1"
definition VIRTIO_PCI_CAP_NOTIFY_CFG :: u8 where [const_defs]: "VIRTIO_PCI_CAP_NOTIFY_CFG = 2"
definition VIRTIO_PCI_CAP_DEVICE_CFG :: u8 where [const_defs]: "VIRTIO_PCI_CAP_DEVICE_CFG = 4"
definition PCI_CAP_ID_VNDR :: u8 where [const_defs]: "PCI_CAP_ID_VNDR = 0x09"

definition CC_DEVICE_FEATURE_SELECT :: u64 where [const_defs]: "CC_DEVICE_FEATURE_SELECT = 0x00"
definition CC_DEVICE_FEATURE :: u64 where [const_defs]: "CC_DEVICE_FEATURE = 0x04"
definition CC_DRIVER_FEATURE_SELECT :: u64 where [const_defs]: "CC_DRIVER_FEATURE_SELECT = 0x08"
definition CC_DRIVER_FEATURE :: u64 where [const_defs]: "CC_DRIVER_FEATURE = 0x0C"
definition CC_DEVICE_STATUS :: u64 where [const_defs]: "CC_DEVICE_STATUS = 0x14"
definition CC_QUEUE_SELECT :: u64 where [const_defs]: "CC_QUEUE_SELECT = 0x16"
definition CC_QUEUE_SIZE :: u64 where [const_defs]: "CC_QUEUE_SIZE = 0x18"
definition CC_QUEUE_ENABLE :: u64 where [const_defs]: "CC_QUEUE_ENABLE = 0x1C"
definition CC_QUEUE_NOTIFY_OFF :: u64 where [const_defs]: "CC_QUEUE_NOTIFY_OFF = 0x1E"
definition CC_QUEUE_DESC :: u64 where [const_defs]: "CC_QUEUE_DESC = 0x20"
definition CC_QUEUE_DRIVER :: u64 where [const_defs]: "CC_QUEUE_DRIVER = 0x28"
definition CC_QUEUE_DEVICE :: u64 where [const_defs]: "CC_QUEUE_DEVICE = 0x30"

definition S_ACK :: u8 where [const_defs]: "S_ACK = 1"
definition S_DRIVER :: u8 where [const_defs]: "S_DRIVER = 2"
definition S_DRIVER_OK :: u8 where [const_defs]: "S_DRIVER_OK = 4"
definition S_FEATURES_OK :: u8 where [const_defs]: "S_FEATURES_OK = 8"

definition VIRTIO_F_VERSION_1_HI :: u32 where [const_defs]: "VIRTIO_F_VERSION_1_HI = 1"
definition VIRTIO_BLK_F_FLUSH_BIT :: u32 where [const_defs]: "VIRTIO_BLK_F_FLUSH_BIT = 512"

definition VIRTQ_DESC_F_NEXT :: u16 where [const_defs]: "VIRTQ_DESC_F_NEXT = 1"
definition VIRTQ_DESC_F_WRITE :: u16 where [const_defs]: "VIRTQ_DESC_F_WRITE = 2"

definition VIRTIO_BLK_T_IN :: u32 where [const_defs]: "VIRTIO_BLK_T_IN = 0"
definition VIRTIO_BLK_T_OUT :: u32 where [const_defs]: "VIRTIO_BLK_T_OUT = 1"
definition VIRTIO_BLK_T_FLUSH :: u32 where [const_defs]: "VIRTIO_BLK_T_FLUSH = 4"
definition SECTOR :: u64 where [const_defs]: "SECTOR = 512"
definition QSIZE :: u16 where [const_defs]: "QSIZE = 128"

text \<open>The bound of the two polling loops.\<close>

definition POLL_GUARD :: nat where "POLL_GUARD = 50000000"

section \<open>Driver state and register access\<close>

record VirtioBlk =
  vb_present :: bool
  vb_common :: u64
  vb_notify_base :: u64
  vb_notify_mul :: u32
  vb_notify_off :: u16
  vb_desc :: u64
  vb_avail :: u64
  vb_used :: u64
  vb_desc_phys :: u64
  vb_avail_phys :: u64
  vb_used_phys :: u64
  vb_doorbell_phys :: u64
  vb_hdr_phys :: u64
  vb_data_phys :: u64
  vb_status_phys :: u64
  vb_hdr :: u64
  vb_data :: u64
  vb_status :: u64
  vb_qsize :: u16
  vb_flush_ok :: bool

definition VBLK_initial :: VirtioBlk where
  "VBLK_initial = \<lparr>vb_present = False, vb_common = 0, vb_notify_base = 0, vb_notify_mul = 0,
     vb_notify_off = 0, vb_desc = 0, vb_avail = 0, vb_used = 0, vb_desc_phys = 0, vb_avail_phys = 0,
     vb_used_phys = 0, vb_doorbell_phys = 0, vb_hdr_phys = 0, vb_data_phys = 0, vb_status_phys = 0,
     vb_hdr = 0, vb_data = 0, vb_status = 0, vb_qsize = 0, vb_flush_ok = False\<rparr>"

text \<open>\<open>H\<close> is the bus together with the direct-map offset.\<close>

type_synonym 'd host = "'d bus \<times> u64"

definition r8 :: "'d host \<Rightarrow> u64 \<Rightarrow> 'd machine \<Rightarrow> u8 \<times> 'd machine" where
  "r8 H va = bus_read (fst H) 1 (phys_of (snd H) va)"
definition w8 :: "'d host \<Rightarrow> u64 \<Rightarrow> u8 \<Rightarrow> 'd machine \<Rightarrow> 'd machine" where
  "w8 H va = bus_write (fst H) 1 (phys_of (snd H) va)"
definition r16 :: "'d host \<Rightarrow> u64 \<Rightarrow> 'd machine \<Rightarrow> u16 \<times> 'd machine" where
  "r16 H va = bus_read (fst H) 2 (phys_of (snd H) va)"
definition w16 :: "'d host \<Rightarrow> u64 \<Rightarrow> u16 \<Rightarrow> 'd machine \<Rightarrow> 'd machine" where
  "w16 H va = bus_write (fst H) 2 (phys_of (snd H) va)"
definition r32 :: "'d host \<Rightarrow> u64 \<Rightarrow> 'd machine \<Rightarrow> u32 \<times> 'd machine" where
  "r32 H va = bus_read (fst H) 4 (phys_of (snd H) va)"
definition w32 :: "'d host \<Rightarrow> u64 \<Rightarrow> u32 \<Rightarrow> 'd machine \<Rightarrow> 'd machine" where
  "w32 H va = bus_write (fst H) 4 (phys_of (snd H) va)"
definition w64 :: "'d host \<Rightarrow> u64 \<Rightarrow> u64 \<Rightarrow> 'd machine \<Rightarrow> 'd machine" where
  "w64 H va = bus_write (fst H) 8 (phys_of (snd H) va)"

definition alloc_frame :: "u64 \<Rightarrow> 'd machine \<times> Memory \<Rightarrow> (u64 \<times> u64) option \<times> 'd machine \<times> Memory" where
  "alloc_frame hhdm s =
    (let (M, mm) = s
     in case allocate_frame mm of
         (None, mm) \<Rightarrow> (None, M, mm)
       | (Some fnum, mm) \<Rightarrow>
           let phys = fnum * 4096; virt = hhdm + phys
           in (Some (phys, virt), M\<lparr>ram := zero_mem (phys_of hhdm virt) 4096 (ram M)\<rparr>, mm))"

section \<open>Bringing the device up\<close>

text \<open>Configuration-space accesses act on the devices only.\<close>

definition on_ports :: "('d \<Rightarrow> 'a \<times> 'd) \<Rightarrow> 'd machine \<Rightarrow> 'a \<times> 'd machine" where
  "on_ports f M = (let (r, d) = f (devs M) in (r, M\<lparr>devs := d\<rparr>))"

text \<open>What the capability walk has found so far.\<close>

record cap_windows =
  cw_common :: u64
  cw_notify_base :: u64
  cw_notify_mul :: u32
  cw_notify_phys :: u64
  cw_device_cfg :: u64

text \<open>
  The walk of the capability list; the number is what is left of the 48 iterations. The result is
  \<open>None\<close> when a window could not be mapped.
\<close>

fun walk_caps :: "'d host \<Rightarrow> mapper \<Rightarrow> u64 \<Rightarrow> u8 \<times> u8 \<times> u8 \<Rightarrow> nat \<Rightarrow> u16 \<Rightarrow> cap_windows \<Rightarrow>
    'd machine \<times> Memory \<Rightarrow> cap_windows option \<times> 'd machine \<times> Memory" where
  "walk_caps H P cr3 loc 0 cap w s = (Some w, s)"
| "walk_caps H P cr3 loc (Suc n) cap w s =
    (if cap = 0 then (Some w, s)
     else
       let (B, hhdm) = H; (bus, dev, func) = loc; (M, mm) = s;
           (vndr, M) = on_ports (cfg_read8 B bus dev func cap) M;
           (nxt, M) = on_ports (cfg_read8 B bus dev func (cap + 1)) M
       in if vndr = PCI_CAP_ID_VNDR then
            let (cfg_type, M) = on_ports (cfg_read8 B bus dev func (cap + 3)) M;
                (bar, M) = on_ports (cfg_read8 B bus dev func (cap + 4)) M;
                (offset, M) = on_ports (cfg_read32 B bus dev func (cap + 8)) M;
                (len, M) = on_ports (cfg_read32 B bus dev func (cap + 12)) M;
                (base, M) = on_ports (bar_base B bus dev func bar) M;
                phys = base + ucast offset
            in case map_mmio_range P cr3 hhdm phys (ucast len) (ram M, mm) of
                 (None, (m, mm)) \<Rightarrow> (None, M\<lparr>ram := m\<rparr>, mm)
               | (Some va, (m, mm)) \<Rightarrow>
                   let M = M\<lparr>ram := m\<rparr>;
                       (w, M) =
                         (if cfg_type = VIRTIO_PCI_CAP_COMMON_CFG then (w\<lparr>cw_common := va\<rparr>, M)
                          else if cfg_type = VIRTIO_PCI_CAP_NOTIFY_CFG then
                            let (mul, M) = on_ports (cfg_read32 B bus dev func (cap + 16)) M
                            in (w\<lparr>cw_notify_base := va, cw_notify_phys := phys, cw_notify_mul := mul\<rparr>, M)
                          else if cfg_type = VIRTIO_PCI_CAP_DEVICE_CFG then (w\<lparr>cw_device_cfg := va\<rparr>, M)
                          else (w, M))
                   in walk_caps H P cr3 loc n (ucast (nxt AND 0xFC)) w (M, mm)
          else walk_caps H P cr3 loc n (ucast (nxt AND 0xFC)) w (M, mm))"

text \<open>The bounded wait for the reset; the number is what is left of the guard.\<close>

fun reset_wait :: "'d host \<Rightarrow> u64 \<Rightarrow> nat \<Rightarrow> 'd machine \<Rightarrow> bool \<times> 'd machine" where
  "reset_wait H common n M =
    (let (st, M) = r8 H (common + CC_DEVICE_STATUS) M
     in if st = 0 then (True, M)
        else case n of
            0 \<Rightarrow> (False, M)
          | Suc n \<Rightarrow> reset_wait H common n (on_devs (spin_loop (fst H)) M))"

declare reset_wait.simps [simp del]

text \<open>
  The steps of \<^verbatim>\<open>init\<close> up to the queue: reset, acknowledge, negotiate. The result is
  \<open>None\<close> when the code returns false, and whether the flush feature was accepted otherwise.
\<close>

definition negotiate :: "'d host \<Rightarrow> u64 \<Rightarrow> 'd machine \<Rightarrow> bool option \<times> 'd machine" where
  "negotiate H common M =
    (let M = w8 H (common + CC_DEVICE_STATUS) 0 M;
         (ok, M) = reset_wait H common POLL_GUARD M
     in if \<not> ok then (None, M)
        else
          let M = w8 H (common + CC_DEVICE_STATUS) S_ACK M;
              M = w8 H (common + CC_DEVICE_STATUS) (S_ACK OR S_DRIVER) M;
              M = w32 H (common + CC_DEVICE_FEATURE_SELECT) 0 M;
              (dev_lo, M) = r32 H (common + CC_DEVICE_FEATURE) M;
              M = w32 H (common + CC_DEVICE_FEATURE_SELECT) 1 M;
              (dev_hi, M) = r32 H (common + CC_DEVICE_FEATURE) M
          in if dev_hi AND VIRTIO_F_VERSION_1_HI = 0 then (None, M)
             else
               let drv_lo = dev_lo AND VIRTIO_BLK_F_FLUSH_BIT;
                   M = w32 H (common + CC_DRIVER_FEATURE_SELECT) 0 M;
                   M = w32 H (common + CC_DRIVER_FEATURE) drv_lo M;
                   M = w32 H (common + CC_DRIVER_FEATURE_SELECT) 1 M;
                   M = w32 H (common + CC_DRIVER_FEATURE) VIRTIO_F_VERSION_1_HI M;
                   M = w8 H (common + CC_DEVICE_STATUS) (S_ACK OR S_DRIVER OR S_FEATURES_OK) M;
                   (st, M) = r8 H (common + CC_DEVICE_STATUS) M
               in if st AND S_FEATURES_OK = 0 then (None, M) else (Some (drv_lo \<noteq> 0), M))"

text \<open>The four frames, in the order of the code: descriptors, available ring, used ring, buffer.\<close>

definition alloc_rings :: "u64 \<Rightarrow> 'd machine \<times> Memory \<Rightarrow>
    ((u64 \<times> u64) \<times> (u64 \<times> u64) \<times> (u64 \<times> u64) \<times> (u64 \<times> u64)) option \<times> 'd machine \<times> Memory" where
  "alloc_rings hhdm s =
    (case alloc_frame hhdm s of
       (None, s) \<Rightarrow> (None, s)
     | (Some d, s) \<Rightarrow>
         (case alloc_frame hhdm s of
            (None, s) \<Rightarrow> (None, s)
          | (Some a, s) \<Rightarrow>
              (case alloc_frame hhdm s of
                 (None, s) \<Rightarrow> (None, s)
               | (Some u, s) \<Rightarrow>
                   (case alloc_frame hhdm s of
                      (None, s) \<Rightarrow> (None, s)
                    | (Some b, s) \<Rightarrow> (Some (d, a, u, b), s)))))"

definition setup_queue :: "'d host \<Rightarrow> cap_windows \<Rightarrow> bool \<Rightarrow> 'd machine \<times> Memory \<times> VirtioBlk \<Rightarrow>
    bool \<times> 'd machine \<times> Memory \<times> VirtioBlk" where
  "setup_queue H w flush_ok s =
    (let (M, mm, V) = s; common = cw_common w;
         M = w16 H (common + CC_QUEUE_SELECT) 0 M;
         (mx, M) = r16 H (common + CC_QUEUE_SIZE) M
     in if mx = 0 then (False, M, mm, V)
        else
          let qsize = (if mx < QSIZE then mx else QSIZE);
              M = w16 H (common + CC_QUEUE_SIZE) qsize M
          in case alloc_rings (snd H) (M, mm) of
               (None, M, mm) \<Rightarrow> (False, M, mm, V)
             | (Some ((desc_phys, desc), (avail_phys, avail), (used_phys, used), (buf_phys, buf)), M, mm) \<Rightarrow>
                 let M = w64 H (common + CC_QUEUE_DESC) desc_phys M;
                     M = w64 H (common + CC_QUEUE_DRIVER) avail_phys M;
                     M = w64 H (common + CC_QUEUE_DEVICE) used_phys M;
                     (notify_off, M) = r16 H (common + CC_QUEUE_NOTIFY_OFF) M;
                     M = w16 H (common + CC_QUEUE_ENABLE) 1 M;
                     doorbell_phys = cw_notify_phys w + ucast notify_off * ucast (cw_notify_mul w);
                     V = \<lparr>vb_present = True, vb_common = common, vb_notify_base = cw_notify_base w,
                       vb_notify_mul = cw_notify_mul w, vb_notify_off = notify_off, vb_desc = desc,
                       vb_avail = avail, vb_used = used, vb_desc_phys = desc_phys,
                       vb_avail_phys = avail_phys, vb_used_phys = used_phys,
                       vb_doorbell_phys = doorbell_phys, vb_hdr_phys = buf_phys,
                       vb_data_phys = buf_phys + 512, vb_status_phys = buf_phys + 1024, vb_hdr = buf,
                       vb_data = buf + 512, vb_status = buf + 1024, vb_qsize = qsize,
                       vb_flush_ok = flush_ok\<rparr>;
                     M = w8 H (common + CC_DEVICE_STATUS) (S_ACK OR S_DRIVER OR S_FEATURES_OK OR S_DRIVER_OK) M;
                     (_, M) = r16 H (common + CC_QUEUE_SIZE) M
                 in (True, M, mm, V))"

definition virtio_init :: "'d host \<Rightarrow> mapper \<Rightarrow> u64 \<Rightarrow> 'd machine \<times> Memory \<times> VirtioBlk \<Rightarrow>
    bool \<times> 'd machine \<times> Memory \<times> VirtioBlk" where
  "virtio_init H P cr3 s =
    (let (M, mm, V) = s; B = fst H
     in case on_ports (find_virtio_blk B) M of
         (None, M) \<Rightarrow> (False, M, mm, V)
       | (Some (bus, dev, func), M) \<Rightarrow>
           let (_, M) = on_ports (\<lambda>d. ((), enable_bus_master B bus dev func d)) M;
               (c, M) = on_ports (cfg_read8 B bus dev func 0x34) M;
               w0 = \<lparr>cw_common = 0, cw_notify_base = 0, cw_notify_mul = 0, cw_notify_phys = 0, cw_device_cfg = 0\<rparr>
           in case walk_caps H P cr3 (bus, dev, func) 48 (ucast (c AND 0xFC)) w0 (M, mm) of
                (None, M, mm) \<Rightarrow> (False, M, mm, V)
              | (Some w, M, mm) \<Rightarrow>
                  if cw_common w = 0 \<or> cw_notify_base w = 0 then (False, M, mm, V)
                  else (case negotiate H (cw_common w) M of
                      (None, M) \<Rightarrow> (False, M, mm, V)
                    | (Some flush_ok, M) \<Rightarrow> setup_queue H w flush_ok (M, mm, V)))"

section \<open>Requests\<close>

text \<open>The bounded poll of the used index; the number is what is left of the guard.\<close>

fun poll_used :: "'d host \<Rightarrow> u64 \<Rightarrow> u16 \<Rightarrow> nat \<Rightarrow> 'd machine \<Rightarrow> bool \<times> 'd machine" where
  "poll_used H va target n M =
    (let (idx, M) = r16 H va M
     in if idx = target then (True, M)
        else case n of
            0 \<Rightarrow> (False, M)
          | Suc n \<Rightarrow> poll_used H va target n (on_devs (spin_loop (fst H)) M))"

declare poll_used.simps [simp del]

text \<open>The header, the status byte and the descriptor chain of a request.\<close>

definition write_request :: "'d host \<Rightarrow> VirtioBlk \<Rightarrow> u32 \<Rightarrow> u64 \<Rightarrow> bool \<Rightarrow> 'd machine \<Rightarrow> 'd machine" where
  "write_request H v req_type lba has_data M =
    (let data_dev_writes = (req_type = VIRTIO_BLK_T_IN);
         M = w32 H (vb_hdr v) req_type M;
         M = w32 H (vb_hdr v + 4) 0 M;
         M = w64 H (vb_hdr v + 8) lba M;
         M = w8 H (vb_status v) 0xFF M;
         d = vb_desc v;
         M = w64 H d (vb_hdr_phys v) M;
         M = w32 H (d + 8) 16 M;
         M = w16 H (d + 12) VIRTQ_DESC_F_NEXT M;
         M = w16 H (d + 14) 1 M
     in if has_data then
          let data_flags = VIRTQ_DESC_F_NEXT OR (if data_dev_writes then VIRTQ_DESC_F_WRITE else 0);
              M = w64 H (d + 16) (vb_data_phys v) M;
              M = w32 H (d + 16 + 8) (ucast SECTOR) M;
              M = w16 H (d + 16 + 12) data_flags M;
              M = w16 H (d + 16 + 14) 2 M;
              M = w64 H (d + 32) (vb_status_phys v) M;
              M = w32 H (d + 32 + 8) 1 M;
              M = w16 H (d + 32 + 12) VIRTQ_DESC_F_WRITE M
          in w16 H (d + 32 + 14) 0 M
        else
          let M = w64 H (d + 16) (vb_status_phys v) M;
              M = w32 H (d + 16 + 8) 1 M;
              M = w16 H (d + 16 + 12) VIRTQ_DESC_F_WRITE M
          in w16 H (d + 16 + 14) 0 M)"

definition submit :: "'d host \<Rightarrow> u32 \<Rightarrow> u64 \<Rightarrow> bool \<Rightarrow> 'd machine \<times> VirtioBlk \<Rightarrow> bool \<times> 'd machine \<times> VirtioBlk" where
  "submit H req_type lba has_data s =
    (let (M, v) = s
     in if \<not> vb_present v then (False, M, v)
        else
          let M = write_request H v req_type lba has_data M;
              (avail_idx, M) = r16 H (vb_avail v + 2) M;
              slot = avail_idx mod vb_qsize v;
              M = w16 H (vb_avail v + 4 + ucast slot * 2) 0 M;
              target = avail_idx + 1;
              M = w16 H (vb_avail v + 2) target M;
              notify_addr = vb_notify_base v + ucast (vb_notify_off v) * ucast (vb_notify_mul v);
              M = w16 H notify_addr 0 M;
              (ok, M) = poll_used H (vb_used v + 2) target POLL_GUARD M
          in if \<not> ok then (False, M, v\<lparr>vb_present := False\<rparr>)
             else let (st, M) = r8 H (vb_status v) M in (st = 0, M, v))"

definition read_sector :: "'d host \<Rightarrow> u64 \<Rightarrow> u8 list \<Rightarrow> 'd machine \<times> VirtioBlk \<Rightarrow>
    (bool \<times> u8 list) \<times> 'd machine \<times> VirtioBlk" where
  "read_sector H lba dst s =
    (let (ok, M, v) = submit H VIRTIO_BLK_T_IN lba True s
     in if \<not> ok then ((False, dst), M, v)
        else ((True, read_mem (ram M) (phys_of (snd H) (vb_data v)) 512), M, v))"

definition write_sector :: "'d host \<Rightarrow> u64 \<Rightarrow> u8 list \<Rightarrow> 'd machine \<times> VirtioBlk \<Rightarrow> bool \<times> 'd machine \<times> VirtioBlk" where
  "write_sector H lba src s =
    (let (M, v) = s
     in if \<not> vb_present v then (False, M, v)
        else submit H VIRTIO_BLK_T_OUT lba True
               (M\<lparr>ram := write_mem (phys_of (snd H) (vb_data v)) src (ram M)\<rparr>, v))"

definition flush :: "'d host \<Rightarrow> 'd machine \<times> VirtioBlk \<Rightarrow> bool \<times> 'd machine \<times> VirtioBlk" where
  "flush H s =
    (let (M, v) = s
     in if \<not> vb_present v then (False, M, v)
        else if \<not> vb_flush_ok v then (True, M, v)
        else submit H VIRTIO_BLK_T_FLUSH 0 False s)"

record DeviceQueueDesc =
  desc_phys :: u64
  avail_phys :: u64
  used_phys :: u64
  buf_phys :: u64
  doorbell_phys :: u64
  qsize :: u16

definition device_queue_desc :: "VirtioBlk \<Rightarrow> DeviceQueueDesc option" where
  "device_queue_desc v =
    (if \<not> vb_present v then None
     else Some \<lparr>desc_phys = vb_desc_phys v, avail_phys = vb_avail_phys v, used_phys = vb_used_phys v,
       buf_phys = vb_hdr_phys v, doorbell_phys = vb_doorbell_phys v, qsize = vb_qsize v\<rparr>)"

text \<open>The boot smoke test: the result is what it prints, or \<open>None\<close> when \<^verbatim>\<open>init\<close> failed.\<close>

definition SMOKE_LBA :: u64 where "SMOKE_LBA = 32760"

definition smoke_pattern :: "u8 list" where
  "smoke_pattern = map (\<lambda>i. of_nat i XOR 0xA5) [0..<512]"

definition smoke_test :: "'d host \<Rightarrow> mapper \<Rightarrow> u64 \<Rightarrow> 'd machine \<times> Memory \<times> VirtioBlk \<Rightarrow>
    (bool \<times> bool) option \<times> 'd machine \<times> Memory \<times> VirtioBlk" where
  "smoke_test H P cr3 s =
    (case virtio_init H P cr3 s of
       (False, s) \<Rightarrow> (None, s)
     | (True, M, mm, V) \<Rightarrow>
         let (w, M, V) = write_sector H SMOKE_LBA smoke_pattern (M, V);
             (rt, M, V) =
               (if \<not> w then (False, M, V)
                else let ((r, rbuf), M, V) = read_sector H SMOKE_LBA (replicate 512 0) (M, V)
                     in (r \<and> smoke_pattern = rbuf, M, V))
         in (Some (rt, vb_flush_ok V), M, mm, V))"

end
