(* ===== verification/BlockLayer.thy ===== *)
theory BlockLayer
  imports Machine
begin

text \<open>
  Block storage as the object store sees it. A block device (\<open>blkdev\<close>) has stable sectors and the
  list of completed writes that are still in its volatile cache; the locale \<open>block_layer\<close> says what the
  three operations of a driver do to it when they succeed and when they fail, and
  \<open>reliable_block_layer\<close> that they succeed within the capacity.
\<close>

section \<open>Block devices\<close>

record blkdev =
  stable :: "u64 \<Rightarrow> u8 list"
  cached :: "(u64 \<times> u8 list) list"

record geometry =
  capacity :: u64
  write_cache :: bool

definition apply_writes :: "(u64 \<times> u8 list) list \<Rightarrow> (u64 \<Rightarrow> u8 list) \<Rightarrow> u64 \<Rightarrow> u8 list" where
  "apply_writes = fold (\<lambda>(l, b) f. f(l := b))"

definition visible :: "blkdev \<Rightarrow> u64 \<Rightarrow> u8 list" where
  "visible bd = apply_writes (cached bd) (stable bd)"

definition store_sector :: "geometry \<Rightarrow> u64 \<Rightarrow> u8 list \<Rightarrow> blkdev \<Rightarrow> blkdev" where
  "store_sector g l b bd =
    (if write_cache g then bd\<lparr>cached := cached bd @ [(l, b)]\<rparr> else bd\<lparr>stable := (stable bd)(l := b)\<rparr>)"

definition sync :: "blkdev \<Rightarrow> blkdev" where
  "sync bd = \<lparr>stable = visible bd, cached = []\<rparr>"

text \<open>The device is in order: sectors have 512 bytes, and nothing is cached without a cache.\<close>

definition blkdev_ok :: "geometry \<Rightarrow> blkdev \<Rightarrow> bool" where
  "blkdev_ok g bd \<longleftrightarrow> (\<forall>l. length (stable bd l) = 512) \<and> (\<forall>(l, b) \<in> set (cached bd). length b = 512) \<and>
     (\<not> write_cache g \<longrightarrow> cached bd = [])"

lemma visible_store:
  "blkdev_ok g bd \<Longrightarrow> visible (store_sector g l b bd) = (visible bd)(l := b)"
  by (auto simp: visible_def store_sector_def apply_writes_def blkdev_ok_def)

lemma visible_sync [simp]: "visible (sync bd) = visible bd"
  by (simp add: sync_def visible_def apply_writes_def)

lemma length_apply_writes:
  "(\<forall>l. length (f l) = 512) \<Longrightarrow> (\<forall>(l, b) \<in> set ws. length b = 512) \<Longrightarrow> length (apply_writes ws f l) = 512"
  by (induction ws arbitrary: f) (auto simp: apply_writes_def)

lemma length_visible: "blkdev_ok g bd \<Longrightarrow> length (visible bd l) = 512"
  unfolding visible_def blkdev_ok_def by (intro length_apply_writes) auto

lemma blkdev_ok_store: "blkdev_ok g bd \<Longrightarrow> length b = 512 \<Longrightarrow> blkdev_ok g (store_sector g l b bd)"
  by (auto simp: blkdev_ok_def store_sector_def)

lemma blkdev_ok_sync: "blkdev_ok g bd \<Longrightarrow> blkdev_ok g (sync bd)"
  using length_visible [of g bd] by (simp add: blkdev_ok_def sync_def)

section \<open>Drivers\<close>

text \<open>Read into a buffer, write, flush; the flag is whether the operation succeeded.\<close>

record 's block_ops =
  blk_read :: "u64 \<Rightarrow> u8 list \<Rightarrow> 's \<Rightarrow> (bool \<times> u8 list) \<times> 's"
  blk_write :: "u64 \<Rightarrow> u8 list \<Rightarrow> 's \<Rightarrow> bool \<times> 's"
  blk_flush :: "'s \<Rightarrow> bool \<times> 's"

definition flushed :: "geometry \<Rightarrow> blkdev \<Rightarrow> blkdev" where
  "flushed g bd = (if write_cache g then sync bd else bd)"

locale block_layer =
  fixes ops :: "'s block_ops" and g :: geometry and inv :: "'s \<Rightarrow> bool" and dev :: "'s \<Rightarrow> blkdev"
  assumes inv_dev: "inv s \<Longrightarrow> blkdev_ok g (dev s)"
    and dev_read: "inv s \<Longrightarrow> blk_read ops lba dst s = ((ok, b), s') \<Longrightarrow>
      inv s' \<and> dev s' = dev s \<and> b = (if ok then visible (dev s) lba else dst)"
    and dev_write: "inv s \<Longrightarrow> length b = 512 \<Longrightarrow> blk_write ops lba b s = (ok, s') \<Longrightarrow>
      inv s' \<and> (dev s' = store_sector g lba b (dev s) \<or> \<not> ok \<and> dev s' = dev s)"
    and dev_flush: "inv s \<Longrightarrow> blk_flush ops s = (ok, s') \<Longrightarrow>
      inv s' \<and> (dev s' = flushed g (dev s) \<or> \<not> ok \<and> dev s' = dev s)"

locale reliable_block_layer = block_layer +
  assumes dev_read_ok: "inv s \<Longrightarrow> blk_read ops lba dst s = ((ok, b), s') \<Longrightarrow> ok \<longleftrightarrow> lba < capacity g"
    and dev_write_ok: "inv s \<Longrightarrow> length b = 512 \<Longrightarrow> blk_write ops lba b s = (ok, s') \<Longrightarrow> ok \<longleftrightarrow> lba < capacity g"
    and dev_flush_ok: "inv s \<Longrightarrow> blk_flush ops s = (ok, s') \<Longrightarrow> ok"

end
