(* ===== verification/ObjStore.thy ===== *)
theory ObjStore
  imports VirtioBlk BlockLayer
begin

text \<open>
  The Cairnlog object store, \<^verbatim>\<open>kernel/src/objstore.rs\<close>: an append log of content-addressed extents
  under two alternating superblocks. The operations take the block driver as the argument \<open>ops\<close>
  (the code calls \<^verbatim>\<open>virtio_blk\<close> directly; \<open>virtio_ops\<close> of \<open>VirtioDevice\<close> is that driver). The state
  is the driver's state together with the three statics of the module.
\<close>

definition SB_MAGIC :: u64 where [const_defs]: "SB_MAGIC = 0x436169726E4C67"
definition SB_VERSION :: u32 where [const_defs]: "SB_VERSION = 1"
definition LBA_SB_A :: u64 where [const_defs]: "LBA_SB_A = 0"
definition LBA_SB_B :: u64 where [const_defs]: "LBA_SB_B = 1"
definition LBA_LOG_START :: u64 where [const_defs]: "LBA_LOG_START = 2"

definition O_MAGIC :: nat where [const_defs]: "O_MAGIC = 0"
definition O_VERSION :: nat where [const_defs]: "O_VERSION = 8"
definition O_SEQ :: nat where [const_defs]: "O_SEQ = 16"
definition O_LOG_HEAD :: nat where [const_defs]: "O_LOG_HEAD = 24"
definition O_ROOT_LBA :: nat where [const_defs]: "O_ROOT_LBA = 32"
definition O_ROOT_LEN :: nat where [const_defs]: "O_ROOT_LEN = 40"
definition O_ROOT_HASH :: nat where [const_defs]: "O_ROOT_HASH = 48"
definition O_SB_HASH :: nat where [const_defs]: "O_SB_HASH = 56"

definition REC_MAGIC :: u64 where [const_defs]: "REC_MAGIC = 0x436169726E5265"
definition RH_MAGIC :: nat where [const_defs]: "RH_MAGIC = 0"
definition RH_LEN :: nat where [const_defs]: "RH_LEN = 8"
definition RH_HASH :: nat where [const_defs]: "RH_HASH = 16"
definition RH_PREV :: nat where [const_defs]: "RH_PREV = 24"
definition RH_HDR_HASH :: nat where [const_defs]: "RH_HDR_HASH = 32"

record Superblock =
  seq :: u64
  log_head_lba :: u64
  root_lba :: u64
  root_len :: u32
  root_hash :: u64

record 's objstore =
  blk :: 's
  MOUNTED :: Superblock
  MOUNTED_OK :: bool
  MOUNTED_SLOT :: u64

definition objstore_initial :: "'s \<Rightarrow> 's objstore" where
  "objstore_initial s = \<lparr>blk = s,
     MOUNTED = \<lparr>seq = 0, log_head_lba = 0, root_lba = 0, root_len = 0, root_hash = 0\<rparr>,
     MOUNTED_OK = False, MOUNTED_SLOT = LBA_SB_A\<rparr>"

section \<open>Hashing and byte layout\<close>

definition FNV1A_BASIS :: u64 where "FNV1A_BASIS = 0xcbf29ce484222325"

definition fnv1a_step :: "u64 \<Rightarrow> u8 list \<Rightarrow> u64" where
  "fnv1a_step = foldl (\<lambda>h b. (h XOR ucast b) * 0x00000100000001b3)"

definition fnv1a :: "u8 list \<Rightarrow> u64" where
  "fnv1a bs = fnv1a_step FNV1A_BASIS bs"

definition rd_u64 :: "u8 list \<Rightarrow> nat \<Rightarrow> u64" where
  "rd_u64 b off = foldl (\<lambda>v i. v OR push_bit (i * 8) (ucast (b ! (off + i)))) 0 [0..<8]"

definition rd_u32 :: "u8 list \<Rightarrow> nat \<Rightarrow> u32" where
  "rd_u32 b off = foldl (\<lambda>v i. v OR push_bit (i * 8) (ucast (b ! (off + i)))) 0 [0..<4]"

definition wr_u64 :: "nat \<Rightarrow> u64 \<Rightarrow> u8 list \<Rightarrow> u8 list" where
  "wr_u64 off v b = foldl (\<lambda>b i. b[off + i := ucast (drop_bit (i * 8) v)]) b [0..<8]"

definition wr_u32 :: "nat \<Rightarrow> u32 \<Rightarrow> u8 list \<Rightarrow> u8 list" where
  "wr_u32 off v b = foldl (\<lambda>b i. b[off + i := ucast (drop_bit (i * 8) v)]) b [0..<4]"

section \<open>Superblocks\<close>

definition sb_sector :: "Superblock \<Rightarrow> u8 list" where
  "sb_sector sb =
    (let s = replicate 512 0;
         s = wr_u64 O_MAGIC SB_MAGIC s;
         s = wr_u32 O_VERSION SB_VERSION s;
         s = wr_u64 O_SEQ (seq sb) s;
         s = wr_u64 O_LOG_HEAD (log_head_lba sb) s;
         s = wr_u64 O_ROOT_LBA (root_lba sb) s;
         s = wr_u32 O_ROOT_LEN (root_len sb) s;
         s = wr_u64 O_ROOT_HASH (root_hash sb) s;
         h = fnv1a (take O_SB_HASH s)
     in wr_u64 O_SB_HASH h s)"

definition write_superblock :: "'s block_ops \<Rightarrow> u64 \<Rightarrow> Superblock \<Rightarrow> 's \<Rightarrow> bool \<times> 's" where
  "write_superblock ops slot_lba sb s =
    (let (ok, s) = blk_write ops slot_lba (sb_sector sb) s in if \<not> ok then (False, s) else blk_flush ops s)"

datatype SlotRead = Io | Invalid | Valid Superblock

definition decode_slot :: "u8 list \<Rightarrow> SlotRead" where
  "decode_slot s =
    (if rd_u64 s O_MAGIC \<noteq> SB_MAGIC then Invalid
     else if fnv1a (take O_SB_HASH s) \<noteq> rd_u64 s O_SB_HASH then Invalid
     else Valid \<lparr>seq = rd_u64 s O_SEQ, log_head_lba = rd_u64 s O_LOG_HEAD, root_lba = rd_u64 s O_ROOT_LBA,
       root_len = rd_u32 s O_ROOT_LEN, root_hash = rd_u64 s O_ROOT_HASH\<rparr>)"

definition read_superblock :: "'s block_ops \<Rightarrow> u64 \<Rightarrow> 's \<Rightarrow> SlotRead \<times> 's" where
  "read_superblock ops slot_lba s =
    (let ((ok, b), s) = blk_read ops slot_lba (replicate 512 0) s
     in if \<not> ok then (Io, s) else (decode_slot b, s))"

text \<open>The slot \<^verbatim>\<open>mount\<close> prefers, with its address.\<close>

fun best_slot :: "SlotRead \<Rightarrow> SlotRead \<Rightarrow> (Superblock \<times> u64) option" where
  "best_slot (Valid x) (Valid y) = Some (if seq x \<ge> seq y then (x, LBA_SB_A) else (y, LBA_SB_B))"
| "best_slot (Valid x) _ = Some (x, LBA_SB_A)"
| "best_slot _ (Valid y) = Some (y, LBA_SB_B)"
| "best_slot _ _ = None"

definition mount :: "'s block_ops \<Rightarrow> 's objstore \<Rightarrow> 's objstore" where
  "mount ops st =
    (let (a, s) = read_superblock ops LBA_SB_A (blk st);
         (b, s) = read_superblock ops LBA_SB_B s;
         st = st\<lparr>blk := s\<rparr>
     in case best_slot a b of
         Some (sb, slot) \<Rightarrow> st\<lparr>MOUNTED := sb, MOUNTED_OK := True, MOUNTED_SLOT := slot\<rparr>
       | None \<Rightarrow>
           if a = Invalid \<and> b = Invalid then
             let sb = \<lparr>seq = 1, log_head_lba = LBA_LOG_START, root_lba = 0, root_len = 0, root_hash = 0\<rparr>;
                 (ok, s) = write_superblock ops LBA_SB_A sb s;
                 st = st\<lparr>blk := s\<rparr>
             in if ok then st\<lparr>MOUNTED := sb, MOUNTED_OK := True, MOUNTED_SLOT := LBA_SB_A\<rparr> else st
           else st)"

section \<open>Appending an extent\<close>

definition div_ceil_512 :: "nat \<Rightarrow> nat" where
  "div_ceil_512 n = n div 512 + (if n mod 512 = 0 then 0 else 1)"

text \<open>The loop over the data sectors; the number is how many are left.\<close>

fun put_data :: "'s block_ops \<Rightarrow> u64 \<Rightarrow> u8 list \<Rightarrow> nat \<Rightarrow> nat \<Rightarrow> nat \<Rightarrow> 's \<Rightarrow> bool \<times> 's" where
  "put_data ops data_lba bytes written i 0 s = (True, s)"
| "put_data ops data_lba bytes written i (Suc left) s =
    (let remaining = length bytes - written;
         n = (if remaining \<ge> 512 then 512 else remaining);
         sect = take n (drop written bytes) @ replicate (512 - n) 0;
         (ok, s) = blk_write ops (data_lba + of_nat i) sect s
     in if \<not> ok then (False, s) else put_data ops data_lba bytes (written + n) (i + 1) left s)"

definition record_header :: "u32 \<Rightarrow> u64 \<Rightarrow> u64 \<Rightarrow> u8 list" where
  "record_header len h prev =
    (let hdr = replicate 512 0;
         hdr = wr_u64 RH_MAGIC REC_MAGIC hdr;
         hdr = wr_u32 RH_LEN len hdr;
         hdr = wr_u64 RH_HASH h hdr;
         hdr = wr_u64 RH_PREV prev hdr;
         hh = fnv1a (take RH_HDR_HASH hdr)
     in wr_u64 RH_HDR_HASH hh hdr)"

definition put :: "'s block_ops \<Rightarrow> u8 list \<Rightarrow> 's objstore \<Rightarrow> (u64 \<times> u32 \<times> u64) option \<times> 's objstore" where
  "put ops bytes st =
    (let cur = MOUNTED st; len = length bytes
     in if \<not> MOUNTED_OK st \<or> len > 0xFFFFFFFF then (None, st)
        else
          let ndata = div_ceil_512 len;
              data_lba = log_head_lba cur;
              h = fnv1a bytes;
              (ok, s) = put_data ops data_lba bytes 0 0 ndata (blk st)
          in if \<not> ok then (None, st\<lparr>blk := s\<rparr>)
             else
               let hdr_lba = data_lba + of_nat ndata;
                   (ok, s) = blk_write ops hdr_lba (record_header (of_nat len) h (root_lba cur)) s
               in if \<not> ok then (None, st\<lparr>blk := s\<rparr>)
                  else
                    let (ok, s) = blk_flush ops s
                    in if \<not> ok then (None, st\<lparr>blk := s\<rparr>)
                       else
                         let new_sb = \<lparr>seq = seq cur + 1, log_head_lba = hdr_lba + 1, root_lba = data_lba,
                               root_len = of_nat len, root_hash = h\<rparr>;
                             other = (if MOUNTED_SLOT st = LBA_SB_A then LBA_SB_B else LBA_SB_A);
                             (ok, s) = write_superblock ops other new_sb s
                         in if \<not> ok then (None, st\<lparr>blk := s\<rparr>)
                            else (Some (data_lba, of_nat len, h),
                              st\<lparr>blk := s, MOUNTED := new_sb, MOUNTED_SLOT := other\<rparr>))"

section \<open>Reading extents back\<close>

text \<open>The loop of \<^verbatim>\<open>extent_content_hash\<close>; the number is how many sectors are left.\<close>

fun hash_sectors :: "'s block_ops \<Rightarrow> u64 \<Rightarrow> nat \<Rightarrow> u64 \<Rightarrow> nat \<Rightarrow> nat \<Rightarrow> nat \<Rightarrow> 's \<Rightarrow> u64 option \<times> 's" where
  "hash_sectors ops lba len h consumed i 0 s = (Some h, s)"
| "hash_sectors ops lba len h consumed i (Suc left) s =
    (let ((ok, sect), s) = blk_read ops (lba + of_nat i) (replicate 512 0) s
     in if \<not> ok then (None, s)
        else
          let remaining = len - consumed;
              n = (if remaining \<ge> 512 then 512 else remaining)
          in hash_sectors ops lba len (fnv1a_step h (take n sect)) (consumed + n) (i + 1) left s)"

definition extent_content_hash :: "'s block_ops \<Rightarrow> u64 \<Rightarrow> u32 \<Rightarrow> 's \<Rightarrow> u64 option \<times> 's" where
  "extent_content_hash ops lba len s =
    hash_sectors ops lba (unat len) FNV1A_BASIS 0 0 (div_ceil_512 (unat len)) s"

definition recover :: "'s block_ops \<Rightarrow> 's objstore \<Rightarrow> (u64 \<times> u32 \<times> u64) option \<times> 's objstore" where
  "recover ops st =
    (let cur = MOUNTED st
     in if \<not> MOUNTED_OK st \<or> root_len cur = 0 then (None, st)
        else
          let (r, s) = extent_content_hash ops (root_lba cur) (root_len cur) (blk st)
          in (if r = Some (root_hash cur) then Some (root_lba cur, root_len cur, root_hash cur) else None,
              st\<lparr>blk := s\<rparr>))"

text \<open>
  \<^verbatim>\<open>load_extent\<close> copies sectors into a fresh frame, so it acts on the machine the block driver
  runs on and on the frame allocator; the number is how many sectors are left.
\<close>

fun load_sectors :: "'d host \<Rightarrow> u64 \<Rightarrow> nat \<Rightarrow> u64 \<Rightarrow> nat \<Rightarrow> nat \<Rightarrow> 'd machine \<times> VirtioBlk \<Rightarrow> bool \<times> 'd machine \<times> VirtioBlk" where
  "load_sectors H lba len frame i 0 s = (True, s)"
| "load_sectors H lba len frame i (Suc left) s =
    (let ((ok, sect), M, v) = read_sector H (lba + of_nat i) (replicate 512 0) s
     in if \<not> ok then (False, M, v)
        else
          let off = i * 512;
              n = (if len - off \<ge> 512 then 512 else len - off);
              M = M\<lparr>ram := write_mem (phys_of (snd H) (frame + of_nat off)) (take n sect) (ram M)\<rparr>
          in load_sectors H lba len frame (i + 1) left (M, v))"

definition load_extent :: "'d host \<Rightarrow> u64 \<Rightarrow> u32 \<Rightarrow> 'd machine \<times> VirtioBlk \<times> Memory \<Rightarrow> u64 option \<times> 'd machine \<times> VirtioBlk \<times> Memory" where
  "load_extent H lba len s =
    (let (M, v, mm) = s; len = unat len
     in if len = 0 \<or> len > 4096 then (None, s)
        else case allocate_frame mm of
            (None, mm) \<Rightarrow> (None, M, v, mm)
          | (Some fnum, mm) \<Rightarrow>
              let phys = fnum * 4096;
                  frame = HHDM_OFFSET mm + phys;
                  M = M\<lparr>ram := zero_mem (phys_of (snd H) frame) 4096 (ram M)\<rparr>;
                  (ok, M, v) = load_sectors H lba len frame 0 (div_ceil_512 len) (M, v)
              in if \<not> ok then (None, M, v, deallocate_frame fnum mm) else (Some phys, M, v, mm))"

end
