(* ===== verification/VirtioDevice.thy ===== *)
theory VirtioDevice
  imports VirtioBlk BlockLayer
begin

text \<open>
  The device's side of the virtio block protocol and what the driver of \<^verbatim>\<open>virtio_blk.rs\<close> achieves
  with it. The locale \<open>virtio_device\<close> assumes of the device what the virtio
  specification says: on a doorbell write it parses the descriptor chain of the published head,
  executes the request, and advances the used index, within the polls the driver allows. The
  driver's reads, writes and flushes are then those of a block device, that is, the driver is a
  \<open>reliable_block_layer\<close>.
\<close>

section \<open>Requests as the device sees them\<close>

definition load16 :: "mem \<Rightarrow> u64 \<Rightarrow> u16" where
  "load16 m a = le_word (read_mem m a 2)"

definition load32 :: "mem \<Rightarrow> u64 \<Rightarrow> u32" where
  "load32 m a = le_word (read_mem m a 4)"

record blk_request =
  rq_type :: u32
  rq_sector :: u64
  rq_data :: "(u64 \<times> bool) option"
  rq_status :: u64

text \<open>A descriptor: address, length, flags, next.\<close>

definition desc_at :: "mem \<Rightarrow> u64 \<Rightarrow> u16 \<Rightarrow> u64 \<times> u32 \<times> u16 \<times> u16" where
  "desc_at m table i =
    (let d = table + 16 * ucast i in (load64 m d, load32 m (d + 8), load16 m (d + 12), load16 m (d + 14)))"

definition has_next :: "u16 \<Rightarrow> bool" where "has_next flags \<longleftrightarrow> bit flags 0"
definition dev_writable :: "u16 \<Rightarrow> bool" where "dev_writable flags \<longleftrightarrow> bit flags 1"

text \<open>
  The request chained from a head descriptor: a 16-byte header the device reads, at most one
  512-byte data buffer, and a status byte the device writes.
\<close>

definition parse_request :: "mem \<Rightarrow> u64 \<Rightarrow> u16 \<Rightarrow> blk_request option" where
  "parse_request m table head =
    (let (hdr, len0, fl0, nx0) = desc_at m table head;
         (a1, len1, fl1, nx1) = desc_at m table nx0;
         (a2, len2, fl2, _) = desc_at m table nx1;
         r = (\<lambda>data st. Some \<lparr>rq_type = load32 m hdr, rq_sector = load64 m (hdr + 8), rq_data = data, rq_status = st\<rparr>)
     in if len0 \<noteq> 16 \<or> dev_writable fl0 \<or> \<not> has_next fl0 then None
        else if \<not> has_next fl1 then (if len1 = 1 \<and> dev_writable fl1 then r None a1 else None)
        else if len1 = 512 \<and> \<not> has_next fl2 \<and> len2 = 1 \<and> dev_writable fl2
        then r (Some (a1, dev_writable fl1)) a2 else None)"

text \<open>What the device does with a request: the block device and memory afterwards.\<close>

definition execute :: "geometry \<Rightarrow> blk_request \<Rightarrow> blkdev \<Rightarrow> mem \<Rightarrow> blkdev \<times> mem" where
  "execute g r bd m =
    (case rq_data r of
       Some (a, w) \<Rightarrow>
         if rq_type r = VIRTIO_BLK_T_IN \<and> w \<and> rq_sector r < capacity g
         then (bd, write_mem (rq_status r) [0] (write_mem a (visible bd (rq_sector r)) m))
         else if rq_type r = VIRTIO_BLK_T_OUT \<and> \<not> w \<and> rq_sector r < capacity g
         then (store_sector g (rq_sector r) (read_mem m a 512) bd, write_mem (rq_status r) [0] m)
         else (bd, write_mem (rq_status r) [1] m)
     | None \<Rightarrow>
         if rq_type r = VIRTIO_BLK_T_FLUSH \<and> write_cache g then (sync bd, write_mem (rq_status r) [0] m)
         else (bd, write_mem (rq_status r) [2] m))"

text \<open>The buffers of a request lie outside the used ring.\<close>

definition request_clear :: "DeviceQueueDesc \<Rightarrow> blk_request \<Rightarrow> bool" where
  "request_clear Q r \<longleftrightarrow> rq_status r \<notin> span (used_phys Q) 4096 \<and>
     (case rq_data r of None \<Rightarrow> True | Some (a, _) \<Rightarrow> span a 512 \<inter> span (used_phys Q) 4096 = {})"

definition spins :: "'d bus \<Rightarrow> nat \<Rightarrow> 'd \<times> mem \<Rightarrow> 'd \<times> mem" where
  "spins B k = spin_loop B ^^ k"

locale virtio_device =
  fixes B :: "'d bus" and Q :: DeviceQueueDesc and g :: geometry
    and view :: "'d \<Rightarrow> blkdev" and served :: "'d \<Rightarrow> u16" and dev_ok :: "'d \<Rightarrow> bool"
  assumes rings_in_ram: "a \<in> span (desc_phys Q) 4096 \<union> span (avail_phys Q) 4096 \<union>
      span (used_phys Q) 4096 \<union> span (buf_phys Q) 4096 \<Longrightarrow> \<not> is_mmio B a"
    and doorbell_mmio: "is_mmio B (doorbell_phys Q)"
    and view_ok: "dev_ok d \<Longrightarrow> blkdev_ok g (view d)"
    and serves: "dev_ok d \<Longrightarrow>
      load16 m (avail_phys Q + 2) = served d + 1 \<Longrightarrow> load16 m (used_phys Q + 2) = served d \<Longrightarrow>
      head = load16 m (avail_phys Q + 4 + ucast (served d mod qsize Q) * 2) \<Longrightarrow>
      parse_request m (desc_phys Q) head = Some r \<Longrightarrow> request_clear Q r \<Longrightarrow>
      \<exists>k d' m'. k \<le> POLL_GUARD \<and>
        spins B k (mmio_write B (doorbell_phys Q) 2 0 (d, m)) = (d', m') \<and>
        (\<forall>j < k. load16 (snd (spins B j (mmio_write B (doorbell_phys Q) 2 0 (d, m)))) (used_phys Q + 2) = served d) \<and>
        dev_ok d' \<and> served d' = served d + 1 \<and> load16 m' (used_phys Q + 2) = served d + 1 \<and>
        view d' = fst (execute g r (view d) m) \<and>
        (\<forall>a. a \<notin> span (used_phys Q) 4096 \<longrightarrow> m' a = snd (execute g r (view d) m) a)"

text \<open>The driver's operations as a block layer.\<close>

definition virtio_ops :: "'d host \<Rightarrow> ('d machine \<times> VirtioBlk) block_ops" where
  "virtio_ops H = \<lparr>blk_read = read_sector H, blk_write = write_sector H, blk_flush = flush H\<rparr>"

section \<open>The driver's invariant\<close>

definition driver_ok :: "u64 \<Rightarrow> DeviceQueueDesc \<Rightarrow> VirtioBlk \<Rightarrow> bool" where
  "driver_ok hhdm Q v \<longleftrightarrow> device_queue_desc v = Some Q \<and>
     vb_desc v = hhdm + desc_phys Q \<and> vb_avail v = hhdm + avail_phys Q \<and> vb_used v = hhdm + used_phys Q \<and>
     vb_hdr v = hhdm + buf_phys Q \<and> vb_data v = hhdm + buf_phys Q + 512 \<and> vb_status v = hhdm + buf_phys Q + 1024 \<and>
     vb_data_phys v = buf_phys Q + 512 \<and> vb_status_phys v = buf_phys Q + 1024 \<and>
     vb_notify_base v + ucast (vb_notify_off v) * ucast (vb_notify_mul v) = hhdm + doorbell_phys Q \<and>
     4096 dvd unat (desc_phys Q) \<and> 4096 dvd unat (avail_phys Q) \<and> 4096 dvd unat (used_phys Q) \<and>
     4096 dvd unat (buf_phys Q) \<and> distinct [desc_phys Q, avail_phys Q, used_phys Q, buf_phys Q] \<and>
     0 < qsize Q \<and> qsize Q \<le> QSIZE"

text \<open>Between two requests the device has served as many as the driver has published.\<close>

definition vblk_inv :: "u64 \<Rightarrow> DeviceQueueDesc \<Rightarrow> geometry \<Rightarrow> ('d \<Rightarrow> u16) \<Rightarrow> ('d \<Rightarrow> bool) \<Rightarrow>
    'd machine \<times> VirtioBlk \<Rightarrow> bool" where
  "vblk_inv hhdm Q g served dev_ok = (\<lambda>(M, v). driver_ok hhdm Q v \<and> vb_flush_ok v = write_cache g \<and>
     dev_ok (devs M) \<and> load16 (ram M) (avail_phys Q + 2) = served (devs M) \<and>
     load16 (ram M) (used_phys Q + 2) = served (devs M))"

section \<open>Publishing a request\<close>

lemma poll_used_finds:
  assumes "\<not> is_mmio (fst H) (phys_of (snd H) va)"
    and "\<forall>j < k. load16 (snd (spins (fst H) j (devs M, ram M))) (phys_of (snd H) va) \<noteq> target"
    and "load16 (snd (spins (fst H) k (devs M, ram M))) (phys_of (snd H) va) = target" and "k \<le> n"
  shows "poll_used H va target n M = (True, on_devs (spins (fst H) k) M)"
  using assms(2-4)
proof (induction k arbitrary: n M)
  case 0
  then show ?case
    by (subst poll_used.simps) (simp add: r16_def bus_read_ram assms(1) load16_def spins_def on_devs_def)
next
  case (Suc k)
  let ?M = "on_devs (spin_loop (fst H)) M"
  obtain n' where n: "n = Suc n'" using Suc.prems(3) by (cases n) auto
  have sp: "spins (fst H) j (devs ?M, ram ?M) = spins (fst H) (Suc j) (devs M, ram M)" for j
    by (simp add: spins_def on_devs_def funpow_swap1 split: prod.split)
  have "load16 (ram M) (phys_of (snd H) va) \<noteq> target" using Suc.prems(1) by (auto simp: spins_def)
  then have "poll_used H va target n M = poll_used H va target n' ?M"
    by (subst poll_used.simps) (simp add: r16_def bus_read_ram assms(1) load16_def n)
  also have "\<dots> = (True, on_devs (spins (fst H) k) ?M)"
    using Suc.IH [of ?M n'] Suc.prems n unfolding sp by auto
  also have "on_devs (spins (fst H) k) ?M = on_devs (spins (fst H) (Suc k)) M"
    using sp [of k] by (simp add: on_devs_def split: prod.split)
  finally show ?case .
qed

lemma poll_used_reached:
  assumes "poll_used H va target n M = (True, M')" and "\<not> is_mmio (fst H) (phys_of (snd H) va)"
  shows "load16 (ram M') (phys_of (snd H) va) = target"
  using assms(1)
proof (induction n arbitrary: M)
  case 0
  then show ?case
    by (subst (asm) poll_used.simps) (auto simp: r16_def bus_read_ram assms(2) load16_def split: if_splits)
next
  case (Suc n)
  from Suc.prems show ?case
    by (subst (asm) poll_used.simps)
      (auto simp: r16_def bus_read_ram assms(2) load16_def split: if_splits dest: Suc.IH)
qed

lemma in_frame: "unat off < n \<Longrightarrow> a + off \<in> span a n" "0 < n \<Longrightarrow> a \<in> span a n"
  using mem_spanI [of "unat off" n a] mem_spanI [of 0 n a] by simp_all

text \<open>The bytes of the request header and of the descriptor chain.\<close>

definition hdr_bytes :: "u32 \<Rightarrow> u64 \<Rightarrow> u8 list" where
  "hdr_bytes t lba = le_bytes 4 t @ le_bytes 4 (0 :: u32) @ le_bytes 8 lba"

definition desc_bytes :: "u64 \<Rightarrow> u32 \<Rightarrow> u16 \<Rightarrow> u16 \<Rightarrow> u8 list" where
  "desc_bytes a len flags nx = le_bytes 8 a @ le_bytes 4 len @ le_bytes 2 flags @ le_bytes 2 nx"

definition chain_bytes :: "u64 \<Rightarrow> u32 \<Rightarrow> bool \<Rightarrow> u8 list" where
  "chain_bytes buf t has_data =
    (if has_data
     then desc_bytes buf 16 1 1 @ desc_bytes (buf + 512) 512 (if t = VIRTIO_BLK_T_IN then 3 else 1) 2 @
       desc_bytes (buf + 1024) 1 2 0
     else desc_bytes buf 16 1 1 @ desc_bytes (buf + 1024) 1 2 0)"

lemma length_request_bytes [simp]: "length (hdr_bytes t lba) = 16" "length (desc_bytes a len flags nx) = 16"
    "length (chain_bytes buf t True) = 48" "length (chain_bytes buf t False) = 32"
  by (simp_all add: hdr_bytes_def desc_bytes_def chain_bytes_def)

text \<open>Memory as it is when the doorbell rings, and the request the device then finds.\<close>

definition published :: "DeviceQueueDesc \<Rightarrow> u32 \<Rightarrow> u64 \<Rightarrow> bool \<Rightarrow> u16 \<Rightarrow> mem \<Rightarrow> mem" where
  "published Q t lba has_data n m =
    write_mem (avail_phys Q + 2) (le_bytes 2 (n + 1))
      (write_mem (avail_phys Q + (4 + ucast (n mod qsize Q) * 2)) (le_bytes 2 (0 :: u16))
        (write_mem (desc_phys Q) (chain_bytes (buf_phys Q) t has_data)
          (write_mem (buf_phys Q + 1024) [0xFF] (write_mem (buf_phys Q) (hdr_bytes t lba) m))))"

definition request_of :: "DeviceQueueDesc \<Rightarrow> u32 \<Rightarrow> u64 \<Rightarrow> bool \<Rightarrow> blk_request" where
  "request_of Q t lba has_data =
    \<lparr>rq_type = t, rq_sector = lba,
     rq_data = (if has_data then Some (buf_phys Q + 512, t = VIRTIO_BLK_T_IN) else None),
     rq_status = buf_phys Q + 1024\<rparr>"

lemma desc_at_bytes:
  assumes "read_mem m (table + 16 * ucast i) 16 = desc_bytes a len flags nx"
  shows "desc_at m table i = (a, len, flags, nx)"
proof -
  let ?d = "table + 16 * ucast i"
  have "read_mem m ?d 8 = le_bytes 8 a" "read_mem m (?d + 8) 4 = le_bytes 4 len"
      "read_mem m (?d + 12) 2 = le_bytes 2 flags" "read_mem m (?d + 14) 2 = le_bytes 2 nx"
    using read_mem_slice [of 0 8 16 m ?d] read_mem_slice [of 8 4 16 m ?d] read_mem_slice [of 12 2 16 m ?d]
      read_mem_slice [of 14 2 16 m ?d] assms
    by (simp_all add: desc_bytes_def)
  then show ?thesis
    by (simp add: desc_at_def Let_def load64_def load32_def load16_def le_word_le_bytes)
qed

lemma parse_chain:
  assumes "read_mem m buf 16 = hdr_bytes t lba"
    and "read_mem m table (if has_data then 48 else 32) = chain_bytes buf t has_data"
  shows "parse_request m table 0 =
    Some \<lparr>rq_type = t, rq_sector = lba, rq_data = (if has_data then Some (buf + 512, t = VIRTIO_BLK_T_IN) else None),
      rq_status = buf + 1024\<rparr>"
proof -
  have hdr: "load32 m buf = t" "load64 m (buf + 8) = lba"
    using read_mem_slice [of 0 4 16 m buf] read_mem_slice [of 8 8 16 m buf] assms(1)
    by (simp_all add: hdr_bytes_def load32_def load64_def le_word_le_bytes)
  let ?n = "if has_data then 48 else 32 :: nat"
  have "read_mem m (table + 16 * ucast (i :: u16)) 16 = take 16 (drop (16 * unat i) (chain_bytes buf t has_data))"
    if "16 * unat i + 16 \<le> ?n" for i
    using read_mem_slice [of "16 * unat i" 16 ?n m table] assms(2) that by simp
  from this [of 0] this [of 1] this [of 2]
  have "desc_at m table 0 = (buf, 16, 1, 1)"
      "has_data \<Longrightarrow> desc_at m table 1 = (buf + 512, 512, if t = VIRTIO_BLK_T_IN then 3 else 1, 2)"
      "has_data \<Longrightarrow> desc_at m table 2 = (buf + 1024, 1, 2, 0)"
      "\<not> has_data \<Longrightarrow> desc_at m table 1 = (buf + 1024, 1, 2, 0)"
    by (auto intro!: desc_at_bytes simp: chain_bytes_def)
  then show ?thesis
    by (cases has_data) (auto simp: parse_request_def hdr has_next_def dev_writable_def Let_def split: prod.splits)
qed

lemma read_write_frames:
  assumes "span p 4096 \<inter> span q 4096 = {}" "unat off + n \<le> 4096" "unat off' + length bs \<le> 4096"
  shows "read_mem (write_mem (q + off') bs m) (p + off) n = read_mem m (p + off) n"
  using span_offset [OF assms(2), of p] span_offset [OF assms(3), of q] assms(1)
  by (intro read_write_other) blast

lemma read_write_frame:
  assumes "unat off + n \<le> unat off' \<or> unat off' + length bs \<le> unat off" "unat off + n \<le> 4096"
    "unat off' + length bs \<le> 4096"
  shows "read_mem (write_mem (p + off') bs m) (p + off) n = read_mem m (p + off) n"
  using span_offsets_disjoint [of off n off' "length bs" p] span_offsets_disjoint [of off' "length bs" off n p] assms
  by (intro read_write_other) auto

lemmas read_write_frames0 = read_write_frames [where off = 0, simplified] read_write_frames [where off' = 0, simplified]
  read_write_frames [where off = 0 and off' = 0, simplified]
lemmas read_write_frame0 = read_write_frame [where off = 0, simplified] read_write_frame [where off' = 0, simplified]

lemma driver_frames:
  assumes "driver_ok hhdm Q v"
  shows "span (desc_phys Q) 4096 \<inter> span (avail_phys Q) 4096 = {}" "span (desc_phys Q) 4096 \<inter> span (used_phys Q) 4096 = {}"
    "span (desc_phys Q) 4096 \<inter> span (buf_phys Q) 4096 = {}" "span (avail_phys Q) 4096 \<inter> span (used_phys Q) 4096 = {}"
    "span (avail_phys Q) 4096 \<inter> span (buf_phys Q) 4096 = {}" "span (used_phys Q) 4096 \<inter> span (buf_phys Q) 4096 = {}"
  using assms by (simp_all add: driver_ok_def frames_disjoint)

lemmas driver_frames' = driver_frames driver_frames [THEN trans [OF Int_commute]]

lemma slot_bounds:
  assumes "0 < qsize Q" "qsize Q \<le> QSIZE"
  shows "unat (4 + ucast (n mod qsize Q) * 2 :: u64) = 4 + 2 * unat (n mod qsize Q)" "unat (n mod qsize Q) < 128"
proof -
  have "unat (n mod qsize Q) < unat (qsize Q)" using assms(1) by (simp add: unat_mod word_gt_0 unat_gt_0)
  moreover have "unat (qsize Q) \<le> 128" using assms(2) by (simp add: word_le_nat_alt QSIZE_def)
  ultimately show "unat (n mod qsize Q) < 128" by simp
  then show "unat (4 + ucast (n mod qsize Q) * 2 :: u64) = 4 + 2 * unat (n mod qsize Q)"
    by (simp add: unat_word_ariths unsigned_ucast_eq take_bit_eq_mod)
qed

lemma published_spec:
  assumes "driver_ok hhdm Q v"
  shows "load16 (published Q t lba wd n m) (avail_phys Q + 2) = n + 1"
    and "load16 (published Q t lba wd n m) (used_phys Q + 2) = load16 m (used_phys Q + 2)"
    and "load16 (published Q t lba wd n m) (avail_phys Q + 4 + ucast (n mod qsize Q) * 2) = 0"
    and "parse_request (published Q t lba wd n m) (desc_phys Q) 0 = Some (request_of Q t lba wd)"
    and "read_mem (published Q t lba wd n m) (buf_phys Q + 512) 512 = read_mem m (buf_phys Q + 512) 512"
proof -
  let ?m = "published Q t lba wd n m"
  define off :: u64 where "off = 4 + ucast (n mod qsize Q) * 2"
  have q: "0 < qsize Q" "qsize Q \<le> QSIZE" using assms(1) by (simp_all add: driver_ok_def)
  have off: "unat off = 4 + 2 * unat (n mod qsize Q)" "unat (n mod qsize Q) < 128"
    unfolding off_def using slot_bounds [OF q, of n] .
  have m: "?m = write_mem (avail_phys Q + 2) (le_bytes 2 (n + 1)) (write_mem (avail_phys Q + off) (le_bytes 2 (0 :: u16))
        (write_mem (desc_phys Q) (chain_bytes (buf_phys Q) t wd)
          (write_mem (buf_phys Q + 1024) [0xFF] (write_mem (buf_phys Q) (hdr_bytes t lba) m))))"
    by (simp only: published_def off_def)
  have lens: "length (le_bytes 2 (x :: u16)) = 2" "length [0xFF :: u8] = 1" "length (chain_bytes a t wd) \<le> 4096"
      "length (hdr_bytes t lba) = 16" for x a
    by (simp_all add: chain_bytes_def)
  note fr = driver_frames' [OF assms(1)]
  have off_le: "unat off \<le> 4094" "4 \<le> unat off" using off by simp_all
  note other = read_write_frames read_write_frames0 fr lens off_le
  show "load16 ?m (avail_phys Q + 2) = n + 1"
    using read_write_same [of "le_bytes 2 (n + 1)"] by (simp add: m load16_def le_word_le_bytes)
  show "load16 ?m (used_phys Q + 2) = load16 m (used_phys Q + 2)"
    unfolding m load16_def by (simp add: other del: write_mem.simps)
  have "read_mem ?m (avail_phys Q + off) 2 = le_bytes 2 (0 :: u16)"
    unfolding m using read_write_same [of "le_bytes 2 (0 :: u16)"] by (simp add: read_write_frame off_le lens)
  then have "load16 ?m (avail_phys Q + off) = 0" by (simp add: load16_def le_word_le_bytes)
  then show "load16 ?m (avail_phys Q + 4 + ucast (n mod qsize Q) * 2) = 0" by (simp add: off_def add.assoc)
  show "read_mem ?m (buf_phys Q + 512) 512 = read_mem m (buf_phys Q + 512) 512"
    unfolding m by (simp add: other read_write_frame read_write_frame0 del: write_mem.simps)
  have "read_mem ?m (buf_phys Q) 16 = hdr_bytes t lba"
    unfolding m using read_write_same [of "hdr_bytes t lba" "buf_phys Q" m]
    by (simp add: other read_write_frame0 del: write_mem.simps)
  moreover have "read_mem ?m (desc_phys Q) (if wd then 48 else 32) = chain_bytes (buf_phys Q) t wd"
    unfolding m using read_write_same [of "chain_bytes (buf_phys Q) t wd" "desc_phys Q"]
    by (cases wd) (simp_all add: other del: write_mem.simps)
  ultimately show "parse_request ?m (desc_phys Q) 0 = Some (request_of Q t lba wd)"
    using parse_chain [of ?m "buf_phys Q" t lba "desc_phys Q" wd] by (simp add: request_of_def)
qed

lemma execute_avail:
  assumes "driver_ok hhdm Q v" "blkdev_ok g bd"
  shows "load16 (snd (execute g (request_of Q t lba wd) bd m)) (avail_phys Q + 2) = load16 m (avail_phys Q + 2)"
  using length_visible [OF assms(2)] driver_frames' [OF assms(1)]
  by (auto simp: execute_def request_of_def load16_def read_write_frames simp del: write_mem.simps split: option.splits)

lemma request_clear_of: "driver_ok hhdm Q v \<Longrightarrow> request_clear Q (request_of Q t lba wd)"
proof -
  assume "driver_ok hhdm Q v"
  then have "span (used_phys Q) 4096 \<inter> span (buf_phys Q) 4096 = {}" by (rule driver_frames)
  moreover have "buf_phys Q + 1024 \<in> span (buf_phys Q) 4096" "span (buf_phys Q + 512) 512 \<subseteq> span (buf_phys Q) 4096"
    using in_frame(1) [of 1024 4096] span_offset [of 512 512 4096] by simp_all
  ultimately show ?thesis unfolding request_clear_def request_of_def by auto
qed

lemma execute_request:
  shows "execute g (request_of Q VIRTIO_BLK_T_IN lba True) bd m =
      (bd, if lba < capacity g then write_mem (buf_phys Q + 1024) [0] (write_mem (buf_phys Q + 512) (visible bd lba) m)
           else write_mem (buf_phys Q + 1024) [1] m)"
    and "execute g (request_of Q VIRTIO_BLK_T_OUT lba True) bd m =
      (if lba < capacity g then (store_sector g lba (read_mem m (buf_phys Q + 512) 512) bd, write_mem (buf_phys Q + 1024) [0] m)
       else (bd, write_mem (buf_phys Q + 1024) [1] m))"
    and "write_cache g \<Longrightarrow> execute g (request_of Q VIRTIO_BLK_T_FLUSH lba False) bd m =
      (sync bd, write_mem (buf_phys Q + 1024) [0] m)"
  by (simp_all add: execute_def request_of_def const_defs)

context virtio_device begin

lemma in_ram: "unat off < 4096 \<Longrightarrow> \<not> is_mmio B (desc_phys Q + off)" "\<not> is_mmio B (desc_phys Q)"
    "unat off < 4096 \<Longrightarrow> \<not> is_mmio B (avail_phys Q + off)"
    "unat off < 4096 \<Longrightarrow> \<not> is_mmio B (used_phys Q + off)"
    "unat off < 4096 \<Longrightarrow> \<not> is_mmio B (buf_phys Q + off)" "\<not> is_mmio B (buf_phys Q)"
  using rings_in_ram in_frame by simp_all

lemma w_ram:
  "\<not> is_mmio B (phys_of hhdm va) \<Longrightarrow> w8 (B, hhdm) va b M = M\<lparr>ram := write_mem (phys_of hhdm va) (le_bytes 1 b) (ram M)\<rparr>"
  "\<not> is_mmio B (phys_of hhdm va) \<Longrightarrow> w16 (B, hhdm) va h M = M\<lparr>ram := write_mem (phys_of hhdm va) (le_bytes 2 h) (ram M)\<rparr>"
  "\<not> is_mmio B (phys_of hhdm va) \<Longrightarrow> w32 (B, hhdm) va i M = M\<lparr>ram := write_mem (phys_of hhdm va) (le_bytes 4 i) (ram M)\<rparr>"
  "\<not> is_mmio B (phys_of hhdm va) \<Longrightarrow> w64 (B, hhdm) va l M = M\<lparr>ram := write_mem (phys_of hhdm va) (le_bytes 8 l) (ram M)\<rparr>"
  by (simp_all add: w8_def w16_def w32_def w64_def bus_write_ram)

lemma write_request_ram:
  assumes "driver_ok hhdm Q v"
  shows "write_request (B, hhdm) v t lba has_data M =
    M\<lparr>ram := write_mem (desc_phys Q) (chain_bytes (buf_phys Q) t has_data)
      (write_mem (buf_phys Q + 1024) [0xFF] (write_mem (buf_phys Q) (hdr_bytes t lba) (ram M)))\<rparr>"
proof -
  have v: "vb_hdr v = hhdm + buf_phys Q" "vb_status v = hhdm + buf_phys Q + 1024" "vb_desc v = hhdm + desc_phys Q"
      "vb_hdr_phys v = buf_phys Q" "vb_data_phys v = buf_phys Q + 512" "vb_status_phys v = buf_phys Q + 1024"
    using assms by (auto simp: driver_ok_def device_queue_desc_def split: if_splits)
  have ph: "phys_of hhdm (c + (hhdm + a)) = a + c" "phys_of hhdm (hhdm + a + b) = a + b"
      "phys_of hhdm (hhdm + a) = a" for a b c
    by (simp_all add: phys_of_def algebra_simps)
  have st: "le_bytes 1 (0xFF :: u8) = [0xFF]" by (simp add: numeral_eq_Suc)
  have fl: "VIRTQ_DESC_F_NEXT OR VIRTQ_DESC_F_WRITE = 3" by (simp add: const_defs)
  show ?thesis
    by (cases has_data)
      (simp_all add: write_request_def Let_def v ph w_ram in_ram st fl write_mem_merge hdr_bytes_def
        chain_bytes_def desc_bytes_def const_defs)
qed

lemma request_avail_idx:
  assumes "vblk_inv hhdm Q g served dev_ok (M, v)"
  shows "r16 (B, hhdm) (hhdm + avail_phys Q + 2) (write_request (B, hhdm) v t lba wd M) =
    (served (devs M), write_request (B, hhdm) v t lba wd M)"
proof -
  have drv: "driver_ok hhdm Q v" and idx: "load16 (ram M) (avail_phys Q + 2) = served (devs M)"
    using assms by (simp_all add: vblk_inv_def)
  have "length (chain_bytes (buf_phys Q) t wd) \<le> 4096" by (simp add: chain_bytes_def)
  then show ?thesis
    using idx driver_frames' [OF drv]
    by (simp add: write_request_ram [OF drv] r16_def bus_read_ram in_ram load16_def read_write_frames
        read_write_frames0 del: write_mem.simps)
qed

lemma submit_published:
  assumes "vblk_inv hhdm Q g served dev_ok (M, v)"
  defines "n \<equiv> served (devs M)"
  shows "submit (B, hhdm) t lba wd (M, v) =
    (let M1 = on_devs (mmio_write B (doorbell_phys Q) 2 0) (M\<lparr>ram := published Q t lba wd n (ram M)\<rparr>);
         (ok, M2) = poll_used (B, hhdm) (hhdm + used_phys Q + 2) (n + 1) POLL_GUARD M1
     in if \<not> ok then (False, M2, v\<lparr>vb_present := False\<rparr>)
        else (ram M2 (buf_phys Q + 1024) = 0, M2, v))"
proof -
  have drv: "driver_ok hhdm Q v" using assms by (simp add: vblk_inv_def)
  have v: "vb_present v" "vb_avail v = hhdm + avail_phys Q" "vb_used v = hhdm + used_phys Q" "vb_qsize v = qsize Q"
      "vb_status v = hhdm + buf_phys Q + 1024"
      "vb_notify_base v + ucast (vb_notify_off v) * ucast (vb_notify_mul v) = hhdm + doorbell_phys Q"
    using drv by (auto simp: driver_ok_def device_queue_desc_def split: if_splits)
  note request_avail_idx [OF assms(1), of t lba wd, unfolded write_request_ram [OF drv] n_def [symmetric]]
  moreover have "\<not> is_mmio B (avail_phys Q + (4 + ucast (n mod qsize Q) * 2))"
    using slot_bounds [of Q n] drv by (intro in_ram) (simp_all add: driver_ok_def)
  moreover have "phys_of hhdm (hhdm + avail_phys Q + 4 + x) = avail_phys Q + (4 + x)" for x
    by (simp add: phys_of_def algebra_simps)
  moreover have "r8 (B, hhdm) (hhdm + buf_phys Q + 1024) M2 = (ram M2 (buf_phys Q + 1024), M2)" for M2
    by (simp add: r8_def bus_read_ram in_ram)
  moreover have "w16 (B, hhdm) (hhdm + doorbell_phys Q) 0 M1 = on_devs (mmio_write B (doorbell_phys Q) 2 0) M1" for M1
    using doorbell_mmio by (simp add: w16_def bus_write_def)
  ultimately show ?thesis
    unfolding submit_def published_def Let_def prod.case v write_request_ram [OF drv]
    by (simp add: w_ram(2) in_ram v(1) del: write_mem.simps split: prod.split)
qed

lemma submit_spec:
  assumes inv: "vblk_inv hhdm Q g served dev_ok (M, v)" and res: "submit (B, hhdm) t lba wd (M, v) = (ok, M', v')"
  defines "e \<equiv> execute g (request_of Q t lba wd) (view (devs M)) (published Q t lba wd (served (devs M)) (ram M))"
  shows "v' = v" "vblk_inv hhdm Q g served dev_ok (M', v)" "view (devs M') = fst e"
    "\<forall>a. a \<notin> span (used_phys Q) 4096 \<longrightarrow> ram M' a = snd e a" "ok \<longleftrightarrow> snd e (buf_phys Q + 1024) = 0"
proof -
  let ?n = "served (devs M)" and ?r = "request_of Q t lba wd"
  let ?m = "published Q t lba wd ?n (ram M)"
  let ?M1 = "on_devs (mmio_write B (doorbell_phys Q) 2 0) (M\<lparr>ram := ?m\<rparr>)"
  have drv: "driver_ok hhdm Q v" and ok: "dev_ok (devs M)" and used: "load16 (ram M) (used_phys Q + 2) = ?n"
    and fl: "vb_flush_ok v = write_cache g"
    using inv by (simp_all add: vblk_inv_def)
  note pub = published_spec [OF drv, where t = t and lba = lba and wd = wd and n = ?n and m = "ram M"]
  obtain k d' m' where k: "k \<le> POLL_GUARD" "spins B k (mmio_write B (doorbell_phys Q) 2 0 (devs M, ?m)) = (d', m')"
      "\<forall>j < k. load16 (snd (spins B j (mmio_write B (doorbell_phys Q) 2 0 (devs M, ?m)))) (used_phys Q + 2) = ?n"
      "dev_ok d'" "served d' = ?n + 1" "load16 m' (used_phys Q + 2) = ?n + 1" "view d' = fst e"
      "\<forall>a. a \<notin> span (used_phys Q) 4096 \<longrightarrow> m' a = snd e a"
    using serves [OF ok pub(1) pub(2) [unfolded used] pub(3) [symmetric] pub(4) request_clear_of [OF drv]]
    unfolding e_def by metis
  have M1: "(devs ?M1, ram ?M1) = mmio_write B (doorbell_phys Q) 2 0 (devs M, ?m)"
    by (simp add: on_devs_def split: prod.split)
  have "\<not> is_mmio B (used_phys Q + 2)" by (rule in_ram) simp
  then have poll: "poll_used (B, hhdm) (hhdm + used_phys Q + 2) (?n + 1) POLL_GUARD ?M1 = (True, on_devs (spins B k) ?M1)"
    using k(1,2,3,6) poll_used_finds [of "(B, hhdm)" "hhdm + used_phys Q + 2" k ?M1 "?n + 1" POLL_GUARD]
    by (simp add: M1)
  have M2: "devs (on_devs (spins B k) ?M1) = d'" "ram (on_devs (spins B k) ?M1) = m'"
    using k(2) M1 by (simp_all add: on_devs_def split: prod.split)
  have eq: "v' = v" "M' = on_devs (spins B k) ?M1" "ok \<longleftrightarrow> m' (buf_phys Q + 1024) = 0"
    using res poll M2 by (auto simp: submit_published [OF inv] Let_def)
  have "buf_phys Q + 1024 \<in> span (buf_phys Q) 4096" by (rule in_frame) simp
  then have "buf_phys Q + 1024 \<notin> span (used_phys Q) 4096" using driver_frames(6) [OF drv] by blast
  then show "ok \<longleftrightarrow> snd e (buf_phys Q + 1024) = 0" using eq k(8) by simp
  have "span (avail_phys Q + 2) 2 \<subseteq> span (avail_phys Q) 4096" by (rule span_offset) simp
  then have "read_mem m' (avail_phys Q + 2) 2 = read_mem (snd e) (avail_phys Q + 2) 2"
    using k(8) driver_frames(4) [OF drv] by (intro read_mem_cong) blast
  then have "load16 m' (avail_phys Q + 2) = ?n + 1"
    using execute_avail [OF drv view_ok [OF ok], of t lba wd ?m] pub(1) by (simp add: e_def load16_def)
  then show "vblk_inv hhdm Q g served dev_ok (M', v)"
    using drv fl k eq M2 by (simp add: vblk_inv_def)
  show "v' = v" "view (devs M') = fst e" "\<forall>a. a \<notin> span (used_phys Q) 4096 \<longrightarrow> ram M' a = snd e a"
    using eq k M2 by simp_all
qed

lemma inv_data_buffer:
  "vblk_inv hhdm Q g served dev_ok (M, v) \<Longrightarrow> vb_data v = hhdm + buf_phys Q + 512 \<and> vb_present v"
  by (auto simp: vblk_inv_def driver_ok_def device_queue_desc_def split: if_splits)

lemma read_sector_spec:
  assumes "vblk_inv hhdm Q g served dev_ok s" "read_sector (B, hhdm) lba dst s = ((ok, b), s')"
  shows "vblk_inv hhdm Q g served dev_ok s' \<and> view (devs (fst s')) = view (devs (fst s)) \<and>
    (ok \<longleftrightarrow> lba < capacity g) \<and> b = (if ok then visible (view (devs (fst s))) lba else dst)"
proof -
  obtain M v where s: "s = (M, v)" by fastforce
  obtain ok' M' v' where sub: "submit (B, hhdm) VIRTIO_BLK_T_IN lba True (M, v) = (ok', M', v')"
    by (rule prod_cases3)
  note inv = assms(1) [unfolded s]
  note sp = submit_spec [OF inv sub, unfolded execute_request]
  have drv: "driver_ok hhdm Q v" and ok: "dev_ok (devs M)" using inv by (simp_all add: vblk_inv_def)
  have res: "ok = ok'" "s' = (M', v)" "b = (if ok' then read_mem (ram M') (buf_phys Q + 512) 512 else dst)"
    using assms(2) sub sp(1) inv_data_buffer [OF inv] by (auto simp: s read_sector_def split: if_splits)
  have ok': "ok' \<longleftrightarrow> lba < capacity g" using sp(5) by simp
  have "read_mem (ram M') (buf_phys Q + 512) 512 = visible (view (devs M)) lba" if "lba < capacity g"
  proof -
    let ?b = "visible (view (devs M)) lba"
    have len: "length ?b = 512" using length_visible [OF view_ok [OF ok]] .
    have "span (buf_phys Q + 512) 512 \<subseteq> span (buf_phys Q) 4096" by (rule span_offset) simp
    then have clear: "a \<notin> span (used_phys Q) 4096" if "a \<in> span (buf_phys Q + 512) 512" for a
      using driver_frames(6) [OF drv] that by blast
    have "read_mem (ram M') (buf_phys Q + 512) 512 =
        read_mem (write_mem (buf_phys Q + 1024) [0] (write_mem (buf_phys Q + 512) ?b
          (published Q VIRTIO_BLK_T_IN lba True (served (devs M)) (ram M)))) (buf_phys Q + 512) 512"
      using sp(4) that clear by (intro read_mem_cong) simp
    also have "\<dots> = ?b"
      using read_write_same [of ?b "buf_phys Q + 512"] len by (simp add: read_write_frame del: write_mem.simps)
    finally show ?thesis .
  qed
  then show ?thesis using res ok' sp(2,3) by (simp add: s)
qed

lemma write_sector_spec:
  assumes "vblk_inv hhdm Q g served dev_ok s" "length b = 512" "write_sector (B, hhdm) lba b s = (ok, s')"
  shows "vblk_inv hhdm Q g served dev_ok s' \<and> (ok \<longleftrightarrow> lba < capacity g) \<and>
    view (devs (fst s')) = (if ok then store_sector g lba b (view (devs (fst s))) else view (devs (fst s)))"
proof -
  obtain M v where s: "s = (M, v)" by fastforce
  note inv = assms(1) [unfolded s]
  have drv: "driver_ok hhdm Q v" using inv by (simp add: vblk_inv_def)
  let ?M = "M\<lparr>ram := write_mem (buf_phys Q + 512) b (ram M)\<rparr>"
  have sub: "submit (B, hhdm) VIRTIO_BLK_T_OUT lba True (?M, v) = (ok, s')"
    using assms(3) inv_data_buffer [OF inv] by (simp add: s write_sector_def)
  then obtain M' v' where s': "s' = (M', v')" by fastforce
  have inv': "vblk_inv hhdm Q g served dev_ok (?M, v)"
    using inv driver_frames' [OF drv] assms(2) by (simp add: vblk_inv_def load16_def read_write_frames)
  note sp = submit_spec [OF inv' sub [unfolded s'], unfolded execute_request]
  have "read_mem (published Q VIRTIO_BLK_T_OUT lba True (served (devs ?M)) (ram ?M)) (buf_phys Q + 512) 512 = b"
    using published_spec(5) [OF drv] read_write_same [of b "buf_phys Q + 512" "ram M"] assms(2) by simp
  then show ?thesis using sp by (auto simp: s s' split: if_splits)
qed

lemma flush_spec:
  assumes "vblk_inv hhdm Q g served dev_ok s" "flush (B, hhdm) s = (ok, s')"
  shows "vblk_inv hhdm Q g served dev_ok s' \<and> ok \<and> view (devs (fst s')) = flushed g (view (devs (fst s)))"
proof -
  obtain M v M' v' where s: "s = (M, v)" "s' = (M', v')" by fastforce
  note inv = assms(1) [unfolded s]
  have fl: "vb_flush_ok v = write_cache g" using inv by (simp add: vblk_inv_def)
  show ?thesis
  proof (cases "write_cache g")
    case True
    then have "submit (B, hhdm) VIRTIO_BLK_T_FLUSH 0 False (M, v) = (ok, M', v')"
      using assms(2) inv_data_buffer [OF inv] fl by (simp add: s flush_def)
    note sp = submit_spec [OF inv this, unfolded execute_request(3) [OF True]]
    then show ?thesis using True by (simp add: s flushed_def)
  next
    case False
    then show ?thesis
      using assms inv_data_buffer [OF inv] fl by (simp add: s flush_def flushed_def)
  qed
qed

end

sublocale virtio_device \<subseteq> blk: reliable_block_layer "virtio_ops (B, hhdm)" g "vblk_inv hhdm Q g served dev_ok"
    "\<lambda>s. view (devs (fst s))" for hhdm
proof unfold_locales
  fix s lba dst ok b s'
  assume "vblk_inv hhdm Q g served dev_ok s"
  then show "blkdev_ok g (view (devs (fst s)))" by (auto simp: vblk_inv_def view_ok)
next
  fix s lba dst ok b s'
  assume "vblk_inv hhdm Q g served dev_ok s" "length b = 512" "blk_write (virtio_ops (B, hhdm)) lba b s = (ok, s')"
  then show "vblk_inv hhdm Q g served dev_ok s' \<and>
      (view (devs (fst s')) = store_sector g lba b (view (devs (fst s))) \<or> \<not> ok \<and> view (devs (fst s')) = view (devs (fst s)))"
    using write_sector_spec [of hhdm s b lba ok s'] by (auto simp: virtio_ops_def)
qed (auto simp: virtio_ops_def dest: read_sector_spec write_sector_spec flush_spec)

section \<open>An executable device\<close>

text \<open>
  A device that serves the queue \<open>Q\<close> from a block device held in its state: the doorbell marks the
  queue pending, the next poll parses and executes the published request and completes it in the
  used ring.
\<close>

record ramdisk =
  rd_dev :: blkdev
  rd_served :: u16
  rd_pending :: bool

definition rd_complete :: "DeviceQueueDesc \<Rightarrow> u16 \<Rightarrow> u16 \<Rightarrow> mem \<Rightarrow> mem" where
  "rd_complete Q n head m =
    write_mem (used_phys Q + 2) (le_bytes 2 (n + 1))
      (write_mem (used_phys Q + (4 + ucast (n mod qsize Q) * 8)) (le_bytes 4 (ucast head :: u32) @ le_bytes 4 (1 :: u32)) m)"

definition rd_poll :: "DeviceQueueDesc \<Rightarrow> geometry \<Rightarrow> ramdisk \<times> mem \<Rightarrow> ramdisk \<times> mem" where
  "rd_poll Q g = (\<lambda>(d, m).
    let n = rd_served d; head = load16 m (avail_phys Q + 4 + ucast (n mod qsize Q) * 2)
    in if rd_pending d \<and> load16 m (avail_phys Q + 2) \<noteq> n then
         case parse_request m (desc_phys Q) head of
           None \<Rightarrow> (d, m)
         | Some r \<Rightarrow>
             let (bd, m) = execute g r (rd_dev d) m
             in (\<lparr>rd_dev = bd, rd_served = n + 1, rd_pending = False\<rparr>, rd_complete Q n head m)
       else (d, m))"

definition rd_bus :: "DeviceQueueDesc \<Rightarrow> geometry \<Rightarrow> ramdisk bus" where
  "rd_bus Q g = \<lparr>is_mmio = \<lambda>a. a = doorbell_phys Q, mmio_read = \<lambda>_ _ d. (0, d),
     mmio_write = \<lambda>a n v (d, m). (if a = doorbell_phys Q then d\<lparr>rd_pending := True\<rparr> else d, m),
     spin_loop = rd_poll Q g, port_read = \<lambda>_ _ d. (0xFFFFFFFF, d), port_write = \<lambda>_ _ _ d. d\<rparr>"

definition rd_queue :: DeviceQueueDesc where
  "rd_queue = \<lparr>desc_phys = 0x100000, avail_phys = 0x101000, used_phys = 0x102000, buf_phys = 0x103000,
     doorbell_phys = 0xFEBF3000, qsize = 128\<rparr>"

lemma blkdev_ok_execute: "blkdev_ok g bd \<Longrightarrow> blkdev_ok g (fst (execute g r bd m))"
  by (auto simp: execute_def blkdev_ok_store blkdev_ok_sync split: option.splits)

lemma rd_complete_spec:
  assumes "0 < qsize Q" "qsize Q \<le> QSIZE"
  shows "load16 (rd_complete Q n h m) (used_phys Q + 2) = n + 1"
    and "a \<notin> span (used_phys Q) 4096 \<Longrightarrow> rd_complete Q n h m a = m a"
proof -
  show "load16 (rd_complete Q n h m) (used_phys Q + 2) = n + 1"
    using read_write_same [of "le_bytes 2 (n + 1)"] by (simp add: rd_complete_def load16_def le_word_le_bytes)
  define off :: u64 where "off = 4 + ucast (n mod qsize Q) * 8"
  have "unat (n mod qsize Q) < 128" using slot_bounds [OF assms] by blast
  then have "unat off + 8 \<le> 4096"
    by (simp add: off_def unat_word_ariths unsigned_ucast_eq take_bit_eq_mod)
  then have "span (used_phys Q + off) 8 \<subseteq> span (used_phys Q) 4096" by (rule span_offset)
  moreover have "span (used_phys Q + 2) 2 \<subseteq> span (used_phys Q) 4096" by (rule span_offset) simp
  ultimately show "a \<notin> span (used_phys Q) 4096 \<Longrightarrow> rd_complete Q n h m a = m a"
    unfolding rd_complete_def off_def [symmetric] by (auto intro!: write_mem_other trans [OF write_mem_other])
qed

lemma rd_virtio_device:
  assumes "0 < qsize Q" "qsize Q \<le> QSIZE"
    and "\<forall>p \<in> {desc_phys Q, avail_phys Q, used_phys Q, buf_phys Q}. doorbell_phys Q \<notin> span p 4096"
  shows "virtio_device (rd_bus Q g) Q g rd_dev rd_served (\<lambda>d. blkdev_ok g (rd_dev d))"
proof unfold_locales
  fix d :: ramdisk and m head r
  assume ok: "blkdev_ok g (rd_dev d)" and av: "load16 m (avail_phys Q + 2) = rd_served d + 1"
    and us: "load16 m (used_phys Q + 2) = rd_served d"
    and hd: "head = load16 m (avail_phys Q + 4 + ucast (rd_served d mod qsize Q) * 2)"
    and r: "parse_request m (desc_phys Q) head = Some r"
  let ?B = "rd_bus Q g" and ?e = "execute g r (rd_dev d) m"
  let ?dm = "mmio_write ?B (doorbell_phys Q) 2 0 (d, m)"
  have "spins ?B 1 ?dm = (\<lparr>rd_dev = fst ?e, rd_served = rd_served d + 1, rd_pending = False\<rparr>,
      rd_complete Q (rd_served d) head (snd ?e))"
    using av hd r by (simp add: spins_def rd_bus_def rd_poll_def Let_def split: prod.split)
  moreover have "snd (spins ?B 0 ?dm) = m" by (simp add: spins_def rd_bus_def)
  ultimately show "\<exists>k d' m'. k \<le> POLL_GUARD \<and> spins ?B k ?dm = (d', m') \<and>
      (\<forall>j < k. load16 (snd (spins ?B j ?dm)) (used_phys Q + 2) = rd_served d) \<and>
      blkdev_ok g (rd_dev d') \<and> rd_served d' = rd_served d + 1 \<and>
      load16 m' (used_phys Q + 2) = rd_served d + 1 \<and> rd_dev d' = fst ?e \<and>
      (\<forall>a. a \<notin> span (used_phys Q) 4096 \<longrightarrow> m' a = snd ?e a)"
    using blkdev_ok_execute [OF ok] rd_complete_spec [OF assms(1,2)] us
    by (intro exI [of _ 1] exI) (auto simp: POLL_GUARD_def)
qed (use assms(3) in \<open>auto simp: rd_bus_def\<close>)

interpretation rd: virtio_device "rd_bus rd_queue g" rd_queue g rd_dev rd_served "\<lambda>d. blkdev_ok g (rd_dev d)" for g
proof (rule rd_virtio_device)
  have "doorbell_phys rd_queue \<notin> span p 4096" if p: "unat p \<le> 0x103000" for p :: u64
  proof
    assume "doorbell_phys rd_queue \<in> span p 4096"
    then obtain i where i: "i < 4096" "doorbell_phys rd_queue = p + of_nat i" by (auto simp: span_def)
    then have "unat (p + of_nat i) = unat p + i" using p by (simp add: unat_word_ariths unat_of_nat)
    then show False using i p by (simp add: rd_queue_def)
  qed
  moreover have "\<forall>p \<in> {desc_phys rd_queue, avail_phys rd_queue, used_phys rd_queue, buf_phys rd_queue}.
      unat p \<le> 0x103000"
    by (simp add: rd_queue_def)
  ultimately show "\<forall>p \<in> {desc_phys rd_queue, avail_phys rd_queue, used_phys rd_queue, buf_phys rd_queue}.
      doorbell_phys rd_queue \<notin> span p 4096"
    by blast
qed (simp_all add: rd_queue_def QSIZE_def)

section \<open>Properties\<close>

definition demo_hhdm :: u64 where "demo_hhdm = 0xffff800000000000"

definition demo_vblk :: VirtioBlk where
  "demo_vblk = \<lparr>vb_present = True, vb_common = demo_hhdm + 0xFEBF0000, vb_notify_base = demo_hhdm + 0xFEBF3000,
     vb_notify_mul = 4, vb_notify_off = 0, vb_desc = demo_hhdm + 0x100000, vb_avail = demo_hhdm + 0x101000,
     vb_used = demo_hhdm + 0x102000, vb_desc_phys = 0x100000, vb_avail_phys = 0x101000,
     vb_used_phys = 0x102000, vb_doorbell_phys = 0xFEBF3000, vb_hdr_phys = 0x103000,
     vb_data_phys = 0x103200, vb_status_phys = 0x103400, vb_hdr = demo_hhdm + 0x103000,
     vb_data = demo_hhdm + 0x103200, vb_status = demo_hhdm + 0x103400, vb_qsize = 128, vb_flush_ok = True\<rparr>"

definition demo_disk :: blkdev where
  "demo_disk = \<lparr>stable = \<lambda>_. replicate 512 0, cached = []\<rparr>"

definition demo_geometry :: geometry where
  "demo_geometry = \<lparr>capacity = 32768, write_cache = True\<rparr>"

definition demo_machine :: "ramdisk machine" where
  "demo_machine = \<lparr>ram = \<lambda>_. 0, devs = \<lparr>rd_dev = demo_disk, rd_served = 0, rd_pending = False\<rparr>\<rparr>"

abbreviation demo_host :: "ramdisk host" where
  "demo_host \<equiv> (rd_bus rd_queue demo_geometry, demo_hhdm)"

lemma load16_zero: "load16 (\<lambda>_. 0) a = 0"
  by (simp add: load16_def numeral_2_eq_2)

lemma demo_vblk_inv:
  "vblk_inv demo_hhdm rd_queue demo_geometry rd_served (\<lambda>d. blkdev_ok demo_geometry (rd_dev d)) (demo_machine, demo_vblk)"
  by (simp add: vblk_inv_def driver_ok_def device_queue_desc_def demo_vblk_def rd_queue_def demo_geometry_def
      demo_machine_def demo_disk_def demo_hhdm_def blkdev_ok_def load16_zero QSIZE_def)

text \<open>
  C6: with a device that follows the virtio protocol, the driver implements a block device: a read
  returns the last contents written to the sector, a write changes that sector only (into the
  device's cache when it has one), a flush makes every completed write durable, requests beyond
  the capacity fail without effect, and every operation re-establishes the driver's invariant.
\<close>

theorem virtio_refines_block_device:
  assumes "virtio_device B Q g view served dev_ok" and "vblk_inv hhdm Q g served dev_ok s"
  shows "(\<forall>lba dst ok b s'. read_sector (B, hhdm) lba dst s = ((ok, b), s') \<longrightarrow>
      vblk_inv hhdm Q g served dev_ok s' \<and> view (devs (fst s')) = view (devs (fst s)) \<and>
      (ok \<longleftrightarrow> lba < capacity g) \<and> b = (if ok then visible (view (devs (fst s))) lba else dst)) \<and>
    (\<forall>lba b ok s'. length b = 512 \<longrightarrow> write_sector (B, hhdm) lba b s = (ok, s') \<longrightarrow>
      vblk_inv hhdm Q g served dev_ok s' \<and> (ok \<longleftrightarrow> lba < capacity g) \<and>
      view (devs (fst s')) = (if ok then store_sector g lba b (view (devs (fst s))) else view (devs (fst s))) \<and>
      visible (view (devs (fst s'))) =
        (if ok then (visible (view (devs (fst s))))(lba := b) else visible (view (devs (fst s))))) \<and>
    (\<forall>ok s'. flush (B, hhdm) s = (ok, s') \<longrightarrow> vblk_inv hhdm Q g served dev_ok s' \<and> ok \<and>
      stable (view (devs (fst s'))) = visible (view (devs (fst s))) \<and> cached (view (devs (fst s'))) = [])"
proof -
  have ok: "blkdev_ok g (view (devs (fst s)))"
    using assms(2) virtio_device.view_ok [OF assms(1)] by (auto simp: vblk_inv_def)
  then have "stable (flushed g (view (devs (fst s)))) = visible (view (devs (fst s)))"
      "cached (flushed g (view (devs (fst s)))) = []"
    by (auto simp: flushed_def sync_def blkdev_ok_def visible_def apply_writes_def)
  note fl = this virtio_device.flush_spec [OF assms]
  note wr = virtio_device.write_sector_spec [OF assms] visible_store [OF ok]
  show ?thesis
    by (intro conjI) (simp add: virtio_device.read_sector_spec [OF assms], simp add: wr, auto simp: fl(1,2) dest: fl(3))
qed

theorem virtio_refines_block_device_witness:
  "fst (read_sector demo_host 5 (replicate 512 0) (snd (write_sector demo_host 5 smoke_pattern (demo_machine, demo_vblk)))) =
     (True, smoke_pattern)"
proof -
  have len: "length smoke_pattern = 512" by (simp add: smoke_pattern_def)
  obtain ok s' where w: "write_sector demo_host 5 smoke_pattern (demo_machine, demo_vblk) = (ok, s')"
    by (rule prod.exhaust)
  note W = virtio_refines_block_device [OF rd.virtio_device_axioms demo_vblk_inv, THEN conjunct2, THEN conjunct1,
      rule_format, OF len w]
  have ok: "ok" using W by (simp add: demo_geometry_def)
  obtain x s'' where "read_sector demo_host 5 (replicate 512 0) s' = (x, s'')" by (rule prod.exhaust)
  moreover obtain ok' b where "x = (ok', b)" by (rule prod.exhaust)
  ultimately have r: "read_sector demo_host 5 (replicate 512 0) s' = ((ok', b), s'')" by simp
  note R = virtio_refines_block_device [OF rd.virtio_device_axioms W [THEN conjunct1], THEN conjunct1, rule_format, OF r]
  have "visible (rd_dev (devs (fst s'))) 5 = smoke_pattern"
    using W [THEN conjunct2, THEN conjunct2, THEN conjunct2] ok by simp
  moreover have "ok'" using R by (simp add: demo_geometry_def)
  ultimately have "ok' \<and> b = smoke_pattern" using R by simp
  then show ?thesis using w r by simp
qed

text \<open>
  C26: the driver fails closed, whatever the device does. Every request returns; after it either the
  used index has reached exactly the value published for this request, so nothing is in flight,
  or the request failed and the driver is disabled. A disabled driver refuses every operation
  and touches neither the machine nor the caller's buffer.
\<close>

theorem submit_fails_closed:
  assumes "\<not> is_mmio (fst H) (phys_of (snd H) (vb_used v + 2))"
  shows "(vb_present v \<longrightarrow> submit H t lba wd (M, v) = (ok, M', v') \<longrightarrow>
      (if vb_present v'
       then v' = v \<and> load16 (ram M') (phys_of (snd H) (vb_used v + 2)) =
              fst (r16 H (vb_avail v + 2) (write_request H v t lba wd M)) + 1
       else \<not> ok \<and> v' = v\<lparr>vb_present := False\<rparr>)) \<and>
    (\<not> vb_present v \<longrightarrow> submit H t lba wd (M, v) = (False, M, v) \<and>
      read_sector H lba dst (M, v) = ((False, dst), M, v) \<and> write_sector H lba b (M, v) = (False, M, v) \<and>
      flush H (M, v) = (False, M, v))"
proof -
  have ram: "ram M3 = ram M2" if "r8 H a M2 = (st, M3)" for a M2 st M3
    using that by (auto simp: r8_def bus_read_def Let_def split: prod.splits if_splits)
  show ?thesis
    using assms
    by (auto simp: submit_def read_sector_def write_sector_def flush_def Let_def ram
        split: prod.splits if_splits dest!: poll_used_reached)
qed

theorem submit_fails_closed_witness:
  "submit demo_host VIRTIO_BLK_T_IN 5 True (demo_machine, VBLK_initial) = (False, demo_machine, VBLK_initial) \<and>
   load16 (ram (fst (snd (submit demo_host VIRTIO_BLK_T_IN 5 True (demo_machine, demo_vblk))))) 0x102002 = 1"
proof
  show "submit demo_host VIRTIO_BLK_T_IN 5 True (demo_machine, VBLK_initial) = (False, demo_machine, VBLK_initial)"
    by (rule submit_fails_closed [where v = VBLK_initial and H = demo_host, THEN conjunct2, rule_format, THEN conjunct1])
      (simp_all add: VBLK_initial_def rd_bus_def rd_queue_def phys_of_def demo_hhdm_def)
  obtain ok M' v' where sub: "submit demo_host VIRTIO_BLK_T_IN 5 True (demo_machine, demo_vblk) = (ok, M', v')"
    by (rule prod_cases3)
  have v': "v' = demo_vblk" using rd.submit_spec(1) [OF demo_vblk_inv sub] .
  have "load16 (ram M') (used_phys rd_queue + 2) =
      fst (r16 demo_host (vb_avail demo_vblk + 2)
        (write_request demo_host demo_vblk VIRTIO_BLK_T_IN 5 True demo_machine)) + 1"
    using submit_fails_closed [where v = demo_vblk and H = demo_host, THEN conjunct1, rule_format, OF _ _ sub]
    by (simp add: v' demo_vblk_def rd_bus_def rd_queue_def phys_of_def demo_hhdm_def)
  also have "vb_avail demo_vblk = demo_hhdm + avail_phys rd_queue" by (simp add: demo_vblk_def rd_queue_def)
  also have "fst (r16 demo_host (demo_hhdm + avail_phys rd_queue + 2)
        (write_request demo_host demo_vblk VIRTIO_BLK_T_IN 5 True demo_machine)) = 0"
    unfolding rd.request_avail_idx [OF demo_vblk_inv] by (simp add: demo_machine_def)
  also have "used_phys rd_queue + 2 = 0x102002" by (simp add: rd_queue_def)
  finally show "load16 (ram (fst (snd (submit demo_host VIRTIO_BLK_T_IN 5 True (demo_machine, demo_vblk))))) 0x102002 = 1"
    by (simp add: sub)
qed

end
