(* ===== verification/CrashSafety.thy ===== *)
theory CrashSafety
  imports ObjStore VirtioDevice "HOL-Library.Sublist"
begin

text \<open>
  What the object store guarantees: superblocks survive encoding, extents are hashed as one byte
  string, \<^verbatim>\<open>mount\<close> never formats over a slot it could not read, and \<^verbatim>\<open>put\<close> is crash consistent: a
  power failure at any point leaves a disk on which \<^verbatim>\<open>mount\<close> finds the old or the new root, with its
  bytes intact, and the new one once \<^verbatim>\<open>put\<close> has returned.
\<close>

section \<open>Byte layout\<close>

lemma le_word_append1: "le_word (xs @ [y]) = le_word xs OR push_bit (8 * length xs) (ucast y)"
  by (induction xs) (simp_all add: push_bit_or push_bit_push_bit add.commute or.assoc)

lemma le_bytes_map: "le_bytes n v = map (\<lambda>i. ucast (drop_bit (i * 8) v)) [0..<n]"
  by (rule nth_equalityI) (simp_all add: nth_le_bytes mult.commute)

lemma foldl_update_splice:
  "off + n \<le> length b \<Longrightarrow>
    foldl (\<lambda>b i. b[off + i := f i]) b [0..<n] = take off b @ map f [0..<n] @ drop (off + n) b"
proof (induction n)
  case (Suc n)
  then have "drop (off + n) b = b ! (off + n) # drop (off + Suc n) b" by (simp add: Cons_nth_drop_Suc)
  with Suc show ?case by (simp add: list_update_append)
qed simp

lemma foldl_read_word:
  "off + n \<le> length b \<Longrightarrow>
    foldl (\<lambda>v i. v OR push_bit (i * 8) (ucast (b ! (off + i)))) 0 [0..<n] = le_word (take n (drop off b))"
proof (induction n)
  case (Suc n)
  then have "take (Suc n) (drop off b) = take n (drop off b) @ [b ! (off + n)]"
    by (simp add: take_Suc_conv_app_nth)
  with Suc show ?case by (simp add: le_word_append1 mult.commute)
qed simp

lemma wr_splice:
  "off + 8 \<le> length b \<Longrightarrow> wr_u64 off v b = take off b @ le_bytes 8 v @ drop (off + 8) b"
  "off + 4 \<le> length b \<Longrightarrow> wr_u32 off w b = take off b @ le_bytes 4 w @ drop (off + 4) b"
  by (simp_all only: wr_u64_def wr_u32_def foldl_update_splice le_bytes_map)

lemma rd_slice:
  "off + 8 \<le> length b \<Longrightarrow> rd_u64 b off = le_word (take 8 (drop off b))"
  "off + 4 \<le> length b \<Longrightarrow> rd_u32 b off = le_word (take 4 (drop off b))"
  by (simp_all only: rd_u64_def rd_u32_def foldl_read_word)

text \<open>The first 56 bytes of a superblock, and the whole sector.\<close>

definition sb_body :: "Superblock \<Rightarrow> u8 list" where
  "sb_body sb = le_bytes 8 SB_MAGIC @ le_bytes 4 SB_VERSION @ replicate 4 0 @ le_bytes 8 (seq sb) @
     le_bytes 8 (log_head_lba sb) @ le_bytes 8 (root_lba sb) @ le_bytes 4 (root_len sb) @ replicate 4 0 @
     le_bytes 8 (root_hash sb)"

lemma length_sb_body [simp]: "length (sb_body sb) = 56"
  by (simp add: sb_body_def)

lemma sb_sector_bytes: "sb_sector sb = sb_body sb @ le_bytes 8 (fnv1a (sb_body sb)) @ replicate 448 0"
  unfolding sb_sector_def Let_def const_defs by (simp add: wr_splice sb_body_def const_defs)

lemma length_sb_sector [simp]: "length (sb_sector sb) = 512"
  by (simp add: sb_sector_bytes)

lemma decode_sb_sector: "decode_slot (sb_sector sb) = Valid sb"
proof -
  have t: "take 56 (sb_sector sb) = sb_body sb" by (simp add: sb_sector_bytes)
  have "rd_u64 (sb_sector sb) 0 = SB_MAGIC" "rd_u64 (sb_sector sb) 16 = seq sb"
      "rd_u64 (sb_sector sb) 24 = log_head_lba sb" "rd_u64 (sb_sector sb) 32 = root_lba sb"
      "rd_u32 (sb_sector sb) 40 = root_len sb" "rd_u64 (sb_sector sb) 48 = root_hash sb"
      "rd_u64 (sb_sector sb) 56 = fnv1a (sb_body sb)"
    by (simp_all add: rd_slice sb_sector_bytes sb_body_def le_word_le_bytes)
  then show ?thesis unfolding decode_slot_def using t by (simp add: const_defs)
qed

section \<open>Extents\<close>

lemma fnv1a_step_append: "fnv1a_step h (xs @ ys) = fnv1a_step (fnv1a_step h xs) ys"
  by (simp add: fnv1a_step_def)

text \<open>The bytes of an extent on a disk, and the sectors \<^verbatim>\<open>put\<close> stores a byte string in.\<close>

definition extent_bytes :: "(u64 \<Rightarrow> u8 list) \<Rightarrow> u64 \<Rightarrow> nat \<Rightarrow> u8 list" where
  "extent_bytes f lba len = take len (concat (map (\<lambda>i. f (lba + of_nat i)) [0..<div_ceil_512 len]))"

definition sector_of :: "u8 list \<Rightarrow> nat \<Rightarrow> u8 list" where
  "sector_of bs i = (let c = take 512 (drop (512 * i) bs) in c @ replicate (512 - length c) 0)"

lemma length_sector_of [simp]: "length (sector_of bs i) = 512"
  by (simp add: sector_of_def Let_def)

lemma div_ceil_512_Suc: "0 < n \<Longrightarrow> div_ceil_512 n = Suc (div_ceil_512 (n - 512))"
  by (cases "n < 512") (auto simp: div_ceil_512_def le_div_geq le_mod_geq not_less)

lemma concat_sectors: "take (length bs) (concat (map (sector_of bs) [0..<div_ceil_512 (length bs)])) = bs"
proof (induction "length bs" arbitrary: bs rule: less_induct)
  case less
  show ?case
  proof (cases "bs = []")
    case False
    let ?r = "drop 512 bs"
    have "map (sector_of bs) [0..<div_ceil_512 (length bs)] =
        sector_of bs 0 # map (sector_of ?r) [0..<div_ceil_512 (length ?r)]"
      using False
      by (simp add: div_ceil_512_Suc [of "length bs"] map_Suc_upt [symmetric] upt_conv_Cons sector_of_def add.commute
          del: upt_Suc map_Suc_upt)
    moreover have "take (length ?r) (concat (map (sector_of ?r) [0..<div_ceil_512 (length ?r)])) = ?r"
      using False by (intro less) simp
    ultimately show ?thesis
      using append_take_drop_id [of 512 bs] by (cases "length bs \<le> 512") (simp_all add: sector_of_def Let_def min_def)
  qed (simp add: div_ceil_512_def)
qed

section \<open>The operations over a block layer\<close>

definition store_all :: "geometry \<Rightarrow> (u64 \<times> u8 list) list \<Rightarrow> blkdev \<Rightarrow> blkdev" where
  "store_all g = fold (\<lambda>(l, b). store_sector g l b)"

definition data_writes :: "u64 \<Rightarrow> u8 list \<Rightarrow> (u64 \<times> u8 list) list" where
  "data_writes lba bs = map (\<lambda>i. (lba + of_nat i, sector_of bs i)) [0..<div_ceil_512 (length bs)]"

lemma store_all_simps [simp]: "store_all g [] bd = bd" "store_all g ((l, b) # ws) bd = store_all g ws (store_sector g l b bd)"
  "store_all g (ws @ ws') bd = store_all g ws' (store_all g ws bd)"
  by (simp_all add: store_all_def)

text \<open>What a \<^verbatim>\<open>put\<close> appends to the log, and the superblock it commits.\<close>

definition log_writes :: "Superblock \<Rightarrow> u8 list \<Rightarrow> (u64 \<times> u8 list) list" where
  "log_writes cur bs = data_writes (log_head_lba cur) bs @
     [(log_head_lba cur + of_nat (div_ceil_512 (length bs)),
       record_header (of_nat (length bs)) (fnv1a bs) (root_lba cur))]"

definition next_sb :: "Superblock \<Rightarrow> u8 list \<Rightarrow> Superblock" where
  "next_sb cur bs = \<lparr>seq = seq cur + 1, log_head_lba = log_head_lba cur + of_nat (div_ceil_512 (length bs)) + 1,
     root_lba = log_head_lba cur, root_len = of_nat (length bs), root_hash = fnv1a bs\<rparr>"

definition other_slot :: "u64 \<Rightarrow> u64" where
  "other_slot slot = (if slot = LBA_SB_A then LBA_SB_B else LBA_SB_A)"

lemma length_record_header [simp]: "length (record_header len h prev) = 512"
  by (simp add: record_header_def Let_def wr_splice const_defs)

context block_layer begin

lemma hash_sectors_spec:
  assumes "inv s" "hash_sectors ops lba len h consumed i n s = (r, s')"
  shows "inv s' \<and> dev s' = dev s \<and>
    (\<forall>h'. r = Some h' \<longrightarrow>
       h' = fnv1a_step h (take (len - consumed) (concat (map (\<lambda>i. visible (dev s) (lba + of_nat i)) [i..<i + n]))))"
  using assms
proof (induction n arbitrary: h consumed i s)
  case 0
  then show ?case by (auto simp: fnv1a_step_def)
next
  case (Suc n)
  obtain ok sect s1 where rd: "blk_read ops (lba + of_nat i) (replicate 512 0) s = ((ok, sect), s1)" by (metis prod.exhaust)
  note R = dev_read [OF Suc.prems(1) rd]
  show ?case
  proof (cases ok)
    case False
    then show ?thesis using Suc.prems rd R by auto
  next
    case True
    let ?k = "if 512 \<le> len - consumed then 512 else len - consumed"
    have len: "length sect = 512" using length_visible [OF inv_dev [OF Suc.prems(1)]] R True by simp
    have rest: "hash_sectors ops lba len (fnv1a_step h (take ?k sect)) (consumed + ?k) (Suc i) n s1 = (r, s')"
      using Suc.prems(2) rd True by (simp add: Let_def)
    have "[i..<i + Suc n] = i # [Suc i..<Suc i + n]" by (simp add: upt_conv_Cons del: upt_Suc)
    moreover have "take (len - consumed) (sect @ xs) = take ?k sect @ take (len - (consumed + ?k)) xs" for xs
      using len by simp
    ultimately show ?thesis
      using Suc.IH [OF _ rest] R True by (simp add: fnv1a_step_append)
  qed
qed

lemma extent_content_hash_spec:
  assumes "inv s" "extent_content_hash ops lba len s = (r, s')"
  shows "inv s' \<and> dev s' = dev s \<and> (\<forall>h. r = Some h \<longrightarrow> h = fnv1a (extent_bytes (visible (dev s)) lba (unat len)))"
  using hash_sectors_spec [OF assms(1) assms(2) [unfolded extent_content_hash_def]]
  by (simp add: fnv1a_def extent_bytes_def)

lemma put_data_spec:
  assumes "inv s" "written = min (512 * i) (length bs)" "put_data ops lba bs written i n s = (ok, s')"
  shows "inv s' \<and> (\<exists>ws. prefix ws (map (\<lambda>i. (lba + of_nat i, sector_of bs i)) [i..<i + n]) \<and>
    dev s' = store_all g ws (dev s) \<and> (ok \<longrightarrow> ws = map (\<lambda>i. (lba + of_nat i, sector_of bs i)) [i..<i + n]))"
  using assms
proof (induction n arbitrary: written i s)
  case (Suc n)
  let ?k = "if 512 \<le> length bs - written then 512 else length bs - written"
  let ?sect = "take ?k (drop written bs) @ replicate (512 - ?k) 0"
  let ?W = "\<lambda>a n. map (\<lambda>i. (lba + of_nat i, sector_of bs i)) [a..<a + n]"
  have sect: "?sect = sector_of bs i"
    unfolding Suc.prems(2) by (cases "512 * i \<le> length bs") (auto simp: sector_of_def Let_def min_def)
  obtain ok1 s1 where w: "blk_write ops (lba + of_nat i) (sector_of bs i) s = (ok1, s1)" by fastforce
  note W = dev_write [OF Suc.prems(1) length_sector_of w]
  have W1: "?W i (Suc n) = (lba + of_nat i, sector_of bs i) # ?W (Suc i) n" by (simp add: upt_conv_Cons del: upt_Suc)
  show ?case
  proof (cases ok1)
    case False
    then have "\<not> ok" "s' = s1" using Suc.prems(3) w sect by (simp_all add: Let_def)
    moreover have "prefix [] (?W i (Suc n))" "prefix [(lba + of_nat i, sector_of bs i)] (?W i (Suc n))" unfolding W1 by simp_all
    moreover have "dev s1 = store_all g [] (dev s) \<or> dev s1 = store_all g [(lba + of_nat i, sector_of bs i)] (dev s)"
      using W by auto
    ultimately show ?thesis using W by blast
  next
    case True
    then have rest: "put_data ops lba bs (written + ?k) (Suc i) n s1 = (ok, s')"
      using Suc.prems(3) w sect by (simp add: Let_def)
    have "written + ?k = min (512 * Suc i) (length bs)" using Suc.prems(2) by auto
    from Suc.IH [OF _ this rest] obtain ws where "inv s'" "prefix ws (?W (Suc i) n)" "dev s' = store_all g ws (dev s1)"
        "ok \<longrightarrow> ws = ?W (Suc i) n"
      using W by blast
    then show ?thesis
      using W True unfolding W1 by (intro conjI exI [of _ "(lba + of_nat i, sector_of bs i) # ws"]) auto
  qed
qed simp

lemma put_spec:
  assumes "inv (blk st)" "MOUNTED_OK st" "length bs \<le> 0xFFFFFFFF" "put ops bs st = (r, st')"
  defines "W \<equiv> log_writes (MOUNTED st) bs" and "sb \<equiv> next_sb (MOUNTED st) bs"
    and "slot \<equiv> other_slot (MOUNTED_SLOT st)"
  defines "bd \<equiv> flushed g (store_all g W (dev (blk st)))"
  shows "inv (blk st') \<and> MOUNTED_OK st' \<and>
    (r = None \<and> MOUNTED st' = MOUNTED st \<and> MOUNTED_SLOT st' = MOUNTED_SLOT st \<and>
       ((\<exists>ws. prefix ws W \<and> dev (blk st') = store_all g ws (dev (blk st))) \<or> dev (blk st') = bd \<or>
        dev (blk st') = store_sector g slot (sb_sector sb) bd \<or>
        dev (blk st') = flushed g (store_sector g slot (sb_sector sb) bd)) \<or>
     r = Some (root_lba sb, root_len sb, root_hash sb) \<and> MOUNTED st' = sb \<and> MOUNTED_SLOT st' = slot \<and>
       dev (blk st') = flushed g (store_sector g slot (sb_sector sb) bd))"
proof -
  let ?cur = "MOUNTED st" and ?n = "div_ceil_512 (length bs)"
  let ?lba = "log_head_lba ?cur" and ?h = "fnv1a bs"
  let ?hdr = "record_header (of_nat (length bs)) ?h (root_lba ?cur)"
  have W: "W = data_writes ?lba bs @ [(?lba + of_nat ?n, ?hdr)]" by (simp add: W_def log_writes_def)
  obtain ok1 s1 where 1: "put_data ops ?lba bs 0 0 ?n (blk st) = (ok1, s1)" by fastforce
  from put_data_spec [OF assms(1) _ 1] obtain ws where d1: "inv s1" "prefix ws (data_writes ?lba bs)"
      "dev s1 = store_all g ws (dev (blk st))" "ok1 \<longrightarrow> ws = data_writes ?lba bs"
    by (auto simp: data_writes_def)
  obtain ok2 s2 where 2: "blk_write ops (?lba + of_nat ?n) ?hdr s1 = (ok2, s2)" by fastforce
  note d2 = dev_write [OF d1(1) length_record_header 2]
  obtain ok3 s3 where 3: "blk_flush ops s2 = (ok3, s3)" by fastforce
  note d3 = dev_flush [OF d2 [THEN conjunct1] 3]
  obtain ok4 s4 where 4: "blk_write ops slot (sb_sector sb) s3 = (ok4, s4)" by fastforce
  note d4 = dev_write [OF d3 [THEN conjunct1] length_sb_sector 4]
  obtain ok5 s5 where 5: "blk_flush ops s4 = (ok5, s5)" by fastforce
  note d5 = dev_flush [OF d4 [THEN conjunct1] 5]
  have sb: "sb = \<lparr>seq = seq ?cur + 1, log_head_lba = ?lba + of_nat ?n + 1, root_lba = ?lba,
      root_len = of_nat (length bs), root_hash = ?h\<rparr>"
    by (simp add: sb_def next_sb_def)
  have res: "(r, st') =
     (if \<not> ok1 then (None, st\<lparr>blk := s1\<rparr>) else if \<not> ok2 then (None, st\<lparr>blk := s2\<rparr>)
      else if \<not> ok3 then (None, st\<lparr>blk := s3\<rparr>) else if \<not> ok4 then (None, st\<lparr>blk := s4\<rparr>)
      else if \<not> ok5 then (None, st\<lparr>blk := s5\<rparr>)
      else (Some (root_lba sb, root_len sb, root_hash sb), st\<lparr>blk := s5, MOUNTED := sb, MOUNTED_SLOT := slot\<rparr>))"
    using assms(2-4) 1 2 3 4 5 unfolding sb slot_def other_slot_def
    by (simp add: put_def write_superblock_def Let_def split: if_splits)
  have pre: "prefix ws W" "prefix (data_writes ?lba bs) W" "prefix W W"
    using d1(2) by (auto simp: W intro: prefix_order.trans)
  have st2: "\<exists>ws. prefix ws W \<and> dev s2 = store_all g ws (dev (blk st))" if ok1
  proof -
    have "dev s2 = store_all g W (dev (blk st)) \<or> dev s2 = store_all g (data_writes ?lba bs) (dev (blk st))"
      using d1 d2 that by (auto simp: W)
    then show ?thesis using pre by blast
  qed
  have full: "dev s2 = store_all g W (dev (blk st))" if ok1 ok2 using d1 d2 that by (simp add: W)
  show ?thesis
    using res d1 d2 d3 d4 d5 assms(2) pre(1) st2 full unfolding bd_def by (auto split: if_splits)
qed

end

section \<open>Power failure\<close>

text \<open>
  A disk a power failure may leave: every sector holds its stable contents or a cached write to
  it, or is torn. A torn superblock does not validate; a torn log sector may hold anything.
\<close>

definition torn :: "u64 \<Rightarrow> u8 list \<Rightarrow> bool" where
  "torn l b \<longleftrightarrow> length b = 512 \<and> (l = LBA_SB_A \<or> l = LBA_SB_B \<longrightarrow> decode_slot b = Invalid)"

definition crash_image :: "blkdev \<Rightarrow> (u64 \<Rightarrow> u8 list) \<Rightarrow> bool" where
  "crash_image bd f \<longleftrightarrow> (\<forall>l. f l = stable bd l \<or> (\<exists>b. (l, b) \<in> set (cached bd) \<and> (f l = b \<or> torn l (f l))))"

text \<open>A disk on which \<open>cur\<close>, in \<open>slot\<close>, is the live superblock, and its root is intact below the log head.\<close>

definition root_ok :: "(u64 \<Rightarrow> u8 list) \<Rightarrow> Superblock \<Rightarrow> bool" where
  "root_ok f cur \<longleftrightarrow> LBA_LOG_START \<le> log_head_lba cur \<and>
     (root_len cur \<noteq> 0 \<longrightarrow>
        unat (root_lba cur) + div_ceil_512 (unat (root_len cur)) \<le> unat (log_head_lba cur) \<and>
        LBA_LOG_START \<le> root_lba cur \<and>
        fnv1a (extent_bytes f (root_lba cur) (unat (root_len cur))) = root_hash cur)"

definition disk_ok :: "(u64 \<Rightarrow> u8 list) \<Rightarrow> Superblock \<Rightarrow> u64 \<Rightarrow> bool" where
  "disk_ok f cur slot \<longleftrightarrow> slot \<in> {LBA_SB_A, LBA_SB_B} \<and> decode_slot (f slot) = Valid cur \<and>
     (\<forall>sb. decode_slot (f (other_slot slot)) = Valid sb \<longrightarrow> seq sb < seq cur) \<and> root_ok f cur"

definition store_ok :: "blkdev \<Rightarrow> Superblock \<Rightarrow> u64 \<Rightarrow> bool" where
  "store_ok bd cur slot \<longleftrightarrow> disk_ok (stable bd) cur slot \<and> (\<forall>(l, b) \<in> set (cached bd). log_head_lba cur \<le> l)"

lemma other_slot_simps: "slot \<in> {LBA_SB_A, LBA_SB_B} \<Longrightarrow> other_slot slot \<in> {LBA_SB_A, LBA_SB_B}"
    "slot \<in> {LBA_SB_A, LBA_SB_B} \<Longrightarrow> other_slot (other_slot slot) = slot"
    "slot \<in> {LBA_SB_A, LBA_SB_B} \<Longrightarrow> other_slot slot \<noteq> slot"
    "slot \<in> {LBA_SB_A, LBA_SB_B} \<Longrightarrow> slot < LBA_LOG_START"
    "slot \<in> {LBA_SB_A, LBA_SB_B} \<Longrightarrow> other_slot slot < LBA_LOG_START"
  by (auto simp: other_slot_def const_defs)

lemma sector_index:
  fixes lba :: u64
  assumes "unat lba + n \<le> 2 ^ 64" "i < n"
  shows "unat (lba + of_nat i) = unat lba + i"
  using assms by (simp add: unat_word_ariths unat_of_nat)

lemma root_ok_cong:
  assumes "root_ok f cur" "\<And>l. LBA_LOG_START \<le> l \<Longrightarrow> l < log_head_lba cur \<Longrightarrow> f' l = f l"
  shows "root_ok f' cur"
proof -
  have "extent_bytes f' (root_lba cur) (unat (root_len cur)) = extent_bytes f (root_lba cur) (unat (root_len cur))"
    if "root_len cur \<noteq> 0"
  proof -
    have b: "unat (root_lba cur) + div_ceil_512 (unat (root_len cur)) \<le> unat (log_head_lba cur)"
        "LBA_LOG_START \<le> root_lba cur"
      using assms(1) that by (auto simp: root_ok_def)
    have "f' (root_lba cur + of_nat i) = f (root_lba cur + of_nat i)" if "i < div_ceil_512 (unat (root_len cur))" for i
    proof (rule assms(2))
      have "unat (root_lba cur + of_nat i) = unat (root_lba cur) + i"
        using b that unat_less_power [of "log_head_lba cur"] by (intro sector_index [of _ "Suc i"]) simp_all
      then show "LBA_LOG_START \<le> root_lba cur + of_nat i" "root_lba cur + of_nat i < log_head_lba cur"
        using b that by (simp_all add: word_le_nat_alt word_less_nat_alt)
    qed
    then show ?thesis unfolding extent_bytes_def by (intro arg_cong [of _ _ "take _"] arg_cong [of _ _ concat]) simp
  qed
  then show ?thesis using assms(1) by (auto simp: root_ok_def)
qed

lemma disk_ok_cong:
  assumes "disk_ok f cur slot" "\<And>l. l < log_head_lba cur \<Longrightarrow> f' l = f l"
  shows "disk_ok f' cur slot"
proof -
  have head: "LBA_LOG_START \<le> log_head_lba cur" and slot: "slot \<in> {LBA_SB_A, LBA_SB_B}"
    using assms(1) by (simp_all add: disk_ok_def root_ok_def)
  have "f' slot = f slot" "f' (other_slot slot) = f (other_slot slot)"
    using other_slot_simps(4,5) [OF slot] head by (simp_all add: assms(2) less_le_trans)
  moreover have "root_ok f cur" using assms(1) by (simp add: disk_ok_def)
  then have "root_ok f' cur" using root_ok_cong assms(2) by blast
  ultimately show ?thesis using assms(1) by (simp add: disk_ok_def)
qed

lemma crash_below:
  assumes "\<forall>(l, b) \<in> set (cached bd). p \<le> l" "crash_image bd f" "l < p"
  shows "f l = stable bd l"
  using assms unfolding crash_image_def by (metis (no_types, lifting) case_prodD leD)

lemma crash_old: "store_ok bd cur slot \<Longrightarrow> crash_image bd f \<Longrightarrow> disk_ok f cur slot"
  unfolding store_ok_def by (metis disk_ok_cong crash_below)

section \<open>What put does to the disk\<close>

lemma apply_writes_other: "l \<notin> fst ` set ws \<Longrightarrow> apply_writes ws f l = f l"
  by (induction ws arbitrary: f) (auto simp: apply_writes_def)

lemma apply_writes_distinct: "distinct (map fst ws) \<Longrightarrow> (l, b) \<in> set ws \<Longrightarrow> apply_writes ws f l = b"
proof (induction ws arbitrary: f)
  case (Cons w ws)
  then show ?case using apply_writes_other [of l ws "f(l := b)"] by (auto simp: apply_writes_def)
qed simp

lemma store_all_ok:
  "blkdev_ok g bd \<Longrightarrow> \<forall>(l, b) \<in> set ws. length b = 512 \<Longrightarrow>
    blkdev_ok g (store_all g ws bd) \<and> visible (store_all g ws bd) = apply_writes ws (visible bd)"
  by (induction ws arbitrary: bd) (auto simp: blkdev_ok_store visible_store apply_writes_def)

lemma store_all_below:
  "\<forall>(l, b) \<in> set (cached bd) \<union> set ws. p \<le> l \<Longrightarrow>
    (\<forall>(l, b) \<in> set (cached (store_all g ws bd)). p \<le> l) \<and> (\<forall>l < p. stable (store_all g ws bd) l = stable bd l)"
proof (induction ws arbitrary: bd)
  case (Cons w ws)
  obtain l b where w: "w = (l, b)" by fastforce
  have "\<forall>(l, b) \<in> set (cached (store_sector g l b bd)) \<union> set ws. p \<le> l" "\<forall>l' < p. stable (store_sector g l b bd) l' = stable bd l'"
    using Cons.prems by (auto simp: w store_sector_def)
  with Cons.IH show ?case by (simp add: w)
qed simp

lemma visible_below: "\<forall>(l, b) \<in> set (cached bd). p \<le> l \<Longrightarrow> l < p \<Longrightarrow> visible bd l = stable bd l"
  unfolding visible_def by (rule apply_writes_other) fastforce

lemma flushed_ok: "blkdev_ok g bd \<Longrightarrow> stable (flushed g bd) = visible bd \<and> cached (flushed g bd) = [] \<and> blkdev_ok g (flushed g bd)"
  by (auto simp: flushed_def blkdev_ok_sync) (auto simp: sync_def blkdev_ok_def visible_def apply_writes_def)

text \<open>The log has room for an object: its sectors do not run over the end of the address space.\<close>

definition log_room :: "Superblock \<Rightarrow> u8 list \<Rightarrow> bool" where
  "log_room cur bs \<longleftrightarrow> length bs \<le> 0xFFFFFFFF \<and> seq cur \<noteq> - 1 \<and>
     unat (log_head_lba cur) + div_ceil_512 (length bs) + 1 < 2 ^ 64"

lemma log_writes_props:
  assumes "log_room cur bs"
  shows "\<forall>(l, b) \<in> set (log_writes cur bs). length b = 512" "\<forall>(l, b) \<in> set (log_writes cur bs). log_head_lba cur \<le> l"
    "distinct (map fst (log_writes cur bs))"
    "i < div_ceil_512 (length bs) \<Longrightarrow> (log_head_lba cur + of_nat i, sector_of bs i) \<in> set (log_writes cur bs)"
proof -
  let ?p = "log_head_lba cur" and ?n = "div_ceil_512 (length bs)"
  have idx: "unat (?p + of_nat i) = unat ?p + i" if "i \<le> ?n" for i
    using assms that by (intro sector_index [of _ "Suc ?n"]) (simp_all add: log_room_def)
  show "\<forall>(l, b) \<in> set (log_writes cur bs). length b = 512"
    "i < ?n \<Longrightarrow> (?p + of_nat i, sector_of bs i) \<in> set (log_writes cur bs)"
    by (auto simp: log_writes_def data_writes_def)
  show "\<forall>(l, b) \<in> set (log_writes cur bs). ?p \<le> l"
    using idx by (auto simp: log_writes_def data_writes_def word_le_nat_alt)
  have fsts: "map fst (log_writes cur bs) = map (\<lambda>i. ?p + of_nat i) [0..<Suc ?n]"
    by (simp add: log_writes_def data_writes_def comp_def)
  have "inj_on (\<lambda>i. ?p + of_nat i) {0..<Suc ?n}"
  proof (rule inj_onI)
    fix i j assume "i \<in> {0..<Suc ?n}" "j \<in> {0..<Suc ?n}" and eq: "?p + of_nat i = ?p + of_nat j"
    then have "unat ?p + i = unat ?p + j" using idx [of i] idx [of j] unfolding eq by simp
    then show "i = j" by simp
  qed
  then show "distinct (map fst (log_writes cur bs))"
    unfolding fsts distinct_map by (simp only: distinct_upt set_upt simp_thms)
qed

lemma next_sb_simps [simp]: "seq (next_sb cur bs) = seq cur + 1" "root_lba (next_sb cur bs) = log_head_lba cur"
    "root_len (next_sb cur bs) = of_nat (length bs)" "root_hash (next_sb cur bs) = fnv1a bs"
    "log_head_lba (next_sb cur bs) = log_head_lba cur + of_nat (div_ceil_512 (length bs)) + 1"
  by (simp_all add: next_sb_def)

text \<open>The disk after the commit: the new superblock is live and its extent holds the bytes.\<close>

definition committed :: "(u64 \<Rightarrow> u8 list) \<Rightarrow> Superblock \<Rightarrow> u8 list \<Rightarrow> u64 \<Rightarrow> bool" where
  "committed f cur bs slot \<longleftrightarrow> disk_ok f (next_sb cur bs) (other_slot slot) \<and>
     extent_bytes f (log_head_lba cur) (length bs) = bs"

lemma commit_ok:
  assumes "disk_ok f cur slot" "log_room cur bs"
    and "\<And>i. i < div_ceil_512 (length bs) \<Longrightarrow> f (log_head_lba cur + of_nat i) = sector_of bs i"
  shows "committed (f(other_slot slot := sb_sector (next_sb cur bs))) cur bs slot"
proof -
  let ?f = "f(other_slot slot := sb_sector (next_sb cur bs))" and ?p = "log_head_lba cur" and ?n = "div_ceil_512 (length bs)"
  have slot: "slot \<in> {LBA_SB_A, LBA_SB_B}" and head: "LBA_LOG_START \<le> ?p" and live: "decode_slot (f slot) = Valid cur"
    using assms(1) by (simp_all add: disk_ok_def root_ok_def)
  have idx: "unat (?p + of_nat i) = unat ?p + i" if "i \<le> Suc ?n" for i
    using assms(2) that by (intro sector_index [of _ "Suc (Suc ?n)"]) (simp_all add: log_room_def)
  have "other_slot slot < ?p" using other_slot_simps(5) [OF slot] head by (rule less_le_trans)
  then have "?f (?p + of_nat i) = sector_of bs i" if "i < ?n" for i
    using assms(3) [OF that] idx [of i] that by (auto simp: word_less_nat_alt)
  then have "extent_bytes ?f ?p (length bs) = take (length bs) (concat (map (sector_of bs) [0..<?n]))"
    unfolding extent_bytes_def by (intro arg_cong [of _ _ "take _"] arg_cong [of _ _ concat]) simp
  then have ext: "extent_bytes ?f ?p (length bs) = bs" by (simp add: concat_sectors)
  have len: "unat (of_nat (length bs) :: u32) = length bs"
    using assms(2) by (simp add: log_room_def unat_of_nat)
  have nh: "unat (?p + of_nat ?n + 1) = unat ?p + ?n + 1" using idx [of "Suc ?n"] by (simp add: algebra_simps)
  then have "LBA_LOG_START \<le> ?p + of_nat ?n + 1" using head by (simp add: word_le_nat_alt)
  then have "root_ok ?f (next_sb cur bs)" using head nh ext len by (simp add: root_ok_def)
  moreover have "seq cur < seq cur + 1" using assms(2) by (simp add: log_room_def less_word_not_max less_Suc_word)
  ultimately show ?thesis
    using slot live other_slot_simps(1,2,3) [OF slot] ext by (simp add: committed_def disk_ok_def decode_sb_sector)
qed

text \<open>The disk once the log records are flushed, and once the superblock is written and flushed.\<close>

lemma logged_ok:
  assumes "store_ok bd cur slot" "blkdev_ok g bd" "log_room cur bs"
  defines "bd1 \<equiv> flushed g (store_all g (log_writes cur bs) bd)"
  shows "store_ok bd1 cur slot" "cached bd1 = []" "blkdev_ok g bd1"
    "i < div_ceil_512 (length bs) \<Longrightarrow> stable bd1 (log_head_lba cur + of_nat i) = sector_of bs i"
proof -
  note W = log_writes_props [OF assms(3)]
  let ?bd = "store_all g (log_writes cur bs) bd"
  have ok: "blkdev_ok g ?bd" "visible ?bd = apply_writes (log_writes cur bs) (visible bd)"
    using store_all_ok [OF assms(2) W(1)] by simp_all
  have fl: "stable bd1 = visible ?bd" "cached bd1 = []" "blkdev_ok g bd1"
    using flushed_ok [OF ok(1)] by (simp_all add: bd1_def)
  then show "cached bd1 = []" "blkdev_ok g bd1" by simp_all
  have below: "\<forall>(l, b) \<in> set (cached bd) \<union> set (log_writes cur bs). log_head_lba cur \<le> l"
    using assms(1) W(2) unfolding store_ok_def by blast
  have "stable bd1 l = stable bd l" if "l < log_head_lba cur" for l
    using store_all_below [OF below, of g] visible_below [of ?bd "log_head_lba cur" l] that fl(1) by simp
  then show "store_ok bd1 cur slot"
    using assms(1) disk_ok_cong [of "stable bd"] fl(2) by (auto simp: store_ok_def)
  show "i < div_ceil_512 (length bs) \<Longrightarrow> stable bd1 (log_head_lba cur + of_nat i) = sector_of bs i"
    using apply_writes_distinct [OF W(3) W(4)] by (simp add: fl(1) ok(2))
qed

lemma crash_fun: "cached bd = [] \<Longrightarrow> crash_image bd f \<Longrightarrow> f = stable bd"
  by (auto simp: crash_image_def)

lemma committing_crash:
  assumes "store_ok bd cur slot" "cached bd = []" "blkdev_ok g bd" "log_room cur bs"
    and "\<And>i. i < div_ceil_512 (length bs) \<Longrightarrow> stable bd (log_head_lba cur + of_nat i) = sector_of bs i"
    and "crash_image (store_sector g (other_slot slot) (sb_sector (next_sb cur bs)) bd) f"
  shows "disk_ok f cur slot \<or> committed f cur bs slot"
proof -
  let ?o = "other_slot slot" and ?b = "sb_sector (next_sb cur bs)"
  have old: "disk_ok (stable bd) cur slot" using assms(1) by (simp add: store_ok_def)
  have new: "committed ((stable bd)(?o := ?b)) cur bs slot" using commit_ok [OF old assms(4,5)] .
  have slot: "slot \<in> {LBA_SB_A, LBA_SB_B}" using old by (simp add: disk_ok_def)
  have "f l = stable bd l \<or> l = ?o \<and> (f l = ?b \<or> torn ?o (f l))" for l
    using assms(6) [unfolded crash_image_def, rule_format, of l] assms(2) by (auto simp: store_sector_def split: if_splits)
  then have f: "f = (stable bd)(?o := f ?o)" "f ?o = stable bd ?o \<or> f ?o = ?b \<or> torn ?o (f ?o)"
    by (auto simp: fun_eq_iff)
  have torn: "disk_ok ((stable bd)(?o := b)) cur slot" if "torn ?o b" for b
  proof -
    have inval: "decode_slot b = Invalid" using that other_slot_simps(1) [OF slot] by (auto simp: torn_def)
    have lt: "?o < LBA_LOG_START" using other_slot_simps(5) [OF slot] .
    have "root_ok (stable bd) cur" using old by (simp add: disk_ok_def)
    then have "root_ok ((stable bd)(?o := b)) cur"
    proof (rule root_ok_cong)
      fix l assume "LBA_LOG_START \<le> l"
      then show "((stable bd)(?o := b)) l = stable bd l" using lt by auto
    qed
    then show ?thesis using old other_slot_simps(3) [OF slot] inval by (simp add: disk_ok_def)
  qed
  from f(2) show ?thesis
  proof (elim disjE)
    assume "f ?o = stable bd ?o"
    then have "f = stable bd" using f(1) by simp
    then show ?thesis using old by simp
  next
    assume "f ?o = ?b"
    then have "f = (stable bd)(?o := ?b)" using f(1) by simp
    then show ?thesis using new by simp
  next
    assume "torn ?o (f ?o)"
    then have "disk_ok ((stable bd)(?o := f ?o)) cur slot" by (rule torn)
    then show ?thesis using f(1) by simp
  qed
qed

lemma committed_ok:
  assumes "store_ok bd cur slot" "cached bd = []" "blkdev_ok g bd" "log_room cur bs"
    and "\<And>i. i < div_ceil_512 (length bs) \<Longrightarrow> stable bd (log_head_lba cur + of_nat i) = sector_of bs i"
  defines "bd' \<equiv> flushed g (store_sector g (other_slot slot) (sb_sector (next_sb cur bs)) bd)"
  shows "store_ok bd' (next_sb cur bs) (other_slot slot)" "cached bd' = []" "committed (stable bd') cur bs slot"
proof -
  have v: "visible bd = stable bd" using assms(2) by (simp add: visible_def apply_writes_def)
  have "blkdev_ok g (store_sector g (other_slot slot) (sb_sector (next_sb cur bs)) bd)"
    using assms(3) by (simp add: blkdev_ok_store)
  then have "stable bd' = (stable bd)(other_slot slot := sb_sector (next_sb cur bs))" "cached bd' = []"
    using flushed_ok visible_store [OF assms(3)] v by (simp_all add: bd'_def)
  moreover have "disk_ok (stable bd) cur slot" using assms(1) by (simp add: store_ok_def)
  ultimately show "store_ok bd' (next_sb cur bs) (other_slot slot)" "cached bd' = []" "committed (stable bd') cur bs slot"
    using commit_ok [OF _ assms(4,5)] by (simp_all add: store_ok_def committed_def)
qed

section \<open>Crash consistency\<close>

text \<open>The mounted store and the disk agree.\<close>

definition mounted_ok :: "('s \<Rightarrow> blkdev) \<Rightarrow> 's objstore \<Rightarrow> bool" where
  "mounted_ok dev st \<longleftrightarrow> MOUNTED_OK st \<and> store_ok (dev (blk st)) (MOUNTED st) (MOUNTED_SLOT st)"

context block_layer begin

lemma put_crash:
  assumes "inv (blk st)" "mounted_ok dev st" "log_room (MOUNTED st) bs" "put ops bs st = (r, st')"
  defines "new \<equiv> next_sb (MOUNTED st) bs" and "slot \<equiv> MOUNTED_SLOT st"
  shows "inv (blk st')"
    and "crash_image (dev (blk st')) f \<Longrightarrow> disk_ok f (MOUNTED st) slot \<or> committed f (MOUNTED st) bs slot"
    and "r \<noteq> None \<Longrightarrow> r = Some (root_lba new, root_len new, root_hash new) \<and> MOUNTED st' = new \<and>
      MOUNTED_SLOT st' = other_slot slot \<and> mounted_ok dev st'"
    and "r \<noteq> None \<Longrightarrow> crash_image (dev (blk st')) f \<Longrightarrow> committed f (MOUNTED st) bs slot"
proof -
  let ?bd = "dev (blk st)" and ?W = "log_writes (MOUNTED st) bs"
  let ?bd1 = "flushed g (store_all g ?W ?bd)"
  let ?bd2 = "store_sector g (other_slot slot) (sb_sector new) ?bd1"
  have st: "store_ok ?bd (MOUNTED st) slot" "MOUNTED_OK st" using assms(2) by (simp_all add: mounted_ok_def slot_def)
  have len: "length bs \<le> 0xFFFFFFFF" using assms(3) by (simp add: log_room_def)
  note P = put_spec [OF assms(1) st(2) len assms(4), folded new_def slot_def]
  note L = logged_ok [OF st(1) inv_dev [OF assms(1)] assms(3)]
  note C = committing_crash [OF L(1,2,3) assms(3) L(4), folded new_def]
  note D = committed_ok [OF L(1,2,3) assms(3) L(4), folded new_def]
  show "inv (blk st')" using P by simp
  have pre: "disk_ok f (MOUNTED st) slot" if "prefix ws ?W" "crash_image (store_all g ws ?bd) f" for ws
  proof -
    have "\<forall>(l, b) \<in> set (cached ?bd) \<union> set ws. log_head_lba (MOUNTED st) \<le> l"
      using st(1) log_writes_props(2) [OF assms(3)] set_mono_prefix [OF that(1)] unfolding store_ok_def by blast
    from store_all_below [OF this, of g] have "store_ok (store_all g ws ?bd) (MOUNTED st) slot"
      using st(1) disk_ok_cong [of "stable ?bd"] by (simp add: store_ok_def)
    then show ?thesis using that(2) by (rule crash_old)
  qed
  have fin: "committed f (MOUNTED st) bs slot" if "crash_image (flushed g ?bd2) f"
    using crash_fun [OF D(2) that] D(3) by simp
  show "disk_ok f (MOUNTED st) slot \<or> committed f (MOUNTED st) bs slot" if "crash_image (dev (blk st')) f"
    using P pre fin C crash_old [OF L(1)] that by metis
  show "r = Some (root_lba new, root_len new, root_hash new) \<and> MOUNTED st' = new \<and>
      MOUNTED_SLOT st' = other_slot slot \<and> mounted_ok dev st'" if "r \<noteq> None"
    using P that D(1) by (auto simp: mounted_ok_def)
  show "committed f (MOUNTED st) bs slot" if "r \<noteq> None" "crash_image (dev (blk st')) f"
    using P that fin by auto
qed

end

context reliable_block_layer begin

lemma mount_disk:
  assumes "inv (blk st)" "disk_ok (visible (dev (blk st))) cur slot" "1 < capacity g"
  shows "MOUNTED (mount ops st) = cur \<and> MOUNTED_SLOT (mount ops st) = slot \<and> MOUNTED_OK (mount ops st) \<and>
    inv (blk (mount ops st)) \<and> dev (blk (mount ops st)) = dev (blk st)"
proof -
  let ?f = "visible (dev (blk st))"
  obtain a s1 where a: "read_superblock ops LBA_SB_A (blk st) = (a, s1)" by fastforce
  obtain b s2 where b: "read_superblock ops LBA_SB_B s1 = (b, s2)" by fastforce
  have rd: "v = decode_slot (visible (dev s) l) \<and> inv s' \<and> dev s' = dev s"
    if "inv s" "l \<in> {LBA_SB_A, LBA_SB_B}" "read_superblock ops l s = (v, s')" for l s v s'
  proof -
    have "l < capacity g" using that(2) assms(3) by (auto simp: const_defs intro: less_trans [of 0 1])
    then show ?thesis
      using that dev_read [OF that(1), of l "replicate 512 0"] dev_read_ok [OF that(1), of l "replicate 512 0"]
      by (fastforce simp: read_superblock_def split: prod.splits if_splits)
  qed
  have A: "a = decode_slot (?f LBA_SB_A)" "inv s1" "dev s1 = dev (blk st)" using rd [OF assms(1) _ a] by simp_all
  have B: "b = decode_slot (?f LBA_SB_B)" "inv s2" "dev s2 = dev (blk st)" using rd [OF A(2) _ b] A(3) by simp_all
  have "best_slot a b = Some (cur, slot)"
    using assms(2) unfolding A(1) B(1) disk_ok_def other_slot_def
    by (cases "decode_slot (?f LBA_SB_A)"; cases "decode_slot (?f LBA_SB_B)") (auto simp: const_defs)
  then show ?thesis using a b B by (simp add: mount_def Let_def)
qed

lemma hash_sectors_some:
  assumes "inv s" "\<And>j. j \<in> {i..<i + n} \<Longrightarrow> lba + of_nat j < capacity g"
  shows "fst (hash_sectors ops lba len h consumed i n s) \<noteq> None"
  using assms
proof (induction n arbitrary: h consumed i s)
  case (Suc n)
  obtain ok sect s1 where rd: "blk_read ops (lba + of_nat i) (replicate 512 0) s = ((ok, sect), s1)" by (metis prod.exhaust)
  have "ok" using dev_read_ok [OF Suc.prems(1) rd] Suc.prems(2) [of i] by simp
  moreover have "inv s1" using dev_read [OF Suc.prems(1) rd] by simp
  ultimately show ?case using rd Suc.IH [of s1 "Suc i"] Suc.prems(2) by (simp add: Let_def)
qed simp

lemma recover_disk:
  assumes "inv (blk st)" "MOUNTED_OK st" "root_ok (visible (dev (blk st))) (MOUNTED st)"
    and "root_len (MOUNTED st) \<noteq> 0" "log_head_lba (MOUNTED st) \<le> capacity g"
  shows "fst (recover ops st) = Some (root_lba (MOUNTED st), root_len (MOUNTED st), root_hash (MOUNTED st))"
proof -
  let ?cur = "MOUNTED st"
  let ?n = "div_ceil_512 (unat (root_len ?cur))"
  have bounds: "unat (root_lba ?cur) + ?n \<le> unat (log_head_lba ?cur)"
    and hash: "fnv1a (extent_bytes (visible (dev (blk st))) (root_lba ?cur) (unat (root_len ?cur))) = root_hash ?cur"
    using assms(3,4) by (auto simp: root_ok_def)
  obtain r s' where r: "extent_content_hash ops (root_lba ?cur) (root_len ?cur) (blk st) = (r, s')" by fastforce
  have "root_lba ?cur + of_nat j < capacity g" if "j < ?n" for j
  proof -
    have "unat (root_lba ?cur + of_nat j) = unat (root_lba ?cur) + j"
      using bounds that unat_less_power [of "log_head_lba ?cur"] by (intro sector_index [of _ "Suc j"]) simp_all
    then show ?thesis using bounds that assms(5) by (simp add: word_less_nat_alt word_le_nat_alt)
  qed
  then have "r \<noteq> None"
    using hash_sectors_some [OF assms(1), of 0 ?n "root_lba ?cur" "unat (root_len ?cur)" FNV1A_BASIS 0] r
    by (simp add: extent_content_hash_def)
  then have "r = Some (root_hash ?cur)" using extent_content_hash_spec [OF assms(1) r] hash by auto
  then show ?thesis using assms(2,4) r by (simp add: recover_def Let_def)
qed

lemma put_data_ok:
  assumes "inv s" "\<And>j. j \<in> {i..<i + n} \<Longrightarrow> lba + of_nat j < capacity g"
  shows "fst (put_data ops lba bs written i n s)"
  using assms
proof (induction n arbitrary: written i s)
  case (Suc n)
  let ?k = "if 512 \<le> length bs - written then 512 else length bs - written"
  let ?sect = "take ?k (drop written bs) @ replicate (512 - ?k) 0"
  obtain ok s1 where w: "blk_write ops (lba + of_nat i) ?sect s = (ok, s1)" by fastforce
  have len: "length ?sect = 512" by simp
  have "ok" using dev_write_ok [OF Suc.prems(1) len w] Suc.prems(2) [of i] by simp
  moreover have "inv s1" using dev_write [OF Suc.prems(1) len w] by simp
  ultimately show ?case using w Suc.IH [of s1 "Suc i"] Suc.prems(2) by (simp add: Let_def)
qed simp

lemma put_succeeds:
  assumes "inv (blk st)" "mounted_ok dev st" "log_room (MOUNTED st) bs"
    and "unat (log_head_lba (MOUNTED st)) + div_ceil_512 (length bs) < unat (capacity g)"
  shows "fst (put ops bs st) \<noteq> None"
proof -
  let ?cur = "MOUNTED st" and ?n = "div_ceil_512 (length bs)"
  let ?lba = "log_head_lba ?cur" and ?h = "fnv1a bs"
  have ok: "MOUNTED_OK st" and slot: "MOUNTED_SLOT st \<in> {LBA_SB_A, LBA_SB_B}" and head: "LBA_LOG_START \<le> ?lba"
    using assms(2) by (simp_all add: mounted_ok_def store_ok_def disk_ok_def root_ok_def)
  have len: "\<not> 0xFFFFFFFF < length bs" using assms(3) by (simp add: log_room_def)
  have cap: "?lba + of_nat j < capacity g" if "j \<le> ?n" for j
    using assms(3,4) that sector_index [of ?lba "Suc j" j] by (simp add: log_room_def word_less_nat_alt)
  have cap': "other_slot (MOUNTED_SLOT st) < capacity g"
    using other_slot_simps(5) [OF slot] head cap [of 0] by simp
  obtain ok1 s1 where 1: "put_data ops ?lba bs 0 0 ?n (blk st) = (ok1, s1)" by fastforce
  have ok1: "ok1" "inv s1" using put_data_ok [OF assms(1), of 0 ?n ?lba bs 0] put_data_spec [OF assms(1) _ 1] cap 1 by simp_all
  obtain ok2 s2 where 2: "blk_write ops (?lba + of_nat ?n) (record_header (of_nat (length bs)) ?h (root_lba ?cur)) s1 = (ok2, s2)" by fastforce
  have ok2: "ok2" "inv s2" using dev_write_ok [OF ok1(2) _ 2] dev_write [OF ok1(2) _ 2] cap by simp_all
  obtain ok3 s3 where 3: "blk_flush ops s2 = (ok3, s3)" by fastforce
  have ok3: "ok3" "inv s3" using dev_flush_ok [OF ok2(2) 3] dev_flush [OF ok2(2) 3] by simp_all
  obtain ok4 s4 where 4: "blk_write ops (other_slot (MOUNTED_SLOT st)) (sb_sector (next_sb ?cur bs)) s3 = (ok4, s4)" by fastforce
  have ok4: "ok4" "inv s4" using dev_write_ok [OF ok3(2) _ 4] dev_write [OF ok3(2) _ 4] cap' by simp_all
  obtain ok5 s5 where 5: "blk_flush ops s4 = (ok5, s5)" by fastforce
  have "ok5" using dev_flush_ok [OF ok4(2) 5] .
  with ok len 1 2 3 4 5 ok1 ok2 ok3 ok4 show ?thesis
    unfolding put_def write_superblock_def next_sb_def other_slot_def by (simp add: Let_def)
qed

end

section \<open>Properties\<close>


text \<open>A freshly formatted disk behind the executable virtio device.\<close>

definition demo_sb :: Superblock where
  "demo_sb = \<lparr>seq = 1, log_head_lba = 2, root_lba = 0, root_len = 0, root_hash = 0\<rparr>"

definition demo_fs :: "u64 \<Rightarrow> u8 list" where
  "demo_fs = (\<lambda>_. replicate 512 0)(0 := sb_sector demo_sb)"

definition demo_state :: "(u64 \<Rightarrow> u8 list) \<Rightarrow> ramdisk machine \<times> VirtioBlk" where
  "demo_state f = (\<lparr>ram = \<lambda>_. 0,
     devs = \<lparr>rd_dev = \<lparr>stable = f, cached = []\<rparr>, rd_served = 0, rd_pending = False\<rparr>\<rparr>, demo_vblk)"

definition demo_store :: "(ramdisk machine \<times> VirtioBlk) objstore" where
  "demo_store = \<lparr>blk = demo_state demo_fs, MOUNTED = demo_sb, MOUNTED_OK = True, MOUNTED_SLOT = LBA_SB_A\<rparr>"

abbreviation rd_inv :: "ramdisk machine \<times> VirtioBlk \<Rightarrow> bool" where
  "rd_inv \<equiv> vblk_inv demo_hhdm rd_queue demo_geometry rd_served (\<lambda>d. blkdev_ok demo_geometry (rd_dev d))"

abbreviation rd_disk :: "ramdisk machine \<times> VirtioBlk \<Rightarrow> blkdev" where
  "rd_disk s \<equiv> rd_dev (devs (fst s))"

lemma le_word_zeros: "le_word (replicate n 0) = 0"
  by (induction n) simp_all

lemma decode_zeros: "decode_slot (replicate 512 0) = Invalid"
  by (simp add: decode_slot_def rd_slice const_defs le_word_zeros)

lemma demo_state_inv: "(\<forall>l. length (f l) = 512) \<Longrightarrow> rd_inv (demo_state f)"
  using demo_vblk_inv by (simp add: vblk_inv_def demo_state_def demo_machine_def demo_disk_def blkdev_ok_def)

lemma demo_store_ok: "rd_inv (blk demo_store)" "mounted_ok rd_disk demo_store" "log_room (MOUNTED demo_store) [1, 2, 3]"
proof -
  show "rd_inv (blk demo_store)"
    using demo_state_inv [of demo_fs] by (simp add: demo_store_def demo_fs_def)
  show "mounted_ok rd_disk demo_store"
    by (simp add: mounted_ok_def store_ok_def disk_ok_def root_ok_def demo_store_def demo_state_def demo_fs_def
        decode_sb_sector decode_zeros other_slot_def const_defs) (simp add: demo_sb_def)
  show "log_room (MOUNTED demo_store) [1, 2, 3]"
    by (simp add: log_room_def demo_store_def demo_sb_def div_ceil_512_def)
qed


text \<open>
  C36: superblocks survive the round trip through a sector: what \<^verbatim>\<open>write_superblock\<close> encodes,
  \<^verbatim>\<open>read_superblock\<close> validates and decodes to the same record, so distinct superblocks have distinct
  sectors; the record header and the superblock fill exactly one sector.
\<close>

theorem superblock_roundtrip:
  "decode_slot (sb_sector sb) = Valid sb \<and> length (sb_sector sb) = 512 \<and> inj sb_sector \<and>
   length (record_header len h prev) = 512"
proof -
  have "inj sb_sector" by (rule injI) (metis decode_sb_sector SlotRead.inject)
  then show ?thesis by (simp add: decode_sb_sector)
qed

text \<open>
  C37: the read-back hash. Hashing an extent sector by sector from the disk gives the FNV-1a hash of
  its bytes as one string, for every length including a partial last sector, and leaves the
  disk unchanged; so \<^verbatim>\<open>extent_content_hash\<close> agrees with \<^verbatim>\<open>fnv1a\<close> of what was stored.
\<close>

theorem extent_hash_is_content_hash:
  assumes "block_layer ops g binv dev" "binv s" "extent_content_hash ops lba len s = (Some h, s')"
  shows "h = fnv1a (extent_bytes (visible (dev s)) lba (unat len)) \<and> dev s' = dev s \<and>
    (\<forall>bs. length bs = unat len \<and> (\<forall>i < div_ceil_512 (length bs). visible (dev s) (lba + of_nat i) = sector_of bs i) \<longrightarrow>
       h = fnv1a bs)"
proof -
  have "extent_bytes (visible (dev s)) lba (length bs) = bs"
    if "\<forall>i < div_ceil_512 (length bs). visible (dev s) (lba + of_nat i) = sector_of bs i" for bs
  proof -
    have "extent_bytes (visible (dev s)) lba (length bs) =
        take (length bs) (concat (map (sector_of bs) [0..<div_ceil_512 (length bs)]))"
      unfolding extent_bytes_def using that by (intro arg_cong [of _ _ "take _"] arg_cong [of _ _ concat]) simp
    then show ?thesis by (simp add: concat_sectors)
  qed
  then show ?thesis using block_layer.extent_content_hash_spec [OF assms] by metis
qed

theorem extent_hash_is_content_hash_witness:
  "fst (extent_content_hash (virtio_ops demo_host) 7 3 (demo_state ((\<lambda>_. replicate 512 0)(7 := sector_of [9, 8, 7] 0)))) =
     Some (fnv1a [9, 8, 7])"
proof -
  let ?f = "(\<lambda>_. replicate 512 0)(7 := sector_of [9, 8, 7] 0)"
  obtain r s' where r: "extent_content_hash (virtio_ops demo_host) 7 3 (demo_state ?f) = (r, s')" by (rule prod.exhaust)
  have inv: "rd_inv (demo_state ?f)" by (rule demo_state_inv) simp
  have vis: "visible (rd_disk (demo_state ?f)) = ?f" by (simp add: demo_state_def visible_def apply_writes_def)
  have n: "div_ceil_512 3 = 1" "div_ceil_512 (Suc (Suc (Suc 0))) = 1" by (simp_all add: div_ceil_512_def)
  have "r \<noteq> None"
    using rd.blk.hash_sectors_some [OF inv, of 0 1 7 3 FNV1A_BASIS 0] r
    by (simp add: extent_content_hash_def n demo_geometry_def)
  then obtain h where h: "r = Some h" by blast
  have "h = fnv1a [9, 8, 7]"
    using extent_hash_is_content_hash [OF rd.blk.block_layer_axioms inv r [unfolded h], THEN conjunct2, THEN conjunct2,
        rule_format, of "[9, 8, 7]"] by (simp add: vis n)
  then show ?thesis using r h by simp
qed


text \<open>A driver without a device: every read fails.\<close>

definition dead_ops :: "unit block_ops" where
  "dead_ops = \<lparr>blk_read = \<lambda>_ dst s. ((False, dst), s), blk_write = \<lambda>_ _ s. (False, s), blk_flush = \<lambda>s. (False, s)\<rparr>"


text \<open>A driver whose flushes follow a script of successes and failures.\<close>

fun flaky_flush :: "blkdev \<times> bool list \<Rightarrow> bool \<times> blkdev \<times> bool list" where
  "flaky_flush (bd, []) = (True, sync bd, [])"
| "flaky_flush (bd, ok # oks) = (ok, if ok then sync bd else bd, oks)"

definition flaky_ops :: "(blkdev \<times> bool list) block_ops" where
  "flaky_ops = \<lparr>blk_read = \<lambda>l dst (bd, oks). ((True, visible bd l), (bd, oks)),
     blk_write = \<lambda>l b (bd, oks). (True, (store_sector demo_geometry l b bd, oks)), blk_flush = flaky_flush\<rparr>"

interpretation fk: block_layer flaky_ops demo_geometry "\<lambda>s. blkdev_ok demo_geometry (fst s)" fst
proof unfold_locales
  fix s :: "blkdev \<times> bool list" and ok s'
  assume ok: "blkdev_ok demo_geometry (fst s)" "blk_flush flaky_ops s = (ok, s')"
  then show "blkdev_ok demo_geometry (fst s') \<and>
      (fst s' = flushed demo_geometry (fst s) \<or> \<not> ok \<and> fst s' = fst s)"
    by (cases s rule: flaky_flush.cases)
      (auto simp: flaky_ops_def flushed_def demo_geometry_def blkdev_ok_sync split: if_splits)
qed (auto simp: flaky_ops_def blkdev_ok_store)

text \<open>A store with a committed one-byte root.\<close>

definition full_sb :: Superblock where
  "full_sb = \<lparr>seq = 1, log_head_lba = 4, root_lba = 2, root_len = 1, root_hash = fnv1a [5]\<rparr>"

definition full_fs :: "u64 \<Rightarrow> u8 list" where
  "full_fs = (\<lambda>_. replicate 512 0)(0 := sb_sector full_sb, 2 := 5 # replicate 511 0)"

definition booted :: "(u64 \<Rightarrow> u8 list) \<Rightarrow> bool list \<Rightarrow> (blkdev \<times> bool list) objstore" where
  "booted f oks = mount flaky_ops (objstore_initial (\<lparr>stable = f, cached = []\<rparr>, oks))"

text \<open>The disk after the failed commit of one object and the first half of the next.\<close>

definition retry_fs :: "u64 \<Rightarrow> u8 list" where
  "retry_fs = full_fs(1 := sb_sector (next_sb full_sb [1]), 4 := 2 # replicate 511 0,
     5 := record_header 1 (fnv1a [2]) 2)"

lemma flaky_put:
  assumes "MOUNTED_OK st" "MOUNTED st = full_sb" "MOUNTED_SLOT st = 0" "blk st = (bd, [True, False] @ oks)"
  shows "put flaky_ops [b] st = (None, st\<lparr>blk :=
    (\<lparr>stable = (visible bd)(4 := b # replicate 511 0, 5 := record_header 1 (fnv1a [b]) 2),
      cached = [(1, sb_sector (next_sb full_sb [b]))]\<rparr>, oks)\<rparr>)"
proof -
  have n: "div_ceil_512 (Suc 0) = Suc 0" by (simp add: div_ceil_512_def)
  show ?thesis
    using assms
    by (simp add: put_def n Let_def flaky_ops_def write_superblock_def store_sector_def demo_geometry_def sync_def
        visible_def apply_writes_def next_sb_def full_sb_def const_defs)
qed

lemma booted_eq:
  "booted f oks = (let st = (objstore_initial (\<lparr>stable = f, cached = []\<rparr>, oks)) in
    case best_slot (decode_slot (f 0)) (decode_slot (f 1)) of
      Some (sb, slot) \<Rightarrow> st\<lparr>MOUNTED := sb, MOUNTED_OK := True, MOUNTED_SLOT := slot\<rparr>
    | None \<Rightarrow> booted f oks)"
  by (auto simp: booted_def mount_def read_superblock_def flaky_ops_def objstore_initial_def const_defs visible_def
      apply_writes_def Let_def split: option.splits)

lemma booted_full: "booted full_fs oks = \<lparr>blk = (\<lparr>stable = full_fs, cached = []\<rparr>, oks), MOUNTED = full_sb,
    MOUNTED_OK = True, MOUNTED_SLOT = 0\<rparr>"
  by (subst booted_eq) (simp add: full_fs_def decode_sb_sector decode_zeros objstore_initial_def const_defs)

lemma booted_retry: "booted retry_fs oks = \<lparr>blk = (\<lparr>stable = retry_fs, cached = []\<rparr>, oks),
    MOUNTED = next_sb full_sb [1], MOUNTED_OK = True, MOUNTED_SLOT = 1\<rparr>"
proof -
  have "\<not> seq (next_sb full_sb [1]) \<le> seq full_sb" by (simp add: full_sb_def word_le_nat_alt)
  then show ?thesis
    by (subst booted_eq) (simp add: retry_fs_def full_fs_def decode_sb_sector objstore_initial_def const_defs)
qed

lemma recover_one_byte:
  assumes "MOUNTED_OK st" "root_len (MOUNTED st) = 1" "blk st = (\<lparr>stable = f, cached = []\<rparr>, oks)"
    "f (root_lba (MOUNTED st)) = b # xs"
  shows "fst (recover flaky_ops st) =
    (if fnv1a [b] = root_hash (MOUNTED st) then Some (root_lba (MOUNTED st), 1, root_hash (MOUNTED st)) else None)"
proof -
  have n: "div_ceil_512 (Suc 0) = Suc 0" by (simp add: div_ceil_512_def)
  show ?thesis
    using assms
    by (simp add: recover_def extent_content_hash_def n flaky_ops_def visible_def apply_writes_def fnv1a_def Let_def)
qed

text \<open>
  C39: a failed commit followed by another \<^verbatim>\<open>put\<close> can lose the committed root. The store holds a root; a
  \<^verbatim>\<open>put\<close> fails only in the last flush, so its superblock may be durable although the mounted state does
  not move; the next \<^verbatim>\<open>put\<close> overwrites the data sectors that superblock points to and makes them
  durable, and stops before its own superblock is. After a power failure \<^verbatim>\<open>mount\<close> picks the first
  superblock and \<^verbatim>\<open>recover\<close> finds no root, though before both calls it returned one.
\<close>

theorem retry_after_failed_flush_loses_root:
  "\<exists>st st'. fst (recover flaky_ops (booted full_fs [True, False, True, False])) = Some (2, 1, fnv1a [5]) \<and>
     put flaky_ops [1] (booted full_fs [True, False, True, False]) = (None, st) \<and>
     put flaky_ops [2] st = (None, st') \<and>
     crash_image (fst (blk st')) retry_fs \<and>
     fst (recover flaky_ops (booted retry_fs [])) = None"
proof -
  let ?st0 = "booted full_fs [True, False, True, False]"
  let ?bd1 = "\<lparr>stable = full_fs(4 := 1 # replicate 511 0, 5 := record_header 1 (fnv1a [1]) 2),
      cached = [(1, sb_sector (next_sb full_sb [1]))]\<rparr>"
  let ?st1 = "?st0\<lparr>blk := (?bd1, [True, False])\<rparr>"
  have v0: "visible \<lparr>stable = full_fs, cached = []\<rparr> = full_fs" by (simp add: visible_def apply_writes_def)
  have 1: "put flaky_ops [1] ?st0 = (None, ?st1)"
    using flaky_put [of ?st0 "\<lparr>stable = full_fs, cached = []\<rparr>" "[True, False]" 1] by (simp add: booted_full v0)
  have v1: "(visible ?bd1)(4 := 2 # replicate 511 0, 5 := record_header 1 (fnv1a [2]) 2) = retry_fs"
    by (auto simp: visible_def apply_writes_def retry_fs_def fun_eq_iff)
  have 2: "put flaky_ops [2] ?st1 = (None, ?st1\<lparr>blk :=
      (\<lparr>stable = retry_fs, cached = [(1, sb_sector (next_sb full_sb [2]))]\<rparr>, [])\<rparr>)"
    using flaky_put [of ?st1 ?bd1 "[]" 2] unfolding v1 by (simp add: booted_full)
  have r4: "retry_fs 4 = 2 # replicate 511 0" "log_head_lba full_sb = 4"
    by (simp_all add: retry_fs_def full_sb_def)
  have r2: "full_fs 2 = 5 # replicate 511 0" "root_lba full_sb = 2" "root_len full_sb = 1" "root_hash full_sb = fnv1a [5]"
    by (simp_all add: full_fs_def full_sb_def)
  have "fnv1a [2] \<noteq> fnv1a [1]" by (simp add: fnv1a_def fnv1a_step_def FNV1A_BASIS_def)
  then have "fst (recover flaky_ops (booted retry_fs [])) = None"
    using recover_one_byte [of "booted retry_fs []" retry_fs "[]" 2 "replicate 511 0"]
    by (simp add: booted_retry r4)
  moreover have "fst (recover flaky_ops ?st0) = Some (2, 1, fnv1a [5])"
    using recover_one_byte [of ?st0 full_fs "[True, False, True, False]" 5 "replicate 511 0"]
    by (simp add: booted_full r2)
  moreover have "crash_image (fst (blk (?st1\<lparr>blk :=
      (\<lparr>stable = retry_fs, cached = [(1, sb_sector (next_sb full_sb [2]))]\<rparr>, [])\<rparr>))) retry_fs"
    by (simp add: crash_image_def)
  ultimately show ?thesis using 1 2 by blast
qed

end
