(* ===== verification/CapSpace.thy ===== *)
theory CapSpace
  imports CapCore VirtioBlk
begin

text \<open>
  The kernel's capability space, the tables of \<^verbatim>\<open>kernel/src/capspace.rs\<close> and the operations that touch
  nothing else: one global object table, one capability table per protection domain, the payloads
  of notifications, endpoints, extents and device queues (indexed by object id), the ledger of the
  pages mapped for each domain, and the domain of the running task. The record \<open>capspace\<close> has one
  field per static of the source, under its name. The methods that also allocate frames, map pages
  or use the disk are in the theory \<open>Invoke\<close>; endpoints, which may block, in \<open>Kernel\<close>.

  Throttled progress lines on the serial port are the only effects left out.
\<close>

section \<open>Constants\<close>

definition M_ALLOC :: u16 where [const_defs]: "M_ALLOC = 1"
definition M_FREE :: u16 where [const_defs]: "M_FREE = 2"
definition N_SIGNAL :: u16 where [const_defs]: "N_SIGNAL = 1"
definition N_POLL :: u16 where [const_defs]: "N_POLL = 2"
definition E_SEND :: u16 where [const_defs]: "E_SEND = 1"
definition E_RECV :: u16 where [const_defs]: "E_RECV = 2"
definition X_READ :: u16 where [const_defs]: "X_READ = 1"
definition X_WRITE :: u16 where [const_defs]: "X_WRITE = 2"
definition X_COMMIT :: u16 where [const_defs]: "X_COMMIT = 3"
definition X_MAP :: u16 where [const_defs]: "X_MAP = 4"
definition EXTENT_MAP_BASE :: u64 where [const_defs]: "EXTENT_MAP_BASE = 0x1100000"
definition DQ_INFO :: u16 where [const_defs]: "DQ_INFO = 1"
definition DQ_MAP :: u16 where [const_defs]: "DQ_MAP = 2"
definition DQ_REPORT :: u16 where [const_defs]: "DQ_REPORT = 3"
definition DQ_SUBMIT :: u16 where [const_defs]: "DQ_SUBMIT = 4"
definition DQ_BASE :: u64 where [const_defs]: "DQ_BASE = 0x1000000"
definition CPTR_NULL :: u64 where [const_defs]: "CPTR_NULL = 0xffff"
definition CPTR_NONE :: u16 where [const_defs]: "CPTR_NONE = 0xffff"
definition M_GRANT_TIME :: u16 where [const_defs]: "M_GRANT_TIME = 1"
definition MAX_DOMAINS :: nat where [const_defs]: "MAX_DOMAINS = 6"
definition MAX_MAPS_PER_DOMAIN :: nat where [const_defs]: "MAX_MAPS_PER_DOMAIN = 8"

section \<open>State\<close>

datatype EpState = Idle | SendWait | RecvWait

record EpSlot =
  ep_state :: EpState
  peer_task :: u16
  peer_domain :: u16
  msg0 :: u64
  xfer_cptr :: u16

definition EP_EMPTY :: EpSlot where
  "EP_EMPTY = \<lparr>ep_state = Idle, peer_task = 0, peer_domain = 0, msg0 = 0, xfer_cptr = 0\<rparr>"

record ExtentMeta =
  ext_lba :: u64
  ext_len :: u32
  ext_hash :: u64
  data_frame_phys :: u64

definition EXT_EMPTY :: ExtentMeta where
  "EXT_EMPTY = \<lparr>ext_lba = 0, ext_len = 0, ext_hash = 0, data_frame_phys = 0\<rparr>"

record DqMeta =
  dq_desc_phys :: u64
  dq_avail_phys :: u64
  dq_used_phys :: u64
  dq_buf_phys :: u64
  dq_doorbell_phys :: u64
  dq_qsize :: u16
  dq_magic :: u64
  dq_scratch_lba :: u64

definition DQ_EMPTY :: DqMeta where
  "DQ_EMPTY = \<lparr>dq_desc_phys = 0, dq_avail_phys = 0, dq_used_phys = 0, dq_buf_phys = 0,
     dq_doorbell_phys = 0, dq_qsize = 0, dq_magic = 0, dq_scratch_lba = 0\<rparr>"

record MapEntry =
  map_va :: u64

record DomainMaps =
  dm_entries :: "MapEntry list"
  dm_count :: nat

definition DM_EMPTY :: DomainMaps where
  "DM_EMPTY = \<lparr>dm_entries = replicate MAX_MAPS_PER_DOMAIN \<lparr>map_va = 0\<rparr>, dm_count = 0\<rparr>"

definition EMPTY_TABLE :: CapTable where
  "EMPTY_TABLE = \<lparr>slots = replicate CAP_TABLE_SLOTS None\<rparr>"

record capspace =
  OBJECTS :: ObjectTable
  DOMAINS :: "CapTable list"
  NOTIFY :: "u64 list"
  ENDPOINTS :: "EpSlot list"
  EXTENTS :: "ExtentMeta list"
  DEVQUEUES :: "DqMeta list"
  DOMAIN_MAPS :: "DomainMaps list"
  CURRENT_DOMAIN :: u16

text \<open>The initial values of the statics.\<close>

definition capspace_initial :: capspace where
  "capspace_initial = \<lparr>OBJECTS = ObjectTable_new, DOMAINS = replicate MAX_DOMAINS EMPTY_TABLE,
     NOTIFY = replicate OBJECT_TABLE_SIZE 0, ENDPOINTS = replicate OBJECT_TABLE_SIZE EP_EMPTY,
     EXTENTS = replicate OBJECT_TABLE_SIZE EXT_EMPTY, DEVQUEUES = replicate OBJECT_TABLE_SIZE DQ_EMPTY,
     DOMAIN_MAPS = replicate MAX_DOMAINS DM_EMPTY, CURRENT_DOMAIN = 0\<rparr>"

section \<open>Domains\<close>

definition record_domain_map :: "nat \<Rightarrow> u64 \<Rightarrow> capspace \<Rightarrow> capspace" where
  "record_domain_map d va s =
    (if MAX_DOMAINS \<le> d then s
     else let dm = DOMAIN_MAPS s ! d
          in if dm_count dm < MAX_MAPS_PER_DOMAIN
             then s\<lparr>DOMAIN_MAPS := (DOMAIN_MAPS s)[d := dm
               \<lparr>dm_entries := (dm_entries dm)[dm_count dm := \<lparr>map_va = va\<rparr>], dm_count := dm_count dm + 1\<rparr>]\<rparr>
             else s)"

definition set_current_domain :: "u16 \<Rightarrow> capspace \<Rightarrow> capspace" where
  "set_current_domain d s = s\<lparr>CURRENT_DOMAIN := d\<rparr>"

definition current_domain :: "capspace \<Rightarrow> nat" where
  "current_domain s = min (unat (CURRENT_DOMAIN s)) (MAX_DOMAINS - 1)"

section \<open>Creating objects\<close>

text \<open>\<^verbatim>\<open>Result::ok\<close>.\<close>

fun result_ok :: "Status + 'a \<Rightarrow> 'a option" where
  "result_ok (Inl st) = None"
| "result_ok (Inr x) = Some x"

text \<open>
  The common shape of the creating operations: create an object, initialise its payload, mint a
  capability to it in the root table. An object whose capability cannot be minted stays. The
  operations without a payload have no check of the index; there \<open>mint\<close> refuses such an index itself.
\<close>

definition create_and_mint ::
  "ObjectKind \<Rightarrow> (nat \<Rightarrow> capspace \<Rightarrow> capspace) \<Rightarrow> Rights \<Rightarrow> capspace \<Rightarrow> u16 option \<times> capspace" where
  "create_and_mint k payload r s =
    (case create_object (OBJECTS s) k of
       (None, ot) \<Rightarrow> (None, s\<lparr>OBJECTS := ot\<rparr>)
     | (Some oid, ot) \<Rightarrow>
         let s = s\<lparr>OBJECTS := ot\<rparr>;
             i = unat oid
         in if OBJECT_TABLE_SIZE \<le> i then (None, s)
            else
              let s = payload i s;
                  (res, t) = mint (DOMAINS s ! 0) (OBJECTS s) oid r 0
              in (result_ok res, s\<lparr>DOMAINS := (DOMAINS s)[0 := t]\<rparr>))"

definition init_root :: "capspace \<Rightarrow> u16 option \<times> capspace" where
  "init_root = create_and_mint Memory (\<lambda>i s. s) (READ OR WRITE OR INVOKE OR MAP OR DELEGATE)"

definition create_notification :: "capspace \<Rightarrow> u16 option \<times> capspace" where
  "create_notification = create_and_mint Notification (\<lambda>i s. s) (INVOKE OR READ OR WRITE OR DELEGATE)"

definition create_endpoint :: "capspace \<Rightarrow> u16 option \<times> capspace" where
  "create_endpoint =
    create_and_mint Endpoint (\<lambda>i s. s) (INVOKE OR READ OR WRITE OR GRANT_CAP OR DELEGATE)"

definition mint_timeslice :: "capspace \<Rightarrow> u16 option \<times> capspace" where
  "mint_timeslice = create_and_mint TimeSlice (\<lambda>i s. s) INVOKE"

definition mint_extent_inner :: "u64 \<Rightarrow> u32 \<Rightarrow> u64 \<Rightarrow> u64 \<Rightarrow> capspace \<Rightarrow> u16 option \<times> capspace" where
  "mint_extent_inner lba len hash frame_phys =
    create_and_mint Extent
      (\<lambda>i s. s\<lparr>EXTENTS := (EXTENTS s)[i :=
         \<lparr>ext_lba = lba, ext_len = len, ext_hash = hash, data_frame_phys = frame_phys\<rparr>]\<rparr>)
      (INVOKE OR READ OR WRITE OR MAP OR DELEGATE)"

definition mint_extent :: "u64 \<Rightarrow> u32 \<Rightarrow> u64 \<Rightarrow> capspace \<Rightarrow> u16 option \<times> capspace" where
  "mint_extent lba len hash = mint_extent_inner lba len hash 0"

definition mint_extent_mapped :: "u64 \<Rightarrow> u32 \<Rightarrow> u64 \<Rightarrow> u64 \<Rightarrow> capspace \<Rightarrow> u16 option \<times> capspace" where
  "mint_extent_mapped lba len hash frame_phys = mint_extent_inner lba len hash frame_phys"

definition create_device_queue :: "VirtioBlk \<Rightarrow> u64 \<Rightarrow> u64 \<Rightarrow> capspace \<Rightarrow> u16 option \<times> capspace" where
  "create_device_queue v magic scratch_lba s =
    (case device_queue_desc v of
       None \<Rightarrow> (None, s)
     | Some dqd \<Rightarrow>
         create_and_mint DeviceQueue
           (\<lambda>i s. s\<lparr>DEVQUEUES := (DEVQUEUES s)[i :=
              \<lparr>dq_desc_phys = desc_phys dqd, dq_avail_phys = avail_phys dqd,
               dq_used_phys = used_phys dqd, dq_buf_phys = buf_phys dqd,
               dq_doorbell_phys = doorbell_phys dqd, dq_qsize = qsize dqd,
               dq_magic = magic, dq_scratch_lba = scratch_lba\<rparr>]\<rparr>)
           (INVOKE OR READ OR WRITE OR MAP OR DELEGATE) s)"

section \<open>Handing authority on\<close>

definition delegate_from_root :: "nat \<Rightarrow> u16 \<Rightarrow> Rights \<Rightarrow> u16 \<Rightarrow> capspace \<Rightarrow> u16 option \<times> capspace" where
  "delegate_from_root dst_domain src_cptr msk bd s =
    (if dst_domain = 0 \<or> MAX_DOMAINS \<le> dst_domain then (None, s)
     else let (res, t) = delegate (DOMAINS s ! 0) (OBJECTS s) src_cptr msk bd (DOMAINS s ! dst_domain)
          in (result_ok res, s\<lparr>DOMAINS := (DOMAINS s)[dst_domain := t]\<rparr>))"

definition do_cap_transfer :: "nat \<Rightarrow> u16 \<Rightarrow> nat \<Rightarrow> capspace \<Rightarrow> (Status + u16) \<times> capspace" where
  "do_cap_transfer src_dom src_cptr dst_dom s =
    (if src_dom = dst_dom \<or> MAX_DOMAINS \<le> src_dom \<or> MAX_DOMAINS \<le> dst_dom then (Inl ErrBadCPtr, s)
     else
       let (res, t) = delegate (DOMAINS s ! src_dom) (OBJECTS s) src_cptr rights_all 0 (DOMAINS s ! dst_dom);
           s = s\<lparr>DOMAINS := (DOMAINS s)[dst_dom := t]\<rparr>
       in case res of
            Inr dst_cptr \<Rightarrow>
              (Inr dst_cptr, s\<lparr>DOMAINS := (DOMAINS s)[src_dom := (DOMAINS s ! src_dom)
                 \<lparr>slots := (slots (DOMAINS s ! src_dom))[unat src_cptr := None]\<rparr>]\<rparr>)
          | Inl e \<Rightarrow> (Inl e, s))"

section \<open>Resolving a capability\<close>

text \<open>
  The verified invoke followed by the lookup, the common beginning of \<^verbatim>\<open>cap_invoke_in\<close> and
  \<^verbatim>\<open>cap_invoke_ipc\<close>: kind, object and rights of the capability, or the error status.
\<close>

definition resolve :: "nat \<Rightarrow> u16 \<Rightarrow> u16 \<Rightarrow> capspace \<Rightarrow> Status + (ObjectKind \<times> u64 \<times> Rights)" where
  "resolve d cptr method s =
    (let tbl = DOMAINS s ! d;
         st = invoke tbl (OBJECTS s) cptr method INVOKE
     in if st \<noteq> Ok then Inl st
        else case lookup tbl cptr (OBJECTS s) of
            Inr e \<Rightarrow> Inr (type_tag e, object_id e, rights e)
          | Inl st \<Rightarrow> Inl st)"

definition extent_metadata :: "nat \<Rightarrow> u16 \<Rightarrow> capspace \<Rightarrow> (u64 \<times> u32 \<times> u64) option" where
  "extent_metadata d cptr s =
    (let d = min d (MAX_DOMAINS - 1);
         tbl = DOMAINS s ! d
     in if invoke tbl (OBJECTS s) cptr X_READ INVOKE \<noteq> Ok then None
        else case lookup tbl cptr (OBJECTS s) of
            Inl _ \<Rightarrow> None
          | Inr e \<Rightarrow>
              if type_tag e = Extent \<and> contains (rights e) READ then
                let i = unat (object_id e)
                in if OBJECT_TABLE_SIZE \<le> i then None
                   else let m = EXTENTS s ! i in Some (ext_lba m, ext_len m, ext_hash m)
              else None)"

definition admit_check :: "u16 \<Rightarrow> capspace \<Rightarrow> Status" where
  "admit_check cptr s = invoke (DOMAINS s ! 0) (OBJECTS s) cptr M_GRANT_TIME INVOKE"

definition revoke_timeslice :: "u16 \<Rightarrow> capspace \<Rightarrow> Status \<times> capspace" where
  "revoke_timeslice cptr s =
    (case lookup (DOMAINS s ! 0) cptr (OBJECTS s) of
       Inl st \<Rightarrow> (st, s)
     | Inr e \<Rightarrow> let (st, ot) = revoke (OBJECTS s) (object_id e) in (st, s\<lparr>OBJECTS := ot\<rparr>))"

section \<open>Notifications\<close>

definition notify_signal :: "u64 \<Rightarrow> u64 \<Rightarrow> capspace \<Rightarrow> capspace" where
  "notify_signal oid bits s =
    (let i = unat oid
     in if i < OBJECT_TABLE_SIZE then s\<lparr>NOTIFY := (NOTIFY s)[i := NOTIFY s ! i OR bits]\<rparr> else s)"

definition notify_take :: "u64 \<Rightarrow> capspace \<Rightarrow> u64 \<times> capspace" where
  "notify_take oid s =
    (let i = unat oid
     in if OBJECT_TABLE_SIZE \<le> i then (0, s)
        else (NOTIFY s ! i, s\<lparr>NOTIFY := (NOTIFY s)[i := 0]\<rparr>))"

section \<open>Well-formed tables\<close>

definition wf_maps :: "DomainMaps \<Rightarrow> bool" where
  "wf_maps dm \<longleftrightarrow> length (dm_entries dm) = MAX_MAPS_PER_DOMAIN \<and> dm_count dm \<le> MAX_MAPS_PER_DOMAIN"

definition wf_capspace :: "capspace \<Rightarrow> bool" where
  "wf_capspace s \<longleftrightarrow> wf_objects (OBJECTS s) \<and>
     length (DOMAINS s) = MAX_DOMAINS \<and> (\<forall>t \<in> set (DOMAINS s). wf_caps t) \<and>
     length (NOTIFY s) = OBJECT_TABLE_SIZE \<and> length (ENDPOINTS s) = OBJECT_TABLE_SIZE \<and>
     length (EXTENTS s) = OBJECT_TABLE_SIZE \<and> length (DEVQUEUES s) = OBJECT_TABLE_SIZE \<and>
     length (DOMAIN_MAPS s) = MAX_DOMAINS \<and> (\<forall>dm \<in> set (DOMAIN_MAPS s). wf_maps dm)"

lemma wf_capspaceD:
  assumes "wf_capspace s"
  shows "wf_objects (OBJECTS s)" "length (DOMAINS s) = MAX_DOMAINS"
    "d < MAX_DOMAINS \<Longrightarrow> wf_caps (DOMAINS s ! d)" "length (ENDPOINTS s) = OBJECT_TABLE_SIZE"
    "length (NOTIFY s) = OBJECT_TABLE_SIZE" "length (DOMAIN_MAPS s) = MAX_DOMAINS"
    "d < MAX_DOMAINS \<Longrightarrow> wf_maps (DOMAIN_MAPS s ! d)"
  using assms by (auto simp: wf_capspace_def)

lemma EMPTY_TABLE_new: "EMPTY_TABLE = CapTable_new"
  by (simp add: EMPTY_TABLE_def CapTable_new_def)

lemma wf_capspace_initial: "wf_capspace capspace_initial"
  by (simp add: wf_capspace_def capspace_initial_def EMPTY_TABLE_new wf_maps_def DM_EMPTY_def)

lemma set_update_ball: "\<forall>x \<in> set xs. P x \<Longrightarrow> P y \<Longrightarrow> \<forall>x \<in> set (xs[i := y]). P x"
  using set_update_subset_insert [of xs i y] by blast

named_theorems wf_intros

lemma wf_set_table [wf_intros]:
  "wf_capspace s \<Longrightarrow> wf_caps t \<Longrightarrow> wf_capspace (s\<lparr>DOMAINS := (DOMAINS s)[d := t]\<rparr>)"
  unfolding wf_capspace_def using set_update_ball [of "DOMAINS s" wf_caps t d] by simp

lemma wf_set_objects [wf_intros]: "wf_capspace s \<Longrightarrow> wf_objects ot \<Longrightarrow> wf_capspace (s\<lparr>OBJECTS := ot\<rparr>)"
  by (simp add: wf_capspace_def)

lemma wf_set_endpoint [wf_intros]: "wf_capspace s \<Longrightarrow> wf_capspace (s\<lparr>ENDPOINTS := (ENDPOINTS s)[i := e]\<rparr>)"
  by (simp add: wf_capspace_def)

lemma wf_record_domain_map [wf_intros]: "wf_capspace s \<Longrightarrow> wf_capspace (record_domain_map d va s)"
proof -
  assume wf: "wf_capspace s"
  show ?thesis
  proof (cases "d < MAX_DOMAINS \<and> dm_count (DOMAIN_MAPS s ! d) < MAX_MAPS_PER_DOMAIN")
    case True
    then have "wf_maps (DOMAIN_MAPS s ! d)" using wf by (simp add: wf_capspaceD)
    with True wf show ?thesis
      by (simp add: record_domain_map_def wf_capspace_def Let_def) (rule set_update_ball, simp_all add: wf_maps_def)
  qed (use wf in \<open>auto simp: record_domain_map_def Let_def\<close>)
qed

lemma wf_set_current_domain [wf_intros]: "wf_capspace s \<Longrightarrow> wf_capspace (set_current_domain d s)"
  by (simp add: wf_capspace_def set_current_domain_def)

lemma wf_notify_signal [wf_intros]: "wf_capspace s \<Longrightarrow> wf_capspace (notify_signal oid b s)"
  by (simp add: wf_capspace_def notify_signal_def Let_def)

lemma wf_notify_take [wf_intros]: "wf_capspace s \<Longrightarrow> wf_capspace (snd (notify_take oid s))"
  by (simp add: wf_capspace_def notify_take_def Let_def)

section \<open>Authority\<close>

text \<open>
  \<open>holds s d e\<close>: domain \<open>d\<close> has the capability \<open>e\<close>. \<open>confined s s'\<close>: going from \<open>s\<close> to \<open>s'\<close>, the objects
  of \<open>s\<close> have stayed and kept their kind, and every capability anybody holds derives from one that
  somebody held, or names an object that did not exist.
\<close>

definition holds :: "capspace \<Rightarrow> nat \<Rightarrow> CapEntry \<Rightarrow> bool" where
  "holds s d e \<longleftrightarrow> d < MAX_DOMAINS \<and> (\<exists>c. cap_at (DOMAINS s ! d) c = Some e)"

definition live_object :: "capspace \<Rightarrow> u64 \<Rightarrow> bool" where
  "live_object s oid \<longleftrightarrow> unat oid < OBJECT_TABLE_SIZE \<and> present (object_meta (OBJECTS s) oid)"

definition confined :: "capspace \<Rightarrow> capspace \<Rightarrow> bool" where
  "confined s s' \<longleftrightarrow>
     (\<forall>oid. live_object s oid \<longrightarrow>
        live_object s' oid \<and> kind (object_meta (OBJECTS s') oid) = kind (object_meta (OBJECTS s) oid)) \<and>
     (\<forall>d e. holds s' d e \<longrightarrow> (\<exists>d0 e0. holds s d0 e0 \<and> derives e0 e) \<or> \<not> live_object s (object_id e))"

lemma confined_refl [simp]: "confined s s"
  by (auto simp: confined_def intro: derives_refl)

lemma confined_live: "confined s s' \<Longrightarrow> live_object s oid \<Longrightarrow> live_object s' oid"
  by (simp add: confined_def)

lemma derives_object_id: "derives p c \<Longrightarrow> object_id c = object_id p"
  by (simp add: derives_def)

lemma confined_trans:
  assumes "confined a b" "confined b c"
  shows "confined a c"
  unfolding confined_def
proof (intro conjI allI impI)
  fix oid assume "live_object a oid"
  then show "live_object c oid" "kind (object_meta (OBJECTS c) oid) = kind (object_meta (OBJECTS a) oid)"
    using assms confined_live [OF assms(1)] by (simp_all add: confined_def)
next
  fix d e assume "holds c d e"
  then have "(\<exists>d1 e1. holds b d1 e1 \<and> derives e1 e) \<or> \<not> live_object b (object_id e)"
    using assms(2) unfolding confined_def by blast
  then show "(\<exists>d0 e0. holds a d0 e0 \<and> derives e0 e) \<or> \<not> live_object a (object_id e)"
  proof (elim disjE exE conjE)
    fix d1 e1 assume e1: "holds b d1 e1" "derives e1 e"
    then have "(\<exists>d0 e0. holds a d0 e0 \<and> derives e0 e1) \<or> \<not> live_object a (object_id e1)"
      using assms(1) unfolding confined_def by blast
    then show ?thesis unfolding derives_object_id [OF e1(2)] using derives_trans [OF _ e1(2)] by blast
  qed (use confined_live [OF assms(1)] in blast)
qed

lemma confined_same: "OBJECTS s' = OBJECTS s \<Longrightarrow> DOMAINS s' = DOMAINS s \<Longrightarrow> confined s s'"
  by (auto simp: confined_def holds_def live_object_def intro: derives_refl)

text \<open>Installing a table.\<close>

lemma holds_set_table:
  assumes "wf_capspace s"
  shows "holds (s\<lparr>DOMAINS := (DOMAINS s)[d := t]\<rparr>) d' e \<longleftrightarrow>
    d' < MAX_DOMAINS \<and> (if d' = d then \<exists>c. cap_at t c = Some e else holds s d' e)"
  using wf_capspaceD(2) [OF assms] by (auto simp: holds_def nth_list_update)

lemma confined_set_table:
  assumes "wf_capspace s"
    and "\<And>c e. cap_at t c = Some e \<Longrightarrow> (\<exists>d0 e0. holds s d0 e0 \<and> derives e0 e) \<or> \<not> live_object s (object_id e)"
  shows "confined s (s\<lparr>DOMAINS := (DOMAINS s)[d := t]\<rparr>)"
  unfolding confined_def
proof (intro conjI allI impI)
  fix d' e assume "holds (s\<lparr>DOMAINS := (DOMAINS s)[d := t]\<rparr>) d' e"
  then have "(\<exists>c. cap_at t c = Some e) \<or> holds s d' e"
    using holds_set_table [OF assms(1), of d t d' e] by (auto split: if_splits)
  then show "(\<exists>d0 e0. holds s d0 e0 \<and> derives e0 e) \<or> \<not> live_object s (object_id e)"
    using assms(2) derives_refl by blast
qed (simp_all add: live_object_def)

section \<open>The operations and authority\<close>

text \<open>A payload initialiser keeps the tables' shape, the objects and the capabilities.\<close>

definition payload_ok :: "(nat \<Rightarrow> capspace \<Rightarrow> capspace) \<Rightarrow> bool" where
  "payload_ok p \<longleftrightarrow> (\<forall>i s. (wf_capspace s \<longrightarrow> wf_capspace (p i s)) \<and>
     OBJECTS (p i s) = OBJECTS s \<and> DOMAINS (p i s) = DOMAINS s \<and> ENDPOINTS (p i s) = ENDPOINTS s \<and>
     DOMAIN_MAPS (p i s) = DOMAIN_MAPS s \<and> CURRENT_DOMAIN (p i s) = CURRENT_DOMAIN s)"

lemma payload_okD:
  assumes "payload_ok p"
  shows "wf_capspace s \<Longrightarrow> wf_capspace (p i s)" "OBJECTS (p i s) = OBJECTS s" "DOMAINS (p i s) = DOMAINS s"
    "ENDPOINTS (p i s) = ENDPOINTS s" "DOMAIN_MAPS (p i s) = DOMAIN_MAPS s" "CURRENT_DOMAIN (p i s) = CURRENT_DOMAIN s"
  using assms unfolding payload_ok_def by blast+

lemma payload_ok_id: "payload_ok (\<lambda>i s. s)"
  by (simp add: payload_ok_def)

lemma payload_ok_extent: "payload_ok (\<lambda>i s. s\<lparr>EXTENTS := (EXTENTS s)[i := x]\<rparr>)"
  by (simp add: payload_ok_def wf_capspace_def)

lemma payload_ok_devqueue: "payload_ok (\<lambda>i s. s\<lparr>DEVQUEUES := (DEVQUEUES s)[i := x]\<rparr>)"
  by (simp add: payload_ok_def wf_capspace_def)

lemmas payload_oks = payload_ok_id payload_ok_extent payload_ok_devqueue

lemma create_and_mint_cases:
  assumes wf: "wf_capspace s" and p: "payload_ok p" and eq: "create_and_mint k p r s = (res, s')"
  obtains (no_object) "res = None" "s' = s"
  | (no_slot) oid ot where "create_object (OBJECTS s) k = (Some oid, ot)" "res = None"
      "s' = p (unat oid) (s\<lparr>OBJECTS := ot\<rparr>)"
  | (minted) oid ot c t where "create_object (OBJECTS s) k = (Some oid, ot)" "res = Some c"
      "mint (DOMAINS s ! 0) ot oid r 0 = (Inr c, t)"
      "s' = (p (unat oid) (s\<lparr>OBJECTS := ot\<rparr>))\<lparr>DOMAINS := (DOMAINS s)[0 := t]\<rparr>"
proof (cases "create_object (OBJECTS s) k")
  case (Pair o1 ot)
  show ?thesis
  proof (cases o1)
    case None
    with Pair have "ot = OBJECTS s" using create_object_None by blast
    with Pair None eq show ?thesis using no_object by (simp add: create_and_mint_def)
  next
    case (Some oid)
    with Pair have cr: "create_object (OBJECTS s) k = (Some oid, ot)" by simp
    have lt: "\<not> OBJECT_TABLE_SIZE \<le> unat oid"
      using create_object_Some(1) [OF wf_capspaceD(1) [OF wf] cr] by simp
    let ?s = "p (unat oid) (s\<lparr>OBJECTS := ot\<rparr>)"
    have pk: "DOMAINS ?s = DOMAINS s" "OBJECTS ?s = ot" using payload_okD [OF p] by simp_all
    obtain res' t where m: "mint (DOMAINS s ! 0) ot oid r 0 = (res', t)" by (rule prod.exhaust)
    have e: "res = result_ok res'" "s' = ?s\<lparr>DOMAINS := (DOMAINS s)[0 := t]\<rparr>"
      using eq cr lt m pk by (simp_all add: create_and_mint_def Let_def)
    show ?thesis
    proof (cases res')
      case (Inl st)
      then have "t = DOMAINS s ! 0" using m mint_Inl by blast
      then have "s' = ?s" using e(2) pk(1) by (simp add: list_update_id)
      then show ?thesis using no_slot [OF cr] e(1) Inl by simp
    next
      case (Inr c)
      then show ?thesis using minted [OF cr _ _ e(2)] e(1) m by simp
    qed
  qed
qed

lemma confined_new_object:
  assumes "wf_capspace s" "create_object (OBJECTS s) k = (Some oid, ot)"
  shows "confined s (s\<lparr>OBJECTS := ot\<rparr>)" "\<not> live_object s oid" "wf_objects ot"
    "object_meta ot = (object_meta (OBJECTS s))(oid := \<lparr>kind = k, current_epoch = 0, present = True\<rparr>)"
    "unat oid < OBJECT_TABLE_SIZE"
proof -
  note new = create_object_Some [OF wf_capspaceD(1) [OF assms(1)] assms(2)]
  show fresh: "\<not> live_object s oid" using new(2) by (simp add: live_object_def)
  show "wf_objects ot" "unat oid < OBJECT_TABLE_SIZE"
    "object_meta ot = (object_meta (OBJECTS s))(oid := \<lparr>kind = k, current_epoch = 0, present = True\<rparr>)"
    by (rule new)+
  then have "object_meta ot x = object_meta (OBJECTS s) x" if "live_object s x" for x
    using fresh that by auto
  then show "confined s (s\<lparr>OBJECTS := ot\<rparr>)"
    by (auto simp: confined_def holds_def live_object_def intro: derives_refl)
qed

lemma create_and_mint_wf:
  assumes wf: "wf_capspace s" and p: "payload_ok p" and eq: "create_and_mint k p r s = (res, s')"
  shows "wf_capspace s'"
proof (use wf p eq in \<open>cases rule: create_and_mint_cases\<close>)
  case no_object
  then show ?thesis using wf by simp
next
  case (no_slot oid ot)
  then show ?thesis using payload_okD(1) [OF p] wf confined_new_object(3) [OF wf no_slot(1)] by (simp add: wf_intros)
next
  case (minted oid ot c t)
  have "wf_capspace (p (unat oid) (s\<lparr>OBJECTS := ot\<rparr>))"
    using payload_okD(1) [OF p] wf confined_new_object(3) [OF wf minted(1)] by (simp add: wf_intros)
  moreover have "wf_caps t"
    using mint_cap_at(3) [OF _ minted(3)] wf_capspaceD(3) [OF wf, of 0] by (simp add: const_defs)
  ultimately show ?thesis
    using wf_set_table [of "p (unat oid) (s\<lparr>OBJECTS := ot\<rparr>)" t 0] payload_okD(3) [OF p] minted(4) by simp
qed

lemma create_and_mint_confined:
  assumes wf: "wf_capspace s" and p: "payload_ok p" and eq: "create_and_mint k p r s = (res, s')"
  shows "confined s s'"
proof (use wf p eq in \<open>cases rule: create_and_mint_cases\<close>)
  case no_object
  then show ?thesis by simp
next
  case (no_slot oid ot)
  have "confined (s\<lparr>OBJECTS := ot\<rparr>) s'" using no_slot payload_okD [OF p] by (simp add: confined_same)
  then show ?thesis using confined_new_object(1) [OF wf no_slot(1)] confined_trans by blast
next
  case (minted oid ot c t)
  note new = confined_new_object [OF wf minted(1)]
  have at: "cap_at t = (cap_at (DOMAINS s ! 0))(c \<mapsto> \<lparr>object_id = oid, rights = r,
      epoch = current_epoch (object_meta ot oid), type_tag = kind (object_meta ot oid), badge = 0\<rparr>)"
    using mint_cap_at(2) [OF _ minted(3)] wf_capspaceD(3) [OF wf, of 0] by (simp add: const_defs)
  have z: "(0 :: nat) < MAX_DOMAINS" by (simp add: const_defs)
  have "confined s (s\<lparr>DOMAINS := (DOMAINS s)[0 := t]\<rparr>)"
  proof (rule confined_set_table [OF wf])
    fix c' e assume "cap_at t c' = Some e"
    then have "holds s 0 e \<or> object_id e = oid"
      unfolding at holds_def using z by (auto split: if_splits)
    then show "(\<exists>d0 e0. holds s d0 e0 \<and> derives e0 e) \<or> \<not> live_object s (object_id e)"
      using new(2) derives_refl by blast
  qed
  then show ?thesis
    using new(1) payload_okD [OF p] minted(4) by (auto simp: confined_def holds_def live_object_def)
qed

lemma create_and_mint_Some:
  assumes wf: "wf_capspace s" and p: "payload_ok p" and eq: "create_and_mint k p r s = (Some c, s')"
  shows "\<exists>oid. \<not> live_object s oid \<and> unat oid < OBJECT_TABLE_SIZE \<and>
    valid_cap (OBJECTS s') \<lparr>object_id = oid, rights = r, epoch = 0, type_tag = k, badge = 0\<rparr> \<and>
    cap_at (DOMAINS s' ! 0) = (cap_at (DOMAINS s ! 0))
      (c \<mapsto> \<lparr>object_id = oid, rights = r, epoch = 0, type_tag = k, badge = 0\<rparr>) \<and>
    cap_at (DOMAINS s ! 0) c = None \<and> (\<forall>d. d \<noteq> 0 \<longrightarrow> DOMAINS s' ! d = DOMAINS s ! d)"
proof (use wf p eq in \<open>cases rule: create_and_mint_cases\<close>)
  case (minted oid ot c' t)
  note new = confined_new_object [OF wf minted(1)]
  have wf0: "wf_caps (DOMAINS s ! 0)" using wf_capspaceD(3) [OF wf, of 0] by (simp add: const_defs)
  have len: "0 < length (DOMAINS s)" using wf_capspaceD(2) [OF wf] by (simp add: const_defs)
  have "OBJECTS s' = ot" using minted(4) payload_okD(2) [OF p] by simp
  then show ?thesis
    using minted new len mint_cap_at [OF wf0 minted(3)]
    by (intro exI [of _ oid]) (auto simp: valid_cap_def)
qed simp_all

lemma create_and_mint_free:
  assumes "wf_capspace s" "payload_ok p" "create_object (OBJECTS s) k = (Some oid, ot)"
    and "position (\<lambda>s. s = None) (slots (DOMAINS s ! 0)) = Some i"
  shows "\<exists>s'. create_and_mint k p r s = (Some (of_nat i), s')"
proof -
  note new = confined_new_object [OF assms(1,3)]
  have "present (metas ot ! unat oid)" using new(4) by (simp add: object_meta_def fun_eq_iff)
  then show ?thesis
    using assms(3,4) new(5) payload_okD(2,3) [OF assms(2)]
    by (simp add: create_and_mint_def mint_def Let_def)
qed

subsection \<open>Delegation and transfer\<close>

lemma delegate_confined:
  assumes "wf_capspace s" "src < MAX_DOMAINS" "dst < MAX_DOMAINS"
    and "delegate (DOMAINS s ! src) (OBJECTS s) c m b (DOMAINS s ! dst) = (res, t)"
  shows "confined s (s\<lparr>DOMAINS := (DOMAINS s)[dst := t]\<rparr>)" "wf_caps t"
proof -
  have wft: "wf_caps (DOMAINS s ! dst)" by (rule wf_capspaceD(3) [OF assms(1,3)])
  have "wf_caps t \<and> (\<forall>c' e. cap_at t c' = Some e \<longrightarrow>
      holds s dst e \<or> (\<exists>e0. holds s src e0 \<and> derives e0 e))"
  proof (cases res)
    case (Inl st)
    then have "t = DOMAINS s ! dst" using assms(4) delegate_Inl by blast
    then show ?thesis using wft assms(3) by (auto simp: holds_def)
  next
    case (Inr d)
    with assms(4) have eq: "delegate (DOMAINS s ! src) (OBJECTS s) c m b (DOMAINS s ! dst) = (Inr d, t)" by simp
    from wft eq obtain p where p: "cap_at (DOMAINS s ! src) c = Some p"
        "cap_at t = (cap_at (DOMAINS s ! dst))(d \<mapsto> p\<lparr>rights := rights p AND m, badge := b\<rparr>)" "wf_caps t"
      by (rule delegate_Inr)
    have "derives p (p\<lparr>rights := rights p AND m, badge := b\<rparr>)" by (simp add: derives_def)
    moreover have "holds s src p" using p(1) assms(2) by (auto simp: holds_def)
    ultimately show ?thesis using p(2,3) assms(3) by (auto simp: holds_def split: if_splits)
  qed
  then show "wf_caps t" "confined s (s\<lparr>DOMAINS := (DOMAINS s)[dst := t]\<rparr>)"
    using confined_set_table [OF assms(1)] derives_refl by blast+
qed

lemma delegate_from_root_confined:
  assumes "wf_capspace s" "delegate_from_root d c m b s = (res, s')"
  shows "confined s s'" "wf_capspace s'"
proof -
  have "confined s s' \<and> wf_capspace s'"
  proof (cases "d = 0 \<or> MAX_DOMAINS \<le> d")
    case False
    then have d: "0 < MAX_DOMAINS" "d < MAX_DOMAINS" by (auto simp: const_defs)
    obtain r t where r: "delegate (DOMAINS s ! 0) (OBJECTS s) c m b (DOMAINS s ! d) = (r, t)" by (rule prod.exhaust)
    then have "s' = s\<lparr>DOMAINS := (DOMAINS s)[d := t]\<rparr>"
      using assms(2) False by (simp add: delegate_from_root_def)
    then show ?thesis using delegate_confined [OF assms(1) d r] assms(1) wf_set_table by simp
  qed (use assms in \<open>auto simp: delegate_from_root_def\<close>)
  then show "confined s s'" "wf_capspace s'" by blast+
qed

lemma cap_at_clear:
  assumes "wf_caps t"
  shows "cap_at (t\<lparr>slots := (slots t)[unat c := None]\<rparr>) = (cap_at t)(c := None)"
proof
  fix x
  have "unat x = unat c \<longleftrightarrow> x = c" by (rule word_unat_eq_iff [symmetric])
  then show "cap_at (t\<lparr>slots := (slots t)[unat c := None]\<rparr>) x = ((cap_at t)(c := None)) x"
    using assms by (auto simp: cap_at_def wf_caps_def nth_list_update)
qed

text \<open>The two outcomes of a transfer.\<close>

lemma do_cap_transfer_Inl: "do_cap_transfer src c dst s = (Inl st, s') \<Longrightarrow> st \<noteq> Ok \<and> s' = s"
  unfolding do_cap_transfer_def
  by (auto simp: Let_def split: if_splits prod.splits sum.splits dest!: delegate_Inl)

lemma do_cap_transfer_Inr:
  assumes "wf_capspace s" "do_cap_transfer src c dst s = (Inr d, s')"
  obtains e where "src \<noteq> dst" "src < MAX_DOMAINS" "dst < MAX_DOMAINS"
    "cap_at (DOMAINS s ! src) c = Some e" "valid_cap (OBJECTS s) e" "contains (rights e) DELEGATE"
    "cap_at (DOMAINS s ! dst) d = None" "unat d < CAP_TABLE_SLOTS"
    "cap_at (DOMAINS s' ! src) = (cap_at (DOMAINS s ! src))(c := None)"
    "cap_at (DOMAINS s' ! dst) = (cap_at (DOMAINS s ! dst))(d \<mapsto> e\<lparr>rights := rights e AND rights_all, badge := 0\<rparr>)"
    "\<And>x. x \<noteq> src \<Longrightarrow> x \<noteq> dst \<Longrightarrow> DOMAINS s' ! x = DOMAINS s ! x"
    "s' = s\<lparr>DOMAINS := DOMAINS s'\<rparr>" "wf_capspace s'" "confined s s'"
proof -
  have d: "src \<noteq> dst" "src < MAX_DOMAINS" "dst < MAX_DOMAINS"
    using assms(2) by (auto simp: do_cap_transfer_def split: if_splits)
  obtain r t where r: "delegate (DOMAINS s ! src) (OBJECTS s) c rights_all 0 (DOMAINS s ! dst) = (r, t)"
    by (rule prod.exhaust)
  have r': "r = Inr d" using assms(2) d r by (auto simp: do_cap_transfer_def Let_def split: sum.splits)
  let ?s = "s\<lparr>DOMAINS := (DOMAINS s)[dst := t]\<rparr>"
  let ?t = "(DOMAINS s ! src)\<lparr>slots := (slots (DOMAINS s ! src))[unat c := None]\<rparr>"
  have len: "length (DOMAINS s) = MAX_DOMAINS" by (rule wf_capspaceD(2) [OF assms(1)])
  have s': "s' = ?s\<lparr>DOMAINS := (DOMAINS ?s)[src := ?t]\<rparr>"
    using assms(2) d r r' by (simp add: do_cap_transfer_def Let_def)
  have wfs: "wf_caps (DOMAINS s ! src)" and wfd: "wf_caps (DOMAINS s ! dst)"
    using wf_capspaceD(3) [OF assms(1)] d by auto
  from r [unfolded r'] obtain e where e: "cap_at (DOMAINS s ! src) c = Some e" "valid_cap (OBJECTS s) e"
    "contains (rights e) DELEGATE" "cap_at (DOMAINS s ! dst) d = None" "unat d < CAP_TABLE_SLOTS"
    "cap_at t = (cap_at (DOMAINS s ! dst))(d \<mapsto> e\<lparr>rights := rights e AND rights_all, badge := 0\<rparr>)" "wf_caps t"
    using delegate_Inr [OF wfd] by metis
  note conf = delegate_confined [OF assms(1) d(2,3) r]
  have wf1: "wf_capspace ?s" using assms(1) conf(2) by (rule wf_set_table)
  have at: "cap_at ?t = (cap_at (DOMAINS s ! src))(c := None)" by (rule cap_at_clear [OF wfs])
  have "confined ?s s'" unfolding s'
  proof (rule confined_set_table [OF wf1])
    fix x y assume "cap_at ?t x = Some y"
    then have "holds ?s src y" using d len unfolding at by (auto simp: holds_def split: if_splits)
    then show "(\<exists>d0 e0. holds ?s d0 e0 \<and> derives e0 y) \<or> \<not> live_object ?s (object_id y)" using derives_refl by blast
  qed
  then have "confined s s'" using conf(1) confined_trans by blast
  moreover have "wf_capspace s'" unfolding s' by (rule wf_set_table [OF wf1]) (simp add: wfs)
  ultimately show ?thesis
    using that [of e] d e at len by (simp add: s')
qed

lemma do_cap_transfer_confined:
  assumes "wf_capspace s" "do_cap_transfer src c dst s = (res, s')"
  shows "wf_capspace s'" "confined s s'" "s' = s\<lparr>DOMAINS := DOMAINS s'\<rparr>"
proof -
  have "wf_capspace s' \<and> confined s s' \<and> s' = s\<lparr>DOMAINS := DOMAINS s'\<rparr>"
  proof (cases res)
    case (Inl st)
    then show ?thesis using assms do_cap_transfer_Inl by force
  next
    case (Inr d)
    with assms show ?thesis using do_cap_transfer_Inr by (metis (no_types, lifting))
  qed
  then show "wf_capspace s'" "confined s s'" "s' = s\<lparr>DOMAINS := DOMAINS s'\<rparr>" by blast+
qed

lemma revoke_object:
  assumes "wf_capspace s" "live_object s x"
  shows "live_object (s\<lparr>OBJECTS := snd (revoke (OBJECTS s) oid)\<rparr>) x \<and>
    kind (object_meta (snd (revoke (OBJECTS s) oid)) x) = kind (object_meta (OBJECTS s) x)"
proof (cases "live_object s oid")
  case True
  then have "object_meta (snd (revoke (OBJECTS s) oid)) = (object_meta (OBJECTS s))(oid := (object_meta (OBJECTS s) oid)
      \<lparr>current_epoch := current_epoch (object_meta (OBJECTS s) oid) + 1\<rparr>)"
    using object_meta_revoke [OF wf_capspaceD(1) [OF assms(1)]] by (simp add: live_object_def)
  then show ?thesis using assms(2) by (auto simp: live_object_def)
qed (use assms(2) in \<open>auto simp: live_object_def revoke_eq\<close>)

lemma revoke_timeslice_confined:
  assumes "wf_capspace s" "revoke_timeslice c s = (st, s')"
  shows "wf_capspace s'" "confined s s'" "s' = s\<lparr>OBJECTS := OBJECTS s'\<rparr>"
proof -
  have "s' = s \<or> (\<exists>oid. s' = s\<lparr>OBJECTS := snd (revoke (OBJECTS s) oid)\<rparr>)"
    using assms(2) by (auto simp: revoke_timeslice_def Let_def case_prod_beta split: sum.splits)
  moreover have "confined s (s\<lparr>OBJECTS := snd (revoke (OBJECTS s) oid)\<rparr>)" for oid
  proof -
    have "holds (s\<lparr>OBJECTS := snd (revoke (OBJECTS s) oid)\<rparr>) d e = holds s d e" for d e by (simp add: holds_def)
    then have "\<forall>d e. holds (s\<lparr>OBJECTS := snd (revoke (OBJECTS s) oid)\<rparr>) d e \<longrightarrow> (\<exists>d0 e0. holds s d0 e0 \<and> derives e0 e)"
      using derives_refl by blast
    then show ?thesis unfolding confined_def using revoke_object [OF assms(1), of _ oid] by simp
  qed
  ultimately show "wf_capspace s'" "confined s s'" "s' = s\<lparr>OBJECTS := OBJECTS s'\<rparr>"
    using assms(1) wf_capspaceD(1) [OF assms(1)] by (auto intro: wf_set_objects)
qed

section \<open>A concrete capability space\<close>

text \<open>
  One object, a device queue. Domain 1 holds a capability to it with \<open>READ\<close>, \<open>INVOKE\<close> and \<open>DELEGATE\<close>,
  but not \<open>MAP\<close>.
\<close>

definition demo_dq_entry :: CapEntry where
  "demo_dq_entry = \<lparr>object_id = 0, rights = READ OR INVOKE OR DELEGATE, epoch = 0, type_tag = DeviceQueue, badge = 0\<rparr>"

definition demo_capspace :: capspace where
  "demo_capspace = capspace_initial\<lparr>OBJECTS := snd (create_object ObjectTable_new DeviceQueue),
     DOMAINS := (DOMAINS capspace_initial)[1 := CapTable_new\<lparr>slots := (slots CapTable_new)[0 := Some demo_dq_entry]\<rparr>],
     DEVQUEUES := (DEVQUEUES capspace_initial)[0 := \<lparr>dq_desc_phys = 0x100000, dq_avail_phys = 0x101000,
       dq_used_phys = 0x102000, dq_buf_phys = 0x103000, dq_doorbell_phys = 0xFEBF3000, dq_qsize = 128,
       dq_magic = 7, dq_scratch_lba = 32752\<rparr>]\<rparr>"

lemma demo_dq_meta: "object_meta (OBJECTS demo_capspace) 0 = \<lparr>kind = DeviceQueue, current_epoch = 0, present = True\<rparr>"
  by (simp add: demo_capspace_def create_object_new object_meta_update OBJECT_TABLE_SIZE_def)

lemma wf_demo_capspace: "wf_capspace demo_capspace"
  using wf_capspace_initial set_update_ball [of "DOMAINS capspace_initial" wf_caps
      "CapTable_new\<lparr>slots := (slots CapTable_new)[0 := Some demo_dq_entry]\<rparr>" 1]
  by (simp add: wf_capspace_def demo_capspace_def create_object_new)

lemma demo_valid: "valid_cap (OBJECTS demo_capspace) demo_dq_entry"
  by (simp add: valid_cap_def demo_dq_entry_def demo_dq_meta OBJECT_TABLE_SIZE_def)

lemma demo_cap_at: "cap_at (DOMAINS demo_capspace ! Suc 0) c = (if c = 0 then Some demo_dq_entry else None)"
  by (simp add: demo_capspace_def capspace_initial_def const_defs cap_at_update unat_eq_0)

section \<open>Properties\<close>

text \<open>
  C21: a capability transfer is an atomic move. It succeeds only between two different domains, for
  a valid capability that carries \<open>DELEGATE\<close>; then the sender's slot is empty, one slot of the
  receiver that was free holds the capability with the defined rights of the original, and no
  other slot of any domain has changed. A transfer that fails changes nothing.
\<close>

theorem cap_transfer_is_atomic_move:
  assumes "wf_capspace s"
  shows "case do_cap_transfer src c dst s of
     (Inl st, s') \<Rightarrow> st \<noteq> Ok \<and> s' = s
   | (Inr d, s') \<Rightarrow> src \<noteq> dst \<and> (\<exists>e e'. cap_at (DOMAINS s ! src) c = Some e \<and> valid_cap (OBJECTS s) e \<and>
       contains (rights e) DELEGATE \<and> derives e e' \<and> rights e' = rights e AND rights_all \<and>
       cap_at (DOMAINS s ! dst) d = None \<and>
       cap_at (DOMAINS s' ! src) = (cap_at (DOMAINS s ! src))(c := None) \<and>
       cap_at (DOMAINS s' ! dst) = (cap_at (DOMAINS s ! dst))(d \<mapsto> e') \<and>
       (\<forall>x. x \<noteq> src \<and> x \<noteq> dst \<longrightarrow> DOMAINS s' ! x = DOMAINS s ! x) \<and> s' = s\<lparr>DOMAINS := DOMAINS s'\<rparr>)"
proof (cases "do_cap_transfer src c dst s")
  case (Pair res s')
  show ?thesis
  proof (cases res)
    case (Inl st)
    with Pair have eq: "do_cap_transfer src c dst s = (Inl st, s')" by simp
    then show ?thesis using do_cap_transfer_Inl [OF eq] by simp
  next
    case (Inr d)
    with Pair have eq: "do_cap_transfer src c dst s = (Inr d, s')" by simp
    from assms eq obtain e where e: "src \<noteq> dst" "cap_at (DOMAINS s ! src) c = Some e" "valid_cap (OBJECTS s) e"
      "contains (rights e) DELEGATE" "cap_at (DOMAINS s ! dst) d = None"
      "cap_at (DOMAINS s' ! src) = (cap_at (DOMAINS s ! src))(c := None)"
      "cap_at (DOMAINS s' ! dst) = (cap_at (DOMAINS s ! dst))(d \<mapsto> e\<lparr>rights := rights e AND rights_all, badge := 0\<rparr>)"
      "\<And>x. x \<noteq> src \<Longrightarrow> x \<noteq> dst \<Longrightarrow> DOMAINS s' ! x = DOMAINS s ! x" "s' = s\<lparr>DOMAINS := DOMAINS s'\<rparr>"
      by (rule do_cap_transfer_Inr) blast
    let ?e = "e\<lparr>rights := rights e AND rights_all, badge := 0\<rparr>"
    have "derives e ?e" by (simp add: derives_def)
    then show ?thesis unfolding eq prod.case sum.case using e by (intro conjI exI [of _ e] exI [of _ ?e]) simp_all
  qed
qed

theorem cap_transfer_is_atomic_move_witness:
  "\<exists>d s'. do_cap_transfer 1 0 2 demo_capspace = (Inr d, s') \<and> cap_at (DOMAINS s' ! 1) 0 = None"
proof -
  have "DOMAINS demo_capspace ! 2 = CapTable_new"
    by (simp add: demo_capspace_def capspace_initial_def EMPTY_TABLE_new MAX_DOMAINS_def)
  moreover have "position (\<lambda>s. s = None) (slots CapTable_new) = Some 0"
    by (simp add: CapTable_new_def CAP_TABLE_SLOTS_def)
  moreover have "contains (rights demo_dq_entry) DELEGATE" by (simp add: demo_dq_entry_def contains_def const_defs)
  ultimately obtain d t where "delegate (DOMAINS demo_capspace ! 1) (OBJECTS demo_capspace) 0 rights_all 0
      (DOMAINS demo_capspace ! 2) = (Inr d, t)"
    using demo_valid demo_cap_at [of 0] by (simp add: delegate_eq)
  then obtain s' where eq: "do_cap_transfer 1 0 2 demo_capspace = (Inr d, s')"
    by (simp add: do_cap_transfer_def MAX_DOMAINS_def)
  show ?thesis
    using cap_transfer_is_atomic_move [OF wf_demo_capspace, where src = 1 and c = 0 and dst = 2] unfolding eq by auto
qed

text \<open>
  C40: what admission checks. A task is admitted exactly when the root table holds a valid
  capability with \<open>INVOKE\<close> in the slot: its kind plays no role. So a capability to, say, a Memory
  object admits as well as one to a TimeSlice, contrary to the comments of \<^verbatim>\<open>admit_check\<close> and \<^verbatim>\<open>admit\<close>.
\<close>

theorem admission_ignores_the_kind:
  "(admit_check c s = Ok \<longleftrightarrow>
      (\<exists>e. cap_at (DOMAINS s ! 0) c = Some e \<and> valid_cap (OBJECTS s) e \<and> contains (rights e) INVOKE)) \<and>
   (\<exists>m. fst (init_root capspace_initial) = Some m \<and> admit_check m (snd (init_root capspace_initial)) = Ok)"
proof
  show "admit_check c s = Ok \<longleftrightarrow>
      (\<exists>e. cap_at (DOMAINS s ! 0) c = Some e \<and> valid_cap (OBJECTS s) e \<and> contains (rights e) INVOKE)"
    by (simp add: admit_check_def invoke_Ok_iff)
next
  obtain oid ot where cr: "create_object (OBJECTS capspace_initial) CapCore.Memory = (Some oid, ot)"
    by (simp add: capspace_initial_def create_object_new)
  have "position (\<lambda>s. s = None) (slots (DOMAINS capspace_initial ! 0)) = Some 0"
    by (simp add: capspace_initial_def EMPTY_TABLE_def MAX_DOMAINS_def CAP_TABLE_SLOTS_def)
  from create_and_mint_free [OF wf_capspace_initial payload_ok_id cr this]
  obtain m s' where eq: "init_root capspace_initial = (Some m, s')" unfolding init_root_def by blast
  from create_and_mint_Some [OF wf_capspace_initial payload_ok_id eq [unfolded init_root_def]]
  obtain e where "cap_at (DOMAINS s' ! 0) m = Some e" "valid_cap (OBJECTS s') e"
      "rights e = READ OR WRITE OR INVOKE OR MAP OR DELEGATE"
    by auto
  moreover have "contains (READ OR WRITE OR INVOKE OR MAP OR DELEGATE) INVOKE" by (simp add: contains_def const_defs)
  ultimately have "admit_check m s' = Ok" by (auto simp: admit_check_def invoke_Ok_iff)
  then show "\<exists>m. fst (init_root capspace_initial) = Some m \<and> admit_check m (snd (init_root capspace_initial)) = Ok"
    using eq by simp
qed

end
