(* ===== verification/KernelState.thy ===== *)
theory KernelState
  imports CapSpace Sched ObjStore
begin

text \<open>
  The state of the whole kernel: the statics of \<^verbatim>\<open>capspace.rs\<close>, \<^verbatim>\<open>memory.rs\<close>, \<^verbatim>\<open>virtio_blk.rs\<close>,
  \<^verbatim>\<open>sched.rs\<close>, \<^verbatim>\<open>apic.rs\<close>, \<^verbatim>\<open>syscall.rs\<close>, \<^verbatim>\<open>gdt.rs\<close> and \<^verbatim>\<open>supervisor.rs\<close>, and the machine. The
  kernel image itself is linked at its own addresses and not reached through the direct map; its
  part that is modelled byte by byte, the task stacks, is the memory \<open>kmem\<close>, at link addresses.

  What is fixed at boot is the record \<open>env\<close>: the bus and the direct-map offset, the \<^verbatim>\<open>x86_64\<close> mapper,
  the top-level page table, and the link addresses of the task stacks and of the boot stack.
\<close>

record 'd env =
  host :: "'d host"
  pt_mapper :: mapper
  cr3 :: u64
  task_stacks :: u64
  stack_top :: u64

record PerCpu =
  kernel_rsp0 :: u64
  user_rsp_scratch :: u64
  reply_cptr :: u64

record 'd kernel =
  caps :: capspace
  frames :: Memory
  mach :: "'d machine"
  VBLK :: VirtioBlk
  SCHED :: Scheduler
  kmem :: mem
  TICKS :: u64
  TICK_NS :: u64
  LAPIC_VIRT :: u64
  PER_CPU :: PerCpu
  tss_rsp0 :: u64
  FAULTER_ENTRY :: u64
  FAULTER_STACK_TOP :: u64
  FAULTER_RESTARTS :: u8

definition hhdm_offset :: "'d env \<Rightarrow> u64" where
  "hhdm_offset E = snd (host E)"

text \<open>An operation on the capability space alone, run on the kernel.\<close>

definition on_caps :: "(capspace \<Rightarrow> 'a \<times> capspace) \<Rightarrow> 'd kernel \<Rightarrow> 'a \<times> 'd kernel" where
  "on_caps f k = (let (r, c) = f (caps k) in (r, k\<lparr>caps := c\<rparr>))"

text \<open>\<^verbatim>\<open>st as u64\<close>.\<close>

fun status_code :: "Status \<Rightarrow> u64" where
  "status_code Ok = 0"
| "status_code ErrBadCPtr = 1"
| "status_code ErrRevoked = 2"
| "status_code ErrType = 3"
| "status_code ErrRights = 4"
| "status_code ErrMethod = 5"

end
