(* ===== verification/Invoke.thy ===== *)
theory Invoke
  imports KernelState
begin

text \<open>
  Method dispatch, the part of \<^verbatim>\<open>kernel/src/capspace.rs\<close> that acts on the rest of the kernel: memory
  allocation, notifications, extents, device queues, and the reaping of a dead domain. \<open>d\<close> is the
  invoking domain, \<open>oid\<close> the object, \<open>r\<close> the rights of the capability that was presented.
\<close>

section \<open>Mapping into a domain\<close>

definition kmap_user_phys :: "'d env \<Rightarrow> u64 \<Rightarrow> u64 \<Rightarrow> bool \<Rightarrow> bool \<Rightarrow> bool \<Rightarrow> 'd kernel \<Rightarrow> bool \<times> 'd kernel" where
  "kmap_user_phys E va phys writable exec no_cache k =
    (let (ok, m, mm) = map_user_phys (pt_mapper E) (cr3 E) (hhdm_offset E) va phys writable exec no_cache
           (ram (mach k), frames k)
     in (ok, k\<lparr>mach := (mach k)\<lparr>ram := m\<rparr>, frames := mm\<rparr>))"

definition extent_map :: "'d env \<Rightarrow> nat \<Rightarrow> u64 \<Rightarrow> 'd kernel \<Rightarrow> (Status \<times> u64) \<times> 'd kernel" where
  "extent_map E d oid k =
    (let i = unat oid
     in if OBJECT_TABLE_SIZE \<le> i then ((ErrBadCPtr, 0), k)
        else
          let frame = data_frame_phys (EXTENTS (caps k) ! i)
          in if frame = 0 then ((ErrMethod, 0), k)
             else case kmap_user_phys E EXTENT_MAP_BASE frame False False False k of
                 (True, k) \<Rightarrow> ((Ok, EXTENT_MAP_BASE), k\<lparr>caps := record_domain_map d EXTENT_MAP_BASE (caps k)\<rparr>)
               | (False, k) \<Rightarrow> ((ErrMethod, 0), k))"

definition devqueue_qsize :: "u64 \<Rightarrow> capspace \<Rightarrow> u64" where
  "devqueue_qsize oid s =
    (let i = unat oid in if OBJECT_TABLE_SIZE \<le> i then 0 else ucast (dq_qsize (DEVQUEUES s ! i)))"

text \<open>The five pages of a device queue: address, frame, writable, uncached.\<close>

definition dq_pages :: "DqMeta \<Rightarrow> (u64 \<times> u64 \<times> bool \<times> bool) list" where
  "dq_pages m =
    [(DQ_BASE, dq_desc_phys m, True, False),
     (DQ_BASE + 0x1000, dq_avail_phys m, True, False),
     (DQ_BASE + 0x2000, dq_used_phys m, False, False),
     (DQ_BASE + 0x3000, dq_buf_phys m, True, False),
     (DQ_BASE + 0x4000, dq_doorbell_phys m, True, True)]"

fun map_dq_pages :: "'d env \<Rightarrow> nat \<Rightarrow> (u64 \<times> u64 \<times> bool \<times> bool) list \<Rightarrow> 'd kernel \<Rightarrow> bool \<times> 'd kernel" where
  "map_dq_pages E d [] k = (True, k)"
| "map_dq_pages E d ((va, phys, writable, nc) # ps) k =
    (case kmap_user_phys E va phys writable False nc k of
       (False, k) \<Rightarrow> (False, k)
     | (True, k) \<Rightarrow> map_dq_pages E d ps (k\<lparr>caps := record_domain_map d va (caps k)\<rparr>))"

definition devqueue_map :: "'d env \<Rightarrow> nat \<Rightarrow> u64 \<Rightarrow> 'd kernel \<Rightarrow> (Status \<times> u64) \<times> 'd kernel" where
  "devqueue_map E d oid k =
    (let i = unat oid
     in if OBJECT_TABLE_SIZE \<le> i then ((ErrBadCPtr, 0), k)
        else
          let m = DEVQUEUES (caps k) ! i
          in if dq_buf_phys m = 0 then ((ErrMethod, 0), k)
             else case map_dq_pages E d (dq_pages m) k of
                 (True, k) \<Rightarrow> ((Ok, DQ_BASE), k)
               | (False, k) \<Rightarrow> ((ErrMethod, 0), k))"

section \<open>The other device-queue methods\<close>

definition devqueue_report :: "u64 \<Rightarrow> u64 \<Rightarrow> capspace \<Rightarrow> Status \<times> u64" where
  "devqueue_report oid reported s =
    (let i = unat oid
     in if OBJECT_TABLE_SIZE \<le> i then (ErrBadCPtr, 0)
        else (Ok, if reported = dq_magic (DEVQUEUES s ! i) then 1 else 0))"

definition devqueue_submit :: "'d env \<Rightarrow> u64 \<Rightarrow> u64 \<Rightarrow> 'd kernel \<Rightarrow> (Status \<times> u64) \<times> 'd kernel" where
  "devqueue_submit E oid lba k =
    (let i = unat oid
     in if OBJECT_TABLE_SIZE \<le> i then ((ErrBadCPtr, 0), k)
        else if dq_buf_phys (DEVQUEUES (caps k) ! i) = 0 then ((ErrMethod, 0), k)
        else
          let ((ok, sect), M, v) = read_sector (host E) lba (replicate 512 0) (mach k, VBLK k);
              k = k\<lparr>mach := M, VBLK := v\<rparr>
          in if \<not> ok then ((ErrMethod, 0), k) else ((Ok, fnv1a sect), k))"

section \<open>Dispatch\<close>

definition extra_right :: "ObjectKind \<Rightarrow> u16 \<Rightarrow> Rights" where
  "extra_right kd method =
    (if kd = Notification \<and> method = N_SIGNAL then WRITE
     else if kd = Notification \<and> method = N_POLL then READ
     else if kd = Extent \<and> method = X_READ then READ
     else if kd = Extent \<and> method = X_WRITE \<or> kd = Extent \<and> method = X_COMMIT then WRITE
     else if kd = Extent \<and> method = X_MAP then MAP
     else if kd = DeviceQueue \<and> method = DQ_INFO then READ
     else if kd = DeviceQueue \<and> method = DQ_MAP then MAP
     else if kd = DeviceQueue \<and> method = DQ_REPORT then WRITE
     else if kd = DeviceQueue \<and> method = DQ_SUBMIT then WRITE
     else rights_empty)"

definition dispatch_method ::
  "'d env \<Rightarrow> nat \<Rightarrow> ObjectKind \<Rightarrow> u64 \<Rightarrow> Rights \<Rightarrow> u16 \<Rightarrow> u64 \<Rightarrow> 'd kernel \<Rightarrow> (Status \<times> u64) \<times> 'd kernel" where
  "dispatch_method E d kd oid r method arg k =
    (if \<not> contains r (extra_right kd method) then ((ErrRights, 0), k)
     else if kd = Memory \<and> method = M_ALLOC then
       (case allocate_frame (frames k) of
          (Some frame, mm) \<Rightarrow> ((Ok, frame), k\<lparr>frames := mm\<rparr>)
        | (None, mm) \<Rightarrow> ((ErrRights, 0), k\<lparr>frames := mm\<rparr>))
     else if kd = Memory \<and> method = M_FREE then ((ErrMethod, 0), k)
     else if kd = Notification \<and> method = N_SIGNAL then
       ((Ok, 0), k\<lparr>caps := notify_signal oid arg (caps k)\<rparr>)
     else if kd = Notification \<and> method = N_POLL then
       (let (v, k) = on_caps (notify_take oid) k in ((Ok, v), k))
     else if kd = Extent \<and> method = X_READ then
       (let i = unat oid
        in ((Ok, if i < OBJECT_TABLE_SIZE then ext_hash (EXTENTS (caps k) ! i) else 0), k))
     else if kd = Extent \<and> method = X_MAP then extent_map E d oid k
     else if kd = DeviceQueue \<and> method = DQ_INFO then ((Ok, devqueue_qsize oid (caps k)), k)
     else if kd = DeviceQueue \<and> method = DQ_MAP then devqueue_map E d oid k
     else if kd = DeviceQueue \<and> method = DQ_REPORT then (devqueue_report oid arg (caps k), k)
     else if kd = DeviceQueue \<and> method = DQ_SUBMIT then devqueue_submit E oid arg k
     else ((ErrMethod, 0), k))"

definition cap_invoke_in :: "'d env \<Rightarrow> nat \<Rightarrow> u16 \<Rightarrow> u16 \<Rightarrow> u64 \<Rightarrow> 'd kernel \<Rightarrow> (Status \<times> u64) \<times> 'd kernel" where
  "cap_invoke_in E d cptr method arg k =
    (let d = min d (MAX_DOMAINS - 1)
     in case resolve d cptr method (caps k) of
         Inl st \<Rightarrow> ((st, 0), k)
       | Inr (kd, oid, r) \<Rightarrow> dispatch_method E d kd oid r method arg k)"

definition cap_invoke :: "'d env \<Rightarrow> u16 \<Rightarrow> u16 \<Rightarrow> u64 \<Rightarrow> 'd kernel \<Rightarrow> (Status \<times> u64) \<times> 'd kernel" where
  "cap_invoke E cptr method arg k = cap_invoke_in E (current_domain (caps k)) cptr method arg k"

definition demo_revoke_then_invoke :: "'d env \<Rightarrow> u16 \<Rightarrow> 'd kernel \<Rightarrow> Status \<times> 'd kernel" where
  "demo_revoke_then_invoke E cptr k =
    (case lookup (DOMAINS (caps k) ! 0) cptr (OBJECTS (caps k)) of
       Inl _ \<Rightarrow> (ErrBadCPtr, k)
     | Inr e \<Rightarrow>
         let (_, ot) = revoke (OBJECTS (caps k)) (object_id e);
             k = k\<lparr>caps := (caps k)\<lparr>OBJECTS := ot\<rparr>\<rparr>;
             ((st, _), k) = cap_invoke_in E 0 cptr M_ALLOC 0 k
         in (st, k))"

section \<open>Reaping\<close>

text \<open>The unmapping loop of \<^verbatim>\<open>reap_domain\<close>; the number is the count the code prints.\<close>

fun unmap_all :: "'d env \<Rightarrow> u64 list \<Rightarrow> mem \<Rightarrow> nat \<times> mem" where
  "unmap_all E [] m = (0, m)"
| "unmap_all E (va # vas) m =
    (let (ok, m) = unmap_page (cr3 E) (hhdm_offset E) va m;
         (n, m) = unmap_all E vas m
     in (if ok then n + 1 else n, m))"

definition scrub_endpoint :: "u16 \<Rightarrow> EpSlot \<Rightarrow> EpSlot" where
  "scrub_endpoint task_idx slot =
    (if ep_state slot \<noteq> Idle \<and> peer_task slot = task_idx then EP_EMPTY else slot)"

definition reap_domain :: "'d env \<Rightarrow> u16 \<Rightarrow> u16 \<Rightarrow> 'd kernel \<Rightarrow> 'd kernel" where
  "reap_domain E domain_id task_idx k =
    (let d = unat domain_id;
         c = caps k;
         c = (if d < MAX_DOMAINS then c\<lparr>DOMAINS := (DOMAINS c)[d := EMPTY_TABLE]\<rparr> else c);
         c = c\<lparr>ENDPOINTS := map (scrub_endpoint task_idx) (ENDPOINTS c)\<rparr>
     in if d < MAX_DOMAINS \<and> 0 < dm_count (DOMAIN_MAPS c ! d) then
          let dm = DOMAIN_MAPS c ! d;
              (_, m) = unmap_all E (map map_va (take (dm_count dm) (dm_entries dm))) (ram (mach k))
          in k\<lparr>caps := c\<lparr>DOMAIN_MAPS := (DOMAIN_MAPS c)[d := dm\<lparr>dm_count := 0\<rparr>]\<rparr>,
               mach := (mach k)\<lparr>ram := m\<rparr>\<rparr>
        else k\<lparr>caps := c\<rparr>)"

section \<open>What dispatch leaves alone\<close>

text \<open>
  A method changes payloads (notification words, the mapping ledger), the frame allocator, memory,
  devices and driver, and nothing else of the kernel: no capability, no object, no endpoint, no task.
\<close>

definition only_payload :: "'d kernel \<Rightarrow> 'd kernel \<Rightarrow> bool" where
  "only_payload k k' \<longleftrightarrow> (\<exists>n dm mm M v.
     k' = k\<lparr>caps := (caps k)\<lparr>NOTIFY := n, DOMAIN_MAPS := dm\<rparr>, frames := mm, mach := M, VBLK := v\<rparr>)"

lemma only_payloadI:
  "k' = k\<lparr>caps := (caps k)\<lparr>NOTIFY := n, DOMAIN_MAPS := dm\<rparr>, frames := mm, mach := M, VBLK := v\<rparr> \<Longrightarrow> only_payload k k'"
  unfolding only_payload_def by blast

lemma only_payload_refl [simp]: "only_payload k k"
  by (rule only_payloadI [where n = "NOTIFY (caps k)" and dm = "DOMAIN_MAPS (caps k)" and mm = "frames k"
        and M = "mach k" and v = "VBLK k"]) simp

lemma only_payload_trans:
  assumes "only_payload a b" "only_payload b c"
  shows "only_payload a c"
proof -
  obtain n dm mm M v where b: "b = a\<lparr>caps := (caps a)\<lparr>NOTIFY := n, DOMAIN_MAPS := dm\<rparr>, frames := mm, mach := M, VBLK := v\<rparr>"
    using assms(1) unfolding only_payload_def by blast
  obtain n' dm' mm' M' v' where "c = b\<lparr>caps := (caps b)\<lparr>NOTIFY := n', DOMAIN_MAPS := dm'\<rparr>, frames := mm', mach := M', VBLK := v'\<rparr>"
    using assms(2) unfolding only_payload_def by blast
  then show ?thesis unfolding b by (intro only_payloadI) simp
qed

lemma only_payload_sel:
  assumes "only_payload k k'"
  shows "SCHED k' = SCHED k" "OBJECTS (caps k') = OBJECTS (caps k)" "DOMAINS (caps k') = DOMAINS (caps k)"
    "ENDPOINTS (caps k') = ENDPOINTS (caps k)" "CURRENT_DOMAIN (caps k') = CURRENT_DOMAIN (caps k)"
    "PER_CPU k' = PER_CPU k" "tss_rsp0 k' = tss_rsp0 k" "kmem k' = kmem k" "TICKS k' = TICKS k"
    "TICK_NS k' = TICK_NS k" "FAULTER_RESTARTS k' = FAULTER_RESTARTS k"
proof -
  obtain n dm mm M v where "k' = k\<lparr>caps := (caps k)\<lparr>NOTIFY := n, DOMAIN_MAPS := dm\<rparr>, frames := mm, mach := M, VBLK := v\<rparr>"
    using assms unfolding only_payload_def by blast
  then show "SCHED k' = SCHED k" "OBJECTS (caps k') = OBJECTS (caps k)" "DOMAINS (caps k') = DOMAINS (caps k)"
    "ENDPOINTS (caps k') = ENDPOINTS (caps k)" "CURRENT_DOMAIN (caps k') = CURRENT_DOMAIN (caps k)"
    "PER_CPU k' = PER_CPU k" "tss_rsp0 k' = tss_rsp0 k" "kmem k' = kmem k" "TICKS k' = TICKS k"
    "TICK_NS k' = TICK_NS k" "FAULTER_RESTARTS k' = FAULTER_RESTARTS k"
    by simp_all
qed

lemma record_domain_map_eq:
  "record_domain_map d va s = s\<lparr>DOMAIN_MAPS := DOMAIN_MAPS (record_domain_map d va s)\<rparr>"
  by (simp add: record_domain_map_def Let_def)

lemma only_payload_record: "only_payload k (k\<lparr>caps := record_domain_map d va (caps k)\<rparr>)"
  by (rule only_payloadI [where n = "NOTIFY (caps k)" and dm = "DOMAIN_MAPS (record_domain_map d va (caps k))"
        and mm = "frames k" and M = "mach k" and v = "VBLK k"])
    (simp add: record_domain_map_def Let_def)

lemma kmap_payload:
  assumes "kmap_user_phys E va phys w x nc k = (ok, k')"
  shows "only_payload k k'" "caps k' = caps k"
proof -
  obtain m mm where "k' = k\<lparr>mach := (mach k)\<lparr>ram := m\<rparr>, frames := mm\<rparr>"
    using assms by (auto simp: kmap_user_phys_def Let_def split: prod.splits)
  then show "only_payload k k'" "caps k' = caps k"
    by (auto intro!: only_payloadI [where n = "NOTIFY (caps k)" and dm = "DOMAIN_MAPS (caps k)" and mm = mm
        and M = "(mach k)\<lparr>ram := m\<rparr>" and v = "VBLK k"])
qed

text \<open>Step invariants of dispatch: kept payload frame and well-formedness together.\<close>

definition payload_step :: "'d kernel \<Rightarrow> 'd kernel \<Rightarrow> bool" where
  "payload_step k k' \<longleftrightarrow> only_payload k k' \<and> (wf_capspace (caps k) \<longrightarrow> wf_capspace (caps k'))"

lemma payload_step_refl [simp]: "payload_step k k"
  by (simp add: payload_step_def)

lemma payload_step_trans: "payload_step a b \<Longrightarrow> payload_step b c \<Longrightarrow> payload_step a c"
  unfolding payload_step_def using only_payload_trans by blast

lemma payload_step_record: "payload_step k (k\<lparr>caps := record_domain_map d va (caps k)\<rparr>)"
  unfolding payload_step_def using only_payload_record wf_record_domain_map by auto

lemma payload_step_kmap: "kmap_user_phys E va phys w x nc k = (ok, k') \<Longrightarrow> payload_step k k'"
  using kmap_payload unfolding payload_step_def by metis

lemma payload_step_map_dq: "map_dq_pages E d ps k = (ok, k') \<Longrightarrow> payload_step k k'"
proof (induction ps arbitrary: k)
  case (Cons p ps)
  obtain va phys w nc where p: "p = (va, phys, w, nc)" by (cases p)
  obtain ok1 k1 where m: "kmap_user_phys E va phys w False nc k = (ok1, k1)" by (rule prod.exhaust)
  show ?case
  proof (cases ok1)
    case True
    then have "map_dq_pages E d ps (k1\<lparr>caps := record_domain_map d va (caps k1)\<rparr>) = (ok, k')"
      using Cons.prems p m by simp
    from Cons.IH [OF this] show ?thesis
      using payload_step_kmap [OF m] payload_step_record payload_step_trans by metis
  next
    case False
    then show ?thesis using Cons.prems p m payload_step_kmap [OF m] by simp
  qed
qed simp

lemma payload_step_extent_map: "extent_map E d oid k = (res, k') \<Longrightarrow> payload_step k k'"
proof -
  assume eq: "extent_map E d oid k = (res, k')"
  let ?frame = "data_frame_phys (EXTENTS (caps k) ! unat oid)"
  obtain ok k1 where m: "kmap_user_phys E EXTENT_MAP_BASE ?frame False False False k = (ok, k1)"
    by (rule prod.exhaust)
  have "k' = k \<or> k' = k1 \<or> k' = k1\<lparr>caps := record_domain_map d EXTENT_MAP_BASE (caps k1)\<rparr>"
    using eq m by (auto simp: extent_map_def Let_def split: if_splits bool.splits)
  then show ?thesis
    using payload_step_kmap [OF m] payload_step_record [of k1] payload_step_trans payload_step_refl by metis
qed

lemma payload_step_devqueue_map: "devqueue_map E d oid k = (res, k') \<Longrightarrow> payload_step k k'"
proof -
  assume eq: "devqueue_map E d oid k = (res, k')"
  obtain ok k1 where m: "map_dq_pages E d (dq_pages (DEVQUEUES (caps k) ! unat oid)) k = (ok, k1)"
    by (rule prod.exhaust)
  have "k' = k \<or> k' = k1"
    using eq m by (auto simp: devqueue_map_def Let_def split: if_splits bool.splits)
  then show ?thesis using payload_step_map_dq [OF m] by auto
qed

lemma payload_step_devqueue_submit: "devqueue_submit E oid lba k = (res, k') \<Longrightarrow> payload_step k k'"
proof -
  assume "devqueue_submit E oid lba k = (res, k')"
  then obtain M v where "k' = k \<or> k' = k\<lparr>mach := M, VBLK := v\<rparr>"
    by (auto simp: devqueue_submit_def Let_def split: if_splits prod.splits)
  then show ?thesis
    unfolding payload_step_def
    by (auto intro: only_payloadI [where n = "NOTIFY (caps k)" and dm = "DOMAIN_MAPS (caps k)" and mm = "frames k"
        and M = M and v = v])
qed

lemma payload_step_signal: "payload_step k (k\<lparr>caps := notify_signal oid b (caps k)\<rparr>)"
  unfolding payload_step_def
proof
  show "only_payload k (k\<lparr>caps := notify_signal oid b (caps k)\<rparr>)"
    by (rule only_payloadI [where n = "NOTIFY (notify_signal oid b (caps k))" and dm = "DOMAIN_MAPS (caps k)"
          and mm = "frames k" and M = "mach k" and v = "VBLK k"]) (simp add: notify_signal_def Let_def)
qed (simp add: wf_notify_signal)

lemma payload_step_take: "on_caps (notify_take oid) k = (v, k') \<Longrightarrow> payload_step k k'"
  unfolding payload_step_def
proof
  assume "on_caps (notify_take oid) k = (v, k')"
  then have k': "k' = k\<lparr>caps := snd (notify_take oid (caps k))\<rparr>"
    by (auto simp: on_caps_def Let_def split: prod.splits)
  show "only_payload k k'" unfolding k'
    by (rule only_payloadI [where n = "NOTIFY (snd (notify_take oid (caps k)))" and dm = "DOMAIN_MAPS (caps k)"
          and mm = "frames k" and M = "mach k" and v = "VBLK k"]) (simp add: notify_take_def Let_def)
  show "wf_capspace (caps k) \<longrightarrow> wf_capspace (caps k')" unfolding k' by (simp add: wf_notify_take)
qed

lemma payload_step_frames: "payload_step k (k\<lparr>frames := mm\<rparr>)"
  unfolding payload_step_def
  by (simp, rule only_payloadI [where n = "NOTIFY (caps k)" and dm = "DOMAIN_MAPS (caps k)" and mm = mm
        and M = "mach k" and v = "VBLK k"]) simp

lemma payload_step_if:
  "payload_step k (snd a) \<Longrightarrow> payload_step k (snd b) \<Longrightarrow> payload_step k (snd (if c then a else b))"
  by simp

lemma payload_step_alloc:
  "payload_step k (snd (case p of (Some frame, mm) \<Rightarrow> (f frame, k\<lparr>frames := mm\<rparr>) | (None, mm) \<Rightarrow> (g, k\<lparr>frames := mm\<rparr>)))"
  by (cases p; cases "fst p") (auto intro: payload_step_frames)

lemma payload_step_poll: "payload_step k (snd (let (v, k') = on_caps (notify_take oid) k in (f v, k')))"
  by (simp add: Let_def split: prod.split) (auto intro: payload_step_take)

lemmas payload_step_snds =
  payload_step_extent_map [OF prod.collapse [symmetric]]
  payload_step_devqueue_map [OF prod.collapse [symmetric]]
  payload_step_devqueue_submit [OF prod.collapse [symmetric]]

lemma payload_step_dispatch:
  assumes "dispatch_method E d kd oid r method arg k = (res, k')"
  shows "payload_step k k'"
proof -
  have "payload_step k (snd (dispatch_method E d kd oid r method arg k))"
    unfolding dispatch_method_def
    by (intro payload_step_if payload_step_alloc payload_step_poll payload_step_snds)
      (simp_all add: payload_step_signal Let_def)
  then show ?thesis using assms by simp
qed

lemma payload_step_invoke_in: "cap_invoke_in E d cptr method arg k = (res, k') \<Longrightarrow> payload_step k k'"
  by (auto simp: cap_invoke_in_def Let_def split: sum.splits prod.splits intro: payload_step_dispatch)

lemma payload_step_confined: "payload_step k k' \<Longrightarrow> confined (caps k) (caps k')"
  by (auto simp: payload_step_def dest: only_payload_sel intro: confined_same)

section \<open>Authority to invoke\<close>

definition authorised :: "capspace \<Rightarrow> nat \<Rightarrow> u16 \<Rightarrow> u16 \<Rightarrow> CapEntry \<Rightarrow> bool" where
  "authorised s d cptr method e \<longleftrightarrow>
     cap_at (DOMAINS s ! d) cptr = Some e \<and> valid_cap (OBJECTS s) e \<and>
     contains (rights e) INVOKE \<and> contains (rights e) (extra_right (type_tag e) method)"

lemma resolve_eq:
  "resolve d cptr method s =
    (case cap_at (DOMAINS s ! d) cptr of
       None \<Rightarrow> Inl ErrBadCPtr
     | Some e \<Rightarrow> if \<not> valid_cap (OBJECTS s) e then Inl (stale (OBJECTS s) e)
         else if \<not> contains (rights e) INVOKE then Inl ErrRights
         else Inr (type_tag e, object_id e, rights e))"
  by (auto simp: resolve_def invoke_eq lookup_eq Let_def split: option.split)

lemma resolve_Inl: "resolve d cptr method s = Inl st \<Longrightarrow> st \<noteq> Ok"
  by (auto simp: resolve_eq split: option.splits if_splits)

lemma cap_invoke_in_unauthorised:
  assumes "\<not> (\<exists>e. authorised (caps k) (min d (MAX_DOMAINS - 1)) cptr method e)"
  shows "\<exists>st. cap_invoke_in E d cptr method arg k = ((st, 0), k) \<and> st \<noteq> Ok"
proof (cases "resolve (min d (MAX_DOMAINS - 1)) cptr method (caps k)")
  case (Inl st)
  then show ?thesis using resolve_Inl by (simp add: cap_invoke_in_def Let_def)
next
  case (Inr p)
  then obtain e where e: "cap_at (DOMAINS (caps k) ! min d (MAX_DOMAINS - 1)) cptr = Some e"
      "valid_cap (OBJECTS (caps k)) e" "contains (rights e) INVOKE" "p = (type_tag e, object_id e, rights e)"
    by (auto simp: resolve_eq split: option.splits if_splits)
  with assms have "\<not> contains (rights e) (extra_right (type_tag e) method)" by (auto simp: authorised_def)
  then show ?thesis using Inr e(4) by (simp add: cap_invoke_in_def Let_def dispatch_method_def)
qed

section \<open>The mapping ledger\<close>

definition ledger :: "nat \<Rightarrow> capspace \<Rightarrow> u64 list" where
  "ledger d s = (let dm = DOMAIN_MAPS s ! d in map map_va (take (dm_count dm) (dm_entries dm)))"

lemma page_entry_page_id: "page_id va = page_id va' \<Longrightarrow> page_entry c va m = page_entry c va' m"
  using leaf_addr_page_id [of va va' c m] by (simp add: page_entry_leaf)

lemma ledger_record:
  assumes "wf_capspace s" "d < MAX_DOMAINS" "dm_count (DOMAIN_MAPS s ! d) < MAX_MAPS_PER_DOMAIN"
  shows "ledger d (record_domain_map d va s) = ledger d s @ [va]"
    "dm_count (DOMAIN_MAPS (record_domain_map d va s) ! d) = dm_count (DOMAIN_MAPS s ! d) + 1"
proof -
  have "length (DOMAIN_MAPS s) = MAX_DOMAINS" "length (dm_entries (DOMAIN_MAPS s ! d)) = MAX_MAPS_PER_DOMAIN"
    using wf_capspaceD(6,7) [OF assms(1)] assms(2) by (simp_all add: wf_maps_def)
  then show "ledger d (record_domain_map d va s) = ledger d s @ [va]"
    "dm_count (DOMAIN_MAPS (record_domain_map d va s) ! d) = dm_count (DOMAIN_MAPS s ! d) + 1"
    using assms(2,3) by (simp_all add: record_domain_map_def ledger_def Let_def take_Suc_conv_app_nth)
qed

lemma unmap_all_spec:
  assumes "4096 dvd unat (cr3 E)"
  shows "(\<forall>va \<in> set vas. page_entry (cr3 E) va (snd (unmap_all E vas m)) = None) \<and>
    (\<forall>va. page_entry (cr3 E) va (snd (unmap_all E vas m)) = page_entry (cr3 E) va m \<or>
       page_entry (cr3 E) va (snd (unmap_all E vas m)) = None)"
proof (induction vas arbitrary: m)
  case (Cons a vas)
  obtain ok m1 where u: "unmap_page (cr3 E) (hhdm_offset E) a m = (ok, m1)" by (rule prod.exhaust)
  have "snd (unmap_all E (a # vas) m) = snd (unmap_all E vas m1)"
    using u by (simp add: Let_def split: prod.split)
  moreover note unmap_page_spec [OF assms u] Cons.IH [of m1]
  ultimately show ?case by (metis set_ConsD)
qed simp

text \<open>What has been mapped since \<open>k\<close> is in the ledger of \<open>d\<close>.\<close>

definition covered :: "'d env \<Rightarrow> nat \<Rightarrow> 'd kernel \<Rightarrow> 'd kernel \<Rightarrow> bool" where
  "covered E d k k' \<longleftrightarrow> set (ledger d (caps k)) \<subseteq> set (ledger d (caps k')) \<and>
     (\<forall>va. page_entry (cr3 E) va (ram (mach k')) = page_entry (cr3 E) va (ram (mach k)) \<or>
        page_id va \<in> page_id ` set (ledger d (caps k')))"

lemma covered_refl [simp]: "covered E d k k"
  by (simp add: covered_def)

lemma covered_trans: "covered E d a b \<Longrightarrow> covered E d b c \<Longrightarrow> covered E d a c"
proof -
  assume ab: "covered E d a b" and bc: "covered E d b c"
  have sub: "set (ledger d (caps b)) \<subseteq> set (ledger d (caps c))" using bc by (simp add: covered_def)
  then have "page_id ` set (ledger d (caps b)) \<subseteq> page_id ` set (ledger d (caps c))" by (rule image_mono)
  then have "page_entry (cr3 E) va (ram (mach c)) = page_entry (cr3 E) va (ram (mach a)) \<or>
      page_id va \<in> page_id ` set (ledger d (caps c))" for va
    using ab [unfolded covered_def, THEN conjunct2, rule_format, of va]
      bc [unfolded covered_def, THEN conjunct2, rule_format, of va] by auto
  moreover have "set (ledger d (caps a)) \<subseteq> set (ledger d (caps b))" using ab by (simp only: covered_def)
  ultimately show ?thesis using sub by (simp add: covered_def)
qed

abbreviation mapper_ok :: "'d env \<Rightarrow> (vm \<Rightarrow> bool) \<Rightarrow> 'd kernel \<Rightarrow> bool" where
  "mapper_ok E ok k \<equiv> page_mapper (pt_mapper E) (cr3 E) (hhdm_offset E) ok \<and> ok (ram (mach k), frames k)"

lemma kmap_covered:
  assumes "mapper_ok E ok k" "kmap_user_phys E va phys w x nc k = (b, k')"
    and "wf_capspace (caps k)" "d < MAX_DOMAINS" "dm_count (DOMAIN_MAPS (caps k) ! d) < MAX_MAPS_PER_DOMAIN"
  shows "mapper_ok E ok k'" "caps k' = caps k" "\<not> b \<Longrightarrow> covered E d k k'"
    "covered E d k (k'\<lparr>caps := record_domain_map d va (caps k')\<rparr>)"
proof -
  obtain m mm where m: "map_user_phys (pt_mapper E) (cr3 E) (hhdm_offset E) va phys w x nc (ram (mach k), frames k) = (b, (m, mm))"
    and k': "k' = k\<lparr>mach := (mach k)\<lparr>ram := m\<rparr>, frames := mm\<rparr>"
    using assms(2) by (auto simp: kmap_user_phys_def Let_def split: prod.splits)
  have pm: "page_mapper (pt_mapper E) (cr3 E) (hhdm_offset E) ok" and ok: "ok (ram (mach k), frames k)"
    using assms(1) by auto
  show "caps k' = caps k" by (simp add: k')
  show "mapper_ok E ok k'" using pm page_mapper.map_user_phys_ok [OF pm ok m] by (simp add: k')
  have other: "page_entry (cr3 E) va' m = page_entry (cr3 E) va' (ram (mach k))"
    if "\<not> b \<or> page_id va' \<noteq> page_id va" for va'
    using page_mapper.map_user_phys_other [OF pm ok m that] by simp
  then show "\<not> b \<Longrightarrow> covered E d k k'" by (simp add: covered_def k')
  show "covered E d k (k'\<lparr>caps := record_domain_map d va (caps k')\<rparr>)"
    using other ledger_record(1) [OF assms(3-5), of va] by (auto simp: covered_def k')
qed

lemma map_dq_covered:
  assumes "mapper_ok E ok k" "map_dq_pages E d ps k = (b, k')" "wf_capspace (caps k)" "d < MAX_DOMAINS"
    and "dm_count (DOMAIN_MAPS (caps k) ! d) + length ps \<le> MAX_MAPS_PER_DOMAIN"
  shows "covered E d k k'"
  using assms
proof (induction ps arbitrary: k)
  case (Cons p ps)
  obtain va phys w nc where p: "p = (va, phys, w, nc)" by (cases p)
  obtain b1 k1 where m: "kmap_user_phys E va phys w False nc k = (b1, k1)" by (rule prod.exhaust)
  have lt: "dm_count (DOMAIN_MAPS (caps k) ! d) < MAX_MAPS_PER_DOMAIN" using Cons.prems(5) by simp
  note step = kmap_covered [OF Cons.prems(1) m Cons.prems(3,4) lt]
  show ?case
  proof (cases b1)
    case True
    let ?k = "k1\<lparr>caps := record_domain_map d va (caps k1)\<rparr>"
    have "map_dq_pages E d ps ?k = (b, k')" using Cons.prems(2) p m True by simp
    moreover have "mapper_ok E ok ?k" using step(1) by simp
    moreover have "wf_capspace (caps ?k)" using Cons.prems(3) step(2) by (simp add: wf_record_domain_map)
    moreover have "dm_count (DOMAIN_MAPS (caps ?k) ! d) + length ps \<le> MAX_MAPS_PER_DOMAIN"
      using Cons.prems(5) ledger_record(2) [OF Cons.prems(3,4) lt] step(2) by simp
    ultimately have "covered E d ?k k'" using Cons.IH Cons.prems(4) by blast
    then show ?thesis using step(4) covered_trans by blast
  next
    case False
    then show ?thesis using Cons.prems(2) p m step(3) by simp
  qed
qed simp

lemma devqueue_map_covered:
  assumes "mapper_ok E ok k" "wf_capspace (caps k)" "d < MAX_DOMAINS"
    and "dm_count (DOMAIN_MAPS (caps k) ! d) + 5 \<le> MAX_MAPS_PER_DOMAIN"
  shows "covered E d k (snd (devqueue_map E d oid k))" "covered E d k (snd (extent_map E d oid k))"
proof -
  let ?m = "DEVQUEUES (caps k) ! unat oid"
  obtain b k1 where m: "map_dq_pages E d (dq_pages ?m) k = (b, k1)" by (rule prod.exhaust)
  have "length (dq_pages ?m) = 5" by (simp add: dq_pages_def)
  then have "covered E d k k1" using map_dq_covered [OF assms(1) m assms(2,3)] assms(4) by simp
  moreover have "snd (devqueue_map E d oid k) \<in> {k, k1}"
    using m by (auto simp: devqueue_map_def Let_def split: bool.splits)
  ultimately show "covered E d k (snd (devqueue_map E d oid k))" by auto
  let ?f = "data_frame_phys (EXTENTS (caps k) ! unat oid)"
  obtain b k2 where e: "kmap_user_phys E EXTENT_MAP_BASE ?f False False False k = (b, k2)" by (rule prod.exhaust)
  have lt: "dm_count (DOMAIN_MAPS (caps k) ! d) < MAX_MAPS_PER_DOMAIN" using assms(4) by simp
  note step = kmap_covered [OF assms(1) e assms(2,3) lt]
  show "covered E d k (snd (extent_map E d oid k))"
    using step(3,4) e by (cases b) (auto simp: extent_map_def Let_def)
qed

section \<open>Reaping closes everything\<close>

lemma reap_domain_spec:
  fixes E :: "'d env" and t :: u16
  assumes "wf_capspace (caps k)" "d < MAX_DOMAINS" "4096 dvd unat (cr3 E)"
  defines "k' \<equiv> reap_domain E (of_nat d) t k"
  shows "DOMAINS (caps k') = (DOMAINS (caps k))[d := EMPTY_TABLE]" "OBJECTS (caps k') = OBJECTS (caps k)"
    "ENDPOINTS (caps k') = map (scrub_endpoint t) (ENDPOINTS (caps k))"
    "\<And>va. va \<in> set (ledger d (caps k)) \<Longrightarrow> page_entry (cr3 E) va (ram (mach k')) = None"
    "\<And>va. page_entry (cr3 E) va (ram (mach k')) = page_entry (cr3 E) va (ram (mach k)) \<or>
       page_entry (cr3 E) va (ram (mach k')) = None"
    "ledger d (caps k') = []"
proof -
  have d: "unat (of_nat d :: u16) = d" using assms(2) by (simp add: const_defs unat_of_nat)
  let ?dm = "DOMAIN_MAPS (caps k) ! d"
  have len: "length (DOMAIN_MAPS (caps k)) = MAX_DOMAINS" by (rule wf_capspaceD(6) [OF assms(1)])
  show "DOMAINS (caps k') = (DOMAINS (caps k))[d := EMPTY_TABLE]" "OBJECTS (caps k') = OBJECTS (caps k)"
    "ENDPOINTS (caps k') = map (scrub_endpoint t) (ENDPOINTS (caps k))"
    using assms(2) d by (simp_all add: k'_def reap_domain_def Let_def case_prod_beta)
  have ram: "ram (mach k') = (if 0 < dm_count ?dm then snd (unmap_all E (ledger d (caps k)) (ram (mach k))) else ram (mach k))"
    using assms(2) d by (simp add: k'_def reap_domain_def ledger_def Let_def case_prod_beta)
  show "page_entry (cr3 E) va (ram (mach k')) = None" if "va \<in> set (ledger d (caps k))" for va
    using that unmap_all_spec [OF assms(3), of "ledger d (caps k)" "ram (mach k)"]
    by (auto simp: ram ledger_def Let_def)
  show "page_entry (cr3 E) va (ram (mach k')) = page_entry (cr3 E) va (ram (mach k)) \<or>
       page_entry (cr3 E) va (ram (mach k')) = None" for va
    using unmap_all_spec [OF assms(3), of "ledger d (caps k)" "ram (mach k)"] by (simp add: ram)
  show "ledger d (caps k') = []"
    using assms(2) d len by (auto simp: k'_def reap_domain_def ledger_def Let_def case_prod_beta)
qed

lemma reap_covered:
  assumes "covered E d k k'" "wf_capspace (caps k')" "d < MAX_DOMAINS" "4096 dvd unat (cr3 E)"
    and "page_entry (cr3 E) va (ram (mach k)) = None"
  shows "page_entry (cr3 E) va (ram (mach (reap_domain E (of_nat d) t k'))) = None"
proof (cases "page_id va \<in> page_id ` set (ledger d (caps k'))")
  case True
  then obtain va' where "va' \<in> set (ledger d (caps k'))" "page_id va = page_id va'" by auto
  then show ?thesis using reap_domain_spec(4) [OF assms(2-4)] page_entry_page_id by metis
next
  case False
  then have "page_entry (cr3 E) va (ram (mach k')) = None" using assms(1,5) unfolding covered_def by metis
  then show ?thesis using reap_domain_spec(5) [OF assms(2-4), of va t] by auto
qed

section \<open>A concrete kernel\<close>

text \<open>
  No devices, the page tables \<open>demo_tables\<close>, the tasks of \<open>demo_sched\<close> and the capabilities of
  \<open>demo_capspace\<close>.
\<close>

definition plain_bus :: "unit bus" where
  "plain_bus = \<lparr>is_mmio = (\<lambda>_. False), mmio_read = (\<lambda>_ _ d. (0, d)), mmio_write = (\<lambda>_ _ _ s. s),
     spin_loop = id, port_read = (\<lambda>_ _ d. (0, d)), port_write = (\<lambda>_ _ _ d. d)\<rparr>"

definition demo_env :: "unit env" where
  "demo_env = \<lparr>host = (plain_bus, 0xffff800000000000), pt_mapper = leaf_mapper, cr3 = 0x1000,
     task_stacks = 0xffffffff80100000, stack_top = 0xffffffff80200000\<rparr>"

definition demo_kernel :: "unit kernel" where
  "demo_kernel = \<lparr>caps = demo_capspace, frames = demo_memory, mach = \<lparr>ram = demo_tables, devs = ()\<rparr>,
     VBLK = VBLK_initial, SCHED = demo_sched, kmem = (\<lambda>_. 0), TICKS = 0, TICK_NS = 1000000, LAPIC_VIRT = 0,
     PER_CPU = \<lparr>kernel_rsp0 = 0x1000, user_rsp_scratch = 0, reply_cptr = 0\<rparr>, tss_rsp0 = 0x1000,
     FAULTER_ENTRY = 0, FAULTER_STACK_TOP = 0, FAULTER_RESTARTS = 0\<rparr>"

lemma demo_mapper: "mapper_ok demo_env (\<lambda>s. tables_ok 0x1000 (fst s)) demo_kernel"
  using lm.page_mapper_axioms [of "0x1000" "hhdm_offset demo_env"] demo_tables_ok
  by (simp add: demo_env_def demo_kernel_def)

lemma demo_ledger: "dm_count (DOMAIN_MAPS demo_capspace ! 1) = 0"
  by (simp add: demo_capspace_def capspace_initial_def DM_EMPTY_def const_defs)

lemma demo_page_entry: "page_entry 0x1000 va demo_tables = None"
  by (simp add: page_entry_def demo_walk demo_entry)

section \<open>Properties\<close>







end
