(* ===== verification/ContextSwitch.thy ===== *)
theory ContextSwitch
  imports Machine
begin

text \<open>
  The assembly of the kernel: the timer interrupt (\<^verbatim>\<open>timer_isr\<close>), the blocking switch
  (\<^verbatim>\<open>block_and_switch\<close>), the abandoning switch (\<^verbatim>\<open>jump_to_task\<close>) of \<^verbatim>\<open>sched.rs\<close>, and the system call
  entry (\<^verbatim>\<open>syscall_entry\<close>) of \<^verbatim>\<open>syscall.rs\<close>, as lists of the instructions the sources write, run on a
  processor with the sixteen general registers, the instruction pointer, the flags, two segment
  selectors, the two GS bases and memory. The Rust function an assembly routine calls is the
  parameter \<open>f\<close>; what the routines need of it is the calling convention \<open>sysv\<close>.
\<close>

section \<open>Processor\<close>

datatype reg = RAX | RBX | RCX | RDX | RSI | RDI | RBP | RSP | R8 | R9 | R10 | R11 | R12 | R13 | R14 | R15

record cpu =
  regs :: "reg \<Rightarrow> u64"
  rip :: u64
  rflags :: u64
  cs :: u64
  ss :: u64
  gs_base :: u64
  kernel_gs_base :: u64
  cmem :: mem

datatype instr =
    Push reg
  | PushImm u64
  | PushGs u64
  | Pop reg
  | Mov reg reg
  | MovToGs u64 reg
  | MovFromGs reg u64
  | MovToMem reg reg
  | AddImm reg u64
  | AndImm reg u64
  | Xor32 reg
  | Lea reg u64
  | Call
  | Swapgs
  | Ret
  | Iretq
  | Sysretq

definition set_reg :: "reg \<Rightarrow> u64 \<Rightarrow> cpu \<Rightarrow> cpu" where
  "set_reg r v c = c\<lparr>regs := (regs c)(r := v)\<rparr>"

definition push :: "u64 \<Rightarrow> cpu \<Rightarrow> cpu" where
  "push v c = (let p = regs c RSP - 8 in (set_reg RSP p c)\<lparr>cmem := store64 p v (cmem c)\<rparr>)"

definition pop :: "cpu \<Rightarrow> u64 \<times> cpu" where
  "pop c = (let p = regs c RSP in (load64 (cmem c) p, set_reg RSP (p + 8) c))"

text \<open>
  Selectors of the global descriptor table, in the order \<^verbatim>\<open>gdt.rs\<close> appends the segments; \<^verbatim>\<open>sysretq\<close>
  loads the user selectors that \<^verbatim>\<open>syscall::init\<close> puts into the STAR register.
\<close>

definition kernel_selectors :: "u16 \<times> u16" where "kernel_selectors = (0x08, 0x10)"
definition user_selectors :: "u16 \<times> u16" where "user_selectors = (0x20 OR 3, 0x18 OR 3)"

fun step :: "(cpu \<Rightarrow> cpu) \<Rightarrow> instr \<Rightarrow> cpu \<Rightarrow> cpu" where
  "step f (Push r) c = push (regs c r) c"
| "step f (PushImm v) c = push v c"
| "step f (PushGs off) c = push (load64 (cmem c) (gs_base c + off)) c"
| "step f (Pop r) c = (let (v, c) = pop c in set_reg r v c)"
| "step f (Mov r q) c = set_reg r (regs c q) c"
| "step f (MovToGs off r) c = c\<lparr>cmem := store64 (gs_base c + off) (regs c r) (cmem c)\<rparr>"
| "step f (MovFromGs r off) c = set_reg r (load64 (cmem c) (gs_base c + off)) c"
| "step f (MovToMem q r) c = c\<lparr>cmem := store64 (regs c q) (regs c r) (cmem c)\<rparr>"
| "step f (AddImm r v) c = set_reg r (regs c r + v) c"
| "step f (AndImm r v) c = set_reg r (regs c r AND v) c"
| "step f (Xor32 r) c = set_reg r 0 c"
| "step f (Lea r a) c = set_reg r a c"
| "step f Call c = f c"
| "step f Swapgs c = c\<lparr>gs_base := kernel_gs_base c, kernel_gs_base := gs_base c\<rparr>"
| "step f Ret c = (let (v, c) = pop c in c\<lparr>rip := v\<rparr>)"
| "step f Iretq c =
    (let (ip, c) = pop c; (seg, c) = pop c; (fl, c) = pop c; (sp, c) = pop c; (st, c) = pop c
     in (set_reg RSP sp c)\<lparr>rip := ip, cs := seg, rflags := fl, ss := st\<rparr>)"
| "step f Sysretq c =
    c\<lparr>rip := regs c RCX, rflags := regs c R11,
      cs := ucast (fst user_selectors), ss := ucast (snd user_selectors)\<rparr>"

definition exec :: "(cpu \<Rightarrow> cpu) \<Rightarrow> instr list \<Rightarrow> cpu \<Rightarrow> cpu" where
  "exec f is c = fold (step f) is c"

text \<open>
  What the processor does when an interrupt is taken: choose the stack (the TSS entry when
  coming from ring 3, else the current one, aligned to 16), push the frame, mask interrupts.
\<close>

definition interrupt :: "u64 \<Rightarrow> u64 \<Rightarrow> cpu \<Rightarrow> cpu" where
  "interrupt ksp handler c =
    (let sp = (if cs c AND 3 = 3 then ksp else regs c RSP AND NOT 0xf);
         c1 = set_reg RSP sp c;
         c1 = push (ss c) c1; c1 = push (regs c RSP) c1; c1 = push (rflags c) c1;
         c1 = push (cs c) c1; c1 = push (rip c) c1
     in c1\<lparr>rip := handler, rflags := rflags c AND NOT 0x200,
          cs := ucast (fst kernel_selectors), ss := (if cs c AND 3 = 3 then 0 else ss c)\<rparr>)"

text \<open>The \<^verbatim>\<open>syscall\<close> instruction, with the mask \<^verbatim>\<open>syscall::init\<close> programs: IF, DF, TF, AC and NT.\<close>

definition SFMASK :: u64 where "SFMASK = 0x200 OR 0x400 OR 0x100 OR 0x40000 OR 0x4000"

definition syscall_instr :: "u64 \<Rightarrow> cpu \<Rightarrow> cpu" where
  "syscall_instr entry c =
    (set_reg R11 (rflags c) (set_reg RCX (rip c) c))
      \<lparr>rip := entry, rflags := rflags c AND NOT SFMASK,
       cs := ucast (fst kernel_selectors), ss := ucast (snd kernel_selectors)\<rparr>"

section \<open>The routines\<close>

definition saved_regs :: "reg list" where
  "saved_regs = [RAX, RBX, RCX, RDX, RSI, RDI, RBP, R8, R9, R10, R11, R12, R13, R14, R15]"

definition save_regs :: "instr list" where
  "save_regs = [Push RAX, Push RBX, Push RCX, Push RDX, Push RSI, Push RDI, Push RBP, Push R8, Push R9,
     Push R10, Push R11, Push R12, Push R13, Push R14, Push R15]"

definition restore_tail :: "instr list" where
  "restore_tail = [Pop R15, Pop R14, Pop R13, Pop R12, Pop R11, Pop R10, Pop R9, Pop R8, Pop RBP, Pop RDI,
     Pop RSI, Pop RDX, Pop RCX, Pop RBX, Pop RAX, Iretq]"

definition timer_isr :: "instr list" where
  "timer_isr = save_regs @ [Mov RDI RSP, AndImm RSP (- 16), Call, Mov RSP RAX] @ restore_tail"

text \<open>\<open>resume_point\<close> is the address of the label 2.\<close>

definition block_and_switch :: "u64 \<Rightarrow> instr list" where
  "block_and_switch resume_point =
    [Mov RAX RSP, PushImm 0x10, Push RAX, PushImm 0x2, PushImm 0x8, Lea RAX resume_point, Push RAX] @
    save_regs @ [MovToMem RDI RSP, Swapgs, Mov RSP RSI] @ restore_tail"

definition block_resume :: "instr list" where
  "block_resume = [Swapgs, Ret]"

definition jump_to_task :: "instr list" where
  "jump_to_task = Mov RSP RDI # restore_tail"

definition syscall_prologue :: "instr list" where
  "syscall_prologue =
    [Swapgs, MovToGs 8 RSP, MovFromGs RSP 0, PushGs 8, Push R11, Push RCX, Push R9,
     Mov R9 R8, Mov R8 R10, Mov RCX RDX, Mov RDX RSI, Mov RSI RDI, Mov RDI RAX]"

definition syscall_epilogue :: "instr list" where
  "syscall_epilogue =
    [AddImm RSP 8, Mov RSI RDX, MovFromGs RDX 16, Pop RCX, Pop R11, Pop RDI,
     Xor32 R8, Xor32 R9, Xor32 R10, Mov RSP RDI, Xor32 RDI, Swapgs, Sysretq]"

definition syscall_entry :: "instr list" where
  "syscall_entry = syscall_prologue @ [Call] @ syscall_epilogue"

section \<open>Words on the stack\<close>

text \<open>The words \<open>vs\<close> lie at \<open>p\<close>, in order of increasing address.\<close>

fun words_at :: "mem \<Rightarrow> u64 \<Rightarrow> u64 list \<Rightarrow> bool" where
  "words_at m p [] \<longleftrightarrow> True"
| "words_at m p (v # vs) \<longleftrightarrow> load64 m p = v \<and> words_at m (p + 8) vs"

text \<open>The region of \<open>n\<close> words at \<open>p\<close>.\<close>

definition words :: "u64 \<Rightarrow> nat \<Rightarrow> u64 set" where
  "words p n = span p (8 * n)"

lemma span_add: "span p (a + b) = span p a \<union> span (p + of_nat a) b"
proof -
  have "{..<a + b} = {..<a} \<union> (+) a ` {..<b}"
    using image_add_atLeastLessThan [of a 0 b] by (auto simp: lessThan_atLeast0 add.commute)
  then show ?thesis by (simp add: span_def image_Un image_image add.assoc)
qed

lemma words_add: "words p (a + b) = words p a \<union> words (p + 8 * of_nat a) b"
  using span_add [of p "8 * a" "8 * b"] by (simp add: words_def distrib_left)

lemma words_Suc: "words p (Suc n) = span p 8 \<union> words (p + 8) n"
  using words_add [of p 1 n] by (simp add: words_def)

lemma words_snoc: "words p (Suc n) = words p n \<union> span (p + 8 * of_nat n) 8"
  using words_add [of p n 1] by (simp add: words_def)

lemma words_at_cong: "(\<And>x. x \<in> words p (length vs) \<Longrightarrow> m' x = m x) \<Longrightarrow> words_at m' p vs = words_at m p vs"
proof (induction vs arbitrary: p)
  case (Cons v vs)
  have "load64 m' p = load64 m p"
    unfolding load64_def by (rule arg_cong [where f = le_word], rule read_mem_cong)
      (simp add: Cons.prems words_Suc)
  moreover have "words_at m' (p + 8) vs = words_at m (p + 8) vs"
    by (rule Cons.IH) (simp add: Cons.prems words_Suc)
  ultimately show ?case by simp
qed simp

lemma store64_outside: "x \<notin> span a 8 \<Longrightarrow> store64 a v m x = m x"
  by (simp add: store64_def)

lemma words_at_store: "span a 8 \<inter> words p (length vs) = {} \<Longrightarrow> words_at (store64 a v m) p vs = words_at m p vs"
  by (rule words_at_cong) (metis disjoint_iff store64_outside)

lemma span_below:
  assumes "8 * n < 2 ^ 64 - 8"
  shows "span (p - 8) 8 \<inter> words p n = {}"
  using span_offsets_disjoint [of 0 8 8 "8 * n" "p - 8"] assms by (simp add: words_def)

lemma words_at_push:
  assumes "words_at m p vs" "8 * length vs < 2 ^ 64 - 8"
  shows "words_at (store64 (p - 8) v m) (p - 8) (v # vs)"
  using assms span_below [OF assms(2), of p] by (simp add: load_store64_same words_at_store)

lemma words_at_append: "words_at m p (us @ vs) \<longleftrightarrow> words_at m p us \<and> words_at m (p + 8 * of_nat (length us)) vs"
  by (induction us arbitrary: p) (auto simp: algebra_simps)

section \<open>Runs of instructions\<close>

lemma exec_Nil [simp]: "exec f [] c = c"
  by (simp add: exec_def)

lemma exec_Cons [simp]: "exec f (i # is) c = exec f is (step f i c)"
  by (simp add: exec_def)

lemma exec_append [simp]: "exec f (is @ js) c = exec f js (exec f is c)"
  by (simp add: exec_def)

lemma set_reg_simps [simp]:
  "regs (set_reg r v c) = (regs c)(r := v)" "rip (set_reg r v c) = rip c" "rflags (set_reg r v c) = rflags c"
  "cs (set_reg r v c) = cs c" "ss (set_reg r v c) = ss c" "gs_base (set_reg r v c) = gs_base c"
  "kernel_gs_base (set_reg r v c) = kernel_gs_base c" "cmem (set_reg r v c) = cmem c"
  by (simp_all add: set_reg_def)

lemma push_simps [simp]:
  "regs (push v c) = (regs c)(RSP := regs c RSP - 8)" "rip (push v c) = rip c" "rflags (push v c) = rflags c"
  "cs (push v c) = cs c" "ss (push v c) = ss c" "gs_base (push v c) = gs_base c"
  "kernel_gs_base (push v c) = kernel_gs_base c" "cmem (push v c) = store64 (regs c RSP - 8) v (cmem c)"
  by (simp_all add: push_def Let_def)

lemma exec_pushes:
  assumes "RSP \<notin> set rs" "words_at (cmem c) (regs c RSP) vs" "8 * (length rs + length vs) < 2 ^ 64 - 8"
  shows "\<exists>m. exec f (map Push rs) c = c\<lparr>regs := (regs c)(RSP := regs c RSP - 8 * of_nat (length rs)), cmem := m\<rparr> \<and>
    words_at m (regs c RSP - 8 * of_nat (length rs)) (rev (map (regs c) rs) @ vs) \<and>
    (\<forall>x. x \<notin> words (regs c RSP - 8 * of_nat (length rs)) (length rs) \<longrightarrow> m x = cmem c x)"
  using assms
proof (induction rs arbitrary: c vs)
  case Nil
  then show ?case by (auto intro!: exI [of _ "cmem c"])
next
  case (Cons r rs)
  let ?c = "push (regs c r) c" and ?p = "regs c RSP - 8 - 8 * of_nat (length rs)"
  have p: "regs c RSP - 8 * of_nat (length (r # rs)) = ?p" by (simp add: algebra_simps)
  have w: "words_at (cmem ?c) (regs ?c RSP) (regs c r # vs)"
    using words_at_push [OF Cons.prems(2)] Cons.prems(3) by simp
  have eq: "map (regs ?c) rs = map (regs c) rs" using Cons.prems(1) by auto
  obtain m where
    m: "exec f (map Push rs) ?c = ?c\<lparr>regs := (regs ?c)(RSP := ?p), cmem := m\<rparr>"
    "words_at m ?p (rev (map (regs c) rs) @ regs c r # vs)"
    "\<forall>x. x \<notin> words ?p (length rs) \<longrightarrow> m x = cmem ?c x"
    using Cons.IH [OF _ w] Cons.prems(1,3) unfolding eq by (auto simp del: fun_upd_apply simp: fun_upd_same)
  have out: "m x = cmem c x" if "x \<notin> words ?p (length (r # rs))" for x
    using m(3) that by (auto simp: store64_outside words_snoc)
  have upd: "?c\<lparr>regs := (regs ?c)(RSP := ?p), cmem := m\<rparr> = c\<lparr>regs := (regs c)(RSP := ?p), cmem := m\<rparr>"
    by (simp add: push_def Let_def set_reg_def)
  show ?case
    unfolding p using m(1,2) out upd by (intro exI [of _ m] conjI) (simp_all del: fun_upd_apply)
qed

lemma exec_pops:
  assumes "RSP \<notin> set rs" "distinct rs" "words_at (cmem c) (regs c RSP) (map g rs @ vs)"
  shows "exec f (map Pop rs) c =
      c\<lparr>regs := (\<lambda>r. if r \<in> set rs then g r else regs c r)(RSP := regs c RSP + 8 * of_nat (length rs))\<rparr>"
    and "words_at (cmem c) (regs c RSP + 8 * of_nat (length rs)) vs"
proof -
  show "words_at (cmem c) (regs c RSP + 8 * of_nat (length rs)) vs"
    using assms(3) by (simp add: words_at_append)
  show "exec f (map Pop rs) c =
      c\<lparr>regs := (\<lambda>r. if r \<in> set rs then g r else regs c r)(RSP := regs c RSP + 8 * of_nat (length rs))\<rparr>"
    using assms
  proof (induction rs arbitrary: c)
    case (Cons r rs)
    let ?c = "set_reg r (g r) (set_reg RSP (regs c RSP + 8) c)"
    have "step f (Pop r) c = ?c" using Cons.prems(3) by (simp add: pop_def Let_def)
    moreover have "exec f (map Pop rs) ?c = ?c\<lparr>regs :=
        (\<lambda>q. if q \<in> set rs then g q else regs ?c q)(RSP := regs ?c RSP + 8 * of_nat (length rs))\<rparr>"
      using Cons.prems by (intro Cons.IH) auto
    moreover have "?c\<lparr>regs := (\<lambda>q. if q \<in> set rs then g q else regs ?c q)(RSP := regs ?c RSP + 8 * of_nat (length rs))\<rparr> =
        c\<lparr>regs := (\<lambda>q. if q \<in> set (r # rs) then g q else regs c q)
          (RSP := regs c RSP + 8 * of_nat (length (r # rs)))\<rparr>"
      using Cons.prems by (auto simp: set_reg_def fun_eq_iff algebra_simps intro!: cpu.equality)
    ultimately show ?case by (simp only: list.map exec_Cons)
  qed simp
qed

section \<open>Saved contexts\<close>

text \<open>
  The frame of twenty words by which a context is saved, the one layout that \<^verbatim>\<open>timer_isr\<close>,
  \<^verbatim>\<open>block_and_switch\<close> and \<^verbatim>\<open>build_task_frame_inner\<close> must agree on.
\<close>

definition iret_frame :: "cpu \<Rightarrow> u64 list" where
  "iret_frame c = [rip c, cs c, rflags c, regs c RSP, ss c]"

definition saved_context :: "mem \<Rightarrow> u64 \<Rightarrow> cpu \<Rightarrow> bool" where
  "saved_context m p c \<longleftrightarrow> words_at m p (map (regs c) (rev saved_regs) @ iret_frame c)"

definition same_context :: "cpu \<Rightarrow> cpu \<Rightarrow> bool" where
  "same_context c d \<longleftrightarrow> regs c = regs d \<and> rip c = rip d \<and> rflags c = rflags d \<and> cs c = cs d \<and> ss c = ss d"

lemma save_regs_eq: "save_regs = map Push saved_regs"
  by (simp add: save_regs_def saved_regs_def)

lemma restore_tail_eq: "restore_tail = map Pop (rev saved_regs) @ [Iretq]"
  by (simp add: restore_tail_def saved_regs_def)

lemma saved_regs_all: "set saved_regs = - {RSP}" "length saved_regs = 15" "distinct saved_regs"
proof -
  have "r \<in> set saved_regs \<longleftrightarrow> r \<noteq> RSP" for r by (cases r) (simp_all add: saved_regs_def)
  then show "set saved_regs = - {RSP}" by auto
qed (simp_all add: saved_regs_def)

lemma saved_context_cong:
  "(\<And>x. x \<in> words p 20 \<Longrightarrow> m' x = m x) \<Longrightarrow> saved_context m' p c = saved_context m p c"
  unfolding saved_context_def by (rule words_at_cong) (simp add: saved_regs_all iret_frame_def)

lemma exec_restore_tail:
  assumes "saved_context (cmem c) (regs c RSP) b"
  shows "exec f restore_tail c = c\<lparr>regs := regs b, rip := rip b, rflags := rflags b, cs := cs b, ss := ss b\<rparr>"
proof -
  let ?r = "(\<lambda>r. if r \<in> set (rev saved_regs) then regs b r else regs c r)
      (RSP := regs c RSP + 8 * of_nat (length (rev saved_regs)))"
  have "exec f (map Pop (rev saved_regs)) c = c\<lparr>regs := ?r\<rparr>"
    and w: "words_at (cmem c) (regs c RSP + 8 * of_nat (length (rev saved_regs))) (iret_frame b)"
    using exec_pops [of "rev saved_regs" c "regs b" "iret_frame b"] assms
    by (simp_all add: saved_regs_all saved_context_def)
  moreover have "step f Iretq (c\<lparr>regs := ?r\<rparr>) =
      c\<lparr>regs := regs b, rip := rip b, rflags := rflags b, cs := cs b, ss := ss b\<rparr>"
    using w by (intro cpu.equality)
      (auto simp: pop_def Let_def iret_frame_def set_reg_def saved_regs_all fun_eq_iff add.assoc)
  ultimately show ?thesis by (simp add: restore_tail_eq del: step.simps)
qed

lemma push_words:
  "words_at (cmem c) (regs c RSP) vs \<Longrightarrow> length vs < 1000 \<Longrightarrow>
     words_at (cmem (push v c)) (regs (push v c) RSP) (v # vs)"
  using words_at_push [of "cmem c" "regs c RSP" vs v] by simp

lemma exec_save_regs:
  assumes "words_at (cmem c) (regs c RSP) (iret_frame a)" "\<And>r. r \<noteq> RSP \<Longrightarrow> regs c r = regs a r"
  shows "\<exists>m. exec f save_regs c = c\<lparr>regs := (regs c)(RSP := regs c RSP - 120), cmem := m\<rparr> \<and>
    saved_context m (regs c RSP - 120) a \<and> (\<forall>x. x \<notin> words (regs c RSP - 120) 15 \<longrightarrow> m x = cmem c x)"
proof -
  have eq: "rev (map (regs c) saved_regs) = map (regs a) (rev saved_regs)"
    unfolding rev_map using assms(2) saved_regs_all by (intro map_cong) auto
  have "length (iret_frame a) = 5" by (simp add: iret_frame_def)
  then show ?thesis
    using exec_pushes [of saved_regs c "iret_frame a" f] assms(1) unfolding eq
    by (simp add: saved_regs_all save_regs_eq saved_context_def)
qed

lemma interrupt_frame:
  fixes ksp handler :: u64 and a :: cpu
  defines "c \<equiv> interrupt ksp handler a"
  shows "words_at (cmem c) (regs c RSP) (iret_frame a)" "r \<noteq> RSP \<Longrightarrow> regs c r = regs a r"
    "gs_base c = gs_base a" "kernel_gs_base c = kernel_gs_base a"
proof -
  let ?b = "set_reg RSP (if cs a AND 3 = 3 then ksp else regs a RSP AND NOT 0xf) a"
  let ?c = "push (rip a) (push (cs a) (push (rflags a) (push (regs a RSP) (push (ss a) ?b))))"
  have "words_at (cmem ?c) (regs ?c RSP) (iret_frame a)"
    unfolding iret_frame_def by (intro push_words) simp_all
  moreover have "cmem c = cmem ?c" "regs c = regs ?c" "gs_base c = gs_base a" "kernel_gs_base c = kernel_gs_base a"
    by (simp_all add: c_def interrupt_def Let_def)
  ultimately show "words_at (cmem c) (regs c RSP) (iret_frame a)" "r \<noteq> RSP \<Longrightarrow> regs c r = regs a r"
    "gs_base c = gs_base a" "kernel_gs_base c = kernel_gs_base a"
    by simp_all
qed

section \<open>The calling convention\<close>

text \<open>
  \<open>f\<close>, called in state \<open>c\<close>, keeps the callee-saved registers, the stack pointer, the GS bases and the
  \<open>n\<close> words of its caller's stack that start \<open>i\<close> words above the stack pointer.
\<close>

definition sysv :: "(cpu \<Rightarrow> cpu) \<Rightarrow> cpu \<Rightarrow> nat \<Rightarrow> nat \<Rightarrow> bool" where
  "sysv f c i n \<longleftrightarrow>
     (\<forall>r \<in> {RBX, RBP, RSP, R12, R13, R14, R15}. regs (f c) r = regs c r) \<and>
     gs_base (f c) = gs_base c \<and> kernel_gs_base (f c) = kernel_gs_base c \<and>
     (\<forall>x \<in> words (regs c RSP + 8 * of_nat i) n. cmem (f c) x = cmem c x)"

lemma align16: "p AND - 16 = p - (p AND 15)" "unat (p AND 15) < 16" for p :: u64
proof -
  have "(15 :: u64) = mask 4" by (simp add: mask_eq_exp_minus_1)
  then have eq: "p AND 15 = take_bit 4 p" by (simp add: take_bit_eq_mask)
  have "p - take_bit 4 p = p AND NOT (take_bit 4 p)"
    by (rule disjunctive_diff) (simp add: bit_simps)
  also have "\<dots> = p AND NOT (mask 4)"
    by (rule bit_word_eqI) (auto simp: bit_simps)
  also have "NOT (mask 4) = (- 16 :: u64)" by (simp add: mask_eq_exp_minus_1)
  finally show "p AND - 16 = p - (p AND 15)" using eq by simp
  have "unat (take_bit 4 p) = take_bit 4 (unat p)" by (simp add: unsigned_take_bit_eq)
  then show "unat (p AND 15) < 16" using eq take_bit_nat_less_exp [of 4 "unat p"] by simp
qed

lemma words_aligned: "words p 20 \<subseteq> words (p AND - 16) 22"
proof -
  have "span ((p AND - 16) + (p AND 15)) 160 \<subseteq> span (p AND - 16) 176"
    using align16(2) [of p] by (intro span_offset) simp
  then show ?thesis by (simp add: words_def align16(1))
qed

section \<open>The timer interrupt\<close>

definition timer_save :: "instr list" where
  "timer_save = save_regs @ [Mov RDI RSP, AndImm RSP (- 16)]"

lemma exec_timer_save:
  fixes ksp handler :: u64 and a :: cpu
  defines "c \<equiv> interrupt ksp handler a"
  shows "\<exists>m. let p = regs c RSP - 120 in
    exec f timer_save c = c\<lparr>regs := (regs c)(RSP := p AND - 16, RDI := p), cmem := m\<rparr> \<and> saved_context m p a"
proof -
  obtain m where m: "exec f save_regs c = c\<lparr>regs := (regs c)(RSP := regs c RSP - 120), cmem := m\<rparr>"
    "saved_context m (regs c RSP - 120) a"
    using exec_save_regs [of c a f] interrupt_frame(1,2) [where a = a and ksp = ksp and handler = handler]
    unfolding c_def by blast
  have "exec f timer_save c =
      c\<lparr>regs := (regs c)(RSP := (regs c RSP - 120) AND - 16, RDI := regs c RSP - 120), cmem := m\<rparr>"
    by (intro cpu.equality) (simp_all add: timer_save_def m(1) fun_eq_iff)
  then show ?thesis using m(2) by (auto simp: Let_def)
qed

lemma exec_timer_isr: "exec f timer_isr c = exec f (Mov RSP RAX # restore_tail) (f (exec f timer_save c))"
  by (simp add: timer_isr_def timer_save_def)

lemma timer_isr_switch:
  fixes ksp handler :: u64 and a :: cpu and f :: "cpu \<Rightarrow> cpu"
  defines "c0 \<equiv> interrupt ksp handler a"
  defines "c1 \<equiv> exec f timer_save c0"
  assumes abi: "sysv f c1 0 22" and b: "saved_context (cmem (f c1)) (regs (f c1) RAX) b"
  shows "same_context (exec f timer_isr c0) b" "cmem (exec f timer_isr c0) = cmem (f c1)"
    "gs_base (exec f timer_isr c0) = gs_base a" "kernel_gs_base (exec f timer_isr c0) = kernel_gs_base a"
    "saved_context (cmem (f c1)) (regs c1 RDI) a" "regs c1 RSP AND 15 = 0"
proof -
  obtain m where m: "c1 = c0\<lparr>regs := (regs c0)(RSP := (regs c0 RSP - 120) AND - 16, RDI := regs c0 RSP - 120), cmem := m\<rparr>"
    "saved_context m (regs c0 RSP - 120) a"
    using exec_timer_save [where f = f and ksp = ksp and handler = handler and a = a] unfolding c0_def c1_def by (auto simp: Let_def)
  have eq: "exec f timer_isr c0 =
      (set_reg RSP (regs (f c1) RAX) (f c1))\<lparr>regs := regs b, rip := rip b, rflags := rflags b, cs := cs b, ss := ss b\<rparr>"
    unfolding exec_timer_isr exec_Cons step.simps c1_def [symmetric]
    by (rule exec_restore_tail) (use b in simp)
  have gs: "gs_base c1 = gs_base a" "kernel_gs_base c1 = kernel_gs_base a"
    by (simp_all add: m(1) c0_def interrupt_frame)
  show "same_context (exec f timer_isr c0) b" "cmem (exec f timer_isr c0) = cmem (f c1)"
    "gs_base (exec f timer_isr c0) = gs_base a" "kernel_gs_base (exec f timer_isr c0) = kernel_gs_base a"
    using abi by (simp_all add: eq same_context_def sysv_def gs)
  have "cmem (f c1) x = cmem c1 x" if "x \<in> words (regs c0 RSP - 120) 20" for x
    using abi that words_aligned [of "regs c0 RSP - 120"] by (auto simp: sysv_def m(1))
  then show "saved_context (cmem (f c1)) (regs c1 RDI) a"
    using m(2) saved_context_cong [of "regs c0 RSP - 120" "cmem (f c1)" "cmem c1" a] by (simp add: m(1))
  show "regs c1 RSP AND 15 = 0" by (simp add: m(1) and.assoc)
qed

section \<open>The blocking switch\<close>

text \<open>The context \<^verbatim>\<open>block_and_switch\<close> saves: interrupts off, in the kernel, about to execute label 2.\<close>

definition resume_context :: "u64 \<Rightarrow> cpu \<Rightarrow> cpu" where
  "resume_context resume_point a =
    (set_reg RAX resume_point a)\<lparr>rip := resume_point, rflags := 2, cs := 0x8, ss := 0x10\<rparr>"

definition block_save :: "u64 \<Rightarrow> instr list" where
  "block_save resume_point =
    [Mov RAX RSP, PushImm 0x10, Push RAX, PushImm 0x2, PushImm 0x8, Lea RAX resume_point, Push RAX] @ save_regs"

lemma words_at_single: "words_at m p [load64 m p]"
  by simp

lemma exec_block_save:
  fixes a :: cpu
  defines "p \<equiv> regs a RSP - 160"
  shows "\<exists>m. exec f (block_save rp) a = a\<lparr>regs := (regs a)(RSP := p, RAX := rp), cmem := m\<rparr> \<and>
    saved_context m p (resume_context rp a) \<and> (\<forall>x. x \<notin> words p 20 \<longrightarrow> m x = cmem a x)"
proof -
  let ?b = "set_reg RAX (regs a RSP) a"
  let ?c = "push rp (set_reg RAX rp (push 0x8 (push 0x2 (push (regs a RSP) (push 0x10 ?b)))))"
  have set_words: "words_at (cmem (set_reg RAX v c)) (regs (set_reg RAX v c) RSP) vs"
    if "words_at (cmem c) (regs c RSP) vs" for v c vs
    using that by simp
  have "words_at (cmem ?c) (regs ?c RSP) [rp, 0x8, 0x2, regs a RSP, 0x10]"
    by (intro push_words set_words) simp_all
  then have w: "words_at (cmem ?c) (regs ?c RSP) (iret_frame (resume_context rp a))"
    by (simp add: iret_frame_def resume_context_def)
  obtain m where m: "exec f save_regs ?c = ?c\<lparr>regs := (regs ?c)(RSP := regs ?c RSP - 120), cmem := m\<rparr>"
    "saved_context m (regs ?c RSP - 120) (resume_context rp a)"
    "\<forall>x. x \<notin> words (regs ?c RSP - 120) 15 \<longrightarrow> m x = cmem ?c x"
    using exec_save_regs [OF w, of f] by (auto simp: resume_context_def)
  have p: "regs ?c RSP - 120 = p" by (simp add: p_def)
  have "exec f (block_save rp) a = exec f save_regs ?c" by (simp add: block_save_def)
  also have "\<dots> = a\<lparr>regs := (regs a)(RSP := p, RAX := rp), cmem := m\<rparr>"
    unfolding m(1) p by (intro cpu.equality) (auto simp: fun_eq_iff)
  finally have "exec f (block_save rp) a = a\<lparr>regs := (regs a)(RSP := p, RAX := rp), cmem := m\<rparr>" .
  moreover have "m x = cmem a x" if "x \<notin> words p 20" for x
  proof -
    have "words p 20 = words p 15 \<union> words (p + 120) 5" using words_add [of p 15 5] by simp
    then have "x \<notin> words p 15" "x \<notin> words (p + 120) 5" using that by auto
    moreover have "words (p + 120) 5 = span (p + 120) 8 \<union> span (p + 128) 8 \<union> span (p + 136) 8 \<union>
        span (p + 144) 8 \<union> span (p + 152) 8"
      by (simp add: words_Suc numeral_eq_Suc add.assoc) (simp add: words_def Un_assoc)
    ultimately show ?thesis
      using m(3) unfolding p by (auto simp: store64_outside p_def)
  qed
  ultimately show ?thesis using m(2) unfolding p by blast
qed

lemma exec_block_and_switch:
  "exec f (block_and_switch rp) a =
    exec f ([MovToMem RDI RSP, Swapgs, Mov RSP RSI] @ restore_tail) (exec f (block_save rp) a)"
  by (simp add: block_and_switch_def block_save_def)

lemma block_switch:
  fixes a :: cpu and rp :: u64 and f :: "cpu \<Rightarrow> cpu"
  defines "p \<equiv> regs a RSP - 160"
  defines "d \<equiv> exec f (block_and_switch rp) a"
  assumes b: "saved_context (cmem a) (regs a RSI) b"
    and disj: "words p 20 \<inter> words (regs a RSI) 20 = {}" "span (regs a RDI) 8 \<inter> words (regs a RSI) 20 = {}"
      "span (regs a RDI) 8 \<inter> words p 21 = {}"
  shows "same_context d b" "gs_base d = kernel_gs_base a" "kernel_gs_base d = gs_base a"
    "load64 (cmem d) (regs a RDI) = p" "saved_context (cmem d) p (resume_context rp a)"
    "load64 (cmem d) (p + 160) = load64 (cmem a) (p + 160)"
proof -
  obtain m where m: "exec f (block_save rp) a = a\<lparr>regs := (regs a)(RSP := p, RAX := rp), cmem := m\<rparr>"
    "saved_context m p (resume_context rp a)" "\<forall>x. x \<notin> words p 20 \<longrightarrow> m x = cmem a x"
    using exec_block_save [where f = f and rp = rp and a = a] unfolding p_def by blast
  let ?m = "store64 (regs a RDI) p m"
  let ?c = "a\<lparr>regs := (regs a)(RSP := regs a RSI, RAX := rp), cmem := ?m,
      gs_base := kernel_gs_base a, kernel_gs_base := gs_base a\<rparr>"
  have "exec f [MovToMem RDI RSP, Swapgs, Mov RSP RSI] (exec f (block_save rp) a) = ?c"
    unfolding m(1) by (intro cpu.equality) (simp_all add: fun_eq_iff)
  then have "d = exec f restore_tail ?c"
    unfolding d_def exec_block_and_switch exec_append by (rule arg_cong)
  moreover have at_b: "saved_context ?m (regs a RSI) b"
  proof -
    have "?m x = cmem a x" if "x \<in> words (regs a RSI) 20" for x
      using m(3) disj(1,2) that store64_outside [of x "regs a RDI"] by (metis disjoint_iff)
    then show ?thesis using b saved_context_cong by blast
  qed
  ultimately have d: "d = ?c\<lparr>regs := regs b, rip := rip b, rflags := rflags b, cs := cs b, ss := ss b\<rparr>"
    using exec_restore_tail [of ?c b f] by simp
  have keep: "?m x = m x" if "x \<in> words p 21" for x
    using disj(3) that store64_outside [of x "regs a RDI"] by (metis disjoint_iff)
  have w: "words p 21 = words p 20 \<union> span (p + 160) 8" using words_add [of p 20 1] by (simp add: words_def)
  have "span (p + 160) 8 \<inter> words p 20 = {}"
    using span_offsets_disjoint [of 0 160 160 8 p] by (auto simp: words_def)
  then have "?m x = cmem a x" if "x \<in> span (p + 160) 8" for x
  proof -
    have "x \<notin> words p 20" "x \<in> words p 21" using that w \<open>span (p + 160) 8 \<inter> words p 20 = {}\<close> by auto
    then show ?thesis using keep m(3) by simp
  qed
  then show "load64 (cmem d) (p + 160) = load64 (cmem a) (p + 160)"
    by (simp add: d load64_def) (metis read_mem_cong)
  show "saved_context (cmem d) p (resume_context rp a)"
    using m(2) keep w saved_context_cong [of p ?m m] by (simp add: d)
  show "same_context d b" "gs_base d = kernel_gs_base a" "kernel_gs_base d = gs_base a"
    "load64 (cmem d) (regs a RDI) = p"
    by (simp_all add: d same_context_def load_store64_same)
qed

lemma block_resumes:
  fixes f :: "cpu \<Rightarrow> cpu"
  assumes "saved_context (cmem e) (regs e RSP) (resume_context rp a)"
  defines "g \<equiv> exec f restore_tail e"
  shows "rip g = rp" "exec f block_resume g = g\<lparr>rip := load64 (cmem e) (regs a RSP),
      regs := (regs a)(RAX := rp, RSP := regs a RSP + 8),
      gs_base := kernel_gs_base e, kernel_gs_base := gs_base e\<rparr>"
    "rflags g = 2" "cs g = 8"
proof -
  have g: "g = e\<lparr>regs := (regs a)(RAX := rp), rip := rp, rflags := 2, cs := 8, ss := 0x10\<rparr>"
    unfolding g_def exec_restore_tail [OF assms(1)] by (simp add: resume_context_def)
  show "rip g = rp" "rflags g = 2" "cs g = 8" by (simp_all add: g)
  show "exec f block_resume g = g\<lparr>rip := load64 (cmem e) (regs a RSP),
      regs := (regs a)(RAX := rp, RSP := regs a RSP + 8),
      gs_base := kernel_gs_base e, kernel_gs_base := gs_base e\<rparr>"
    by (simp add: g block_resume_def pop_def Let_def set_reg_def)
qed

section \<open>The system call entry\<close>

lemma exec_syscall_prologue:
  fixes u :: cpu and entry :: u64 and f :: "cpu \<Rightarrow> cpu"
  defines "pc \<equiv> kernel_gs_base u"
  defines "k \<equiv> load64 (cmem u) pc"
  defines "c \<equiv> exec f syscall_prologue (syscall_instr entry u)"
  assumes "span pc 24 \<inter> words (k - 32) 4 = {}"
  shows "regs c = (regs u)(RSP := k - 32, RDI := regs u RAX, RSI := regs u RDI, RDX := regs u RSI,
      RCX := regs u RDX, R8 := regs u R10, R9 := regs u R8, R11 := rflags u)"
    "words_at (cmem c) (k - 32) [regs u R9, rip u, rflags u, regs u RSP]"
    "gs_base c = pc" "kernel_gs_base c = gs_base u" "load64 (cmem c) pc = k"
    "rflags c = rflags u AND NOT SFMASK"
proof -
  let ?m = "store64 (pc + 8) (regs u RSP) (cmem u)"
  let ?b = "(set_reg RSP k (syscall_instr entry u))\<lparr>gs_base := pc, kernel_gs_base := gs_base u, cmem := ?m\<rparr>"
  let ?c = "push (regs u R9) (push (rip u) (push (rflags u) (push (regs u RSP) ?b)))"
  have d8: "span pc 8 \<inter> span (pc + 8) 8 = {}"
    using span_offsets_disjoint [of 0 8 8 8 pc] by simp
  have k: "load64 ?m pc = k" using d8 by (simp add: load_store64_other k_def)
  have scratch: "load64 ?m (pc + 8) = regs u RSP" by (simp add: load_store64_same)
  have c: "c = exec f [Mov R9 R8, Mov R8 R10, Mov RCX RDX, Mov RDX RSI, Mov RSI RDI, Mov RDI RAX] ?c"
    unfolding c_def syscall_prologue_def
    by (simp add: syscall_instr_def set_reg_def k scratch pc_def [symmetric] fun_upd_twist)
  show "regs c = (regs u)(RSP := k - 32, RDI := regs u RAX, RSI := regs u RDI, RDX := regs u RSI,
      RCX := regs u RDX, R8 := regs u R10, R9 := regs u R8, R11 := rflags u)"
    "gs_base c = pc" "kernel_gs_base c = gs_base u" "rflags c = rflags u AND NOT SFMASK"
    unfolding c by (auto simp: syscall_instr_def fun_eq_iff)
  have "words_at (cmem ?c) (regs ?c RSP) [regs u R9, rip u, rflags u, regs u RSP]"
    by (intro push_words) simp_all
  then show "words_at (cmem c) (k - 32) [regs u R9, rip u, rflags u, regs u RSP]" unfolding c by simp
  have "cmem c x = ?m x" if "x \<in> span pc 8" for x
  proof -
    have "span pc 8 \<subseteq> span pc 24" by (rule span_prefix) simp
    then have "x \<notin> words (k - 32) 4" using assms(4) that by blast
    moreover have "words (k - 32) 4 = span (k - 32) 8 \<union> span (k - 24) 8 \<union> span (k - 16) 8 \<union> span (k - 8) 8"
      by (simp add: words_Suc numeral_eq_Suc) (simp add: words_def Un_assoc)
    ultimately show ?thesis unfolding c by (simp add: store64_outside)
  qed
  then show "load64 (cmem c) pc = k" using k by (simp add: load64_def) (metis read_mem_cong)
qed

section \<open>Concrete states\<close>

definition blank_cpu :: cpu where
  "blank_cpu = \<lparr>regs = (\<lambda>_. 0), rip = 0, rflags = 0, cs = 0, ss = 0, gs_base = 0, kernel_gs_base = 0, cmem = (\<lambda>_. 0)\<rparr>"

text \<open>A ring-3 task in the middle of its code.\<close>

definition user_cpu :: cpu where
  "user_cpu = blank_cpu\<lparr>regs := (\<lambda>_. 0)(RAX := 1, RDI := 5, RBX := 42, RSP := 0x7ff0), rip := 0x400010,
     rflags := 0x202, cs := 0x23, ss := 0x1b, kernel_gs_base := 0x1000, cmem := store64 0x1000 0x9000 (\<lambda>_. 0)\<rparr>"

lemma load64_blank [simp]: "load64 (\<lambda>_. 0) a = 0"
proof -
  have "read_mem (\<lambda>_. 0) a n = replicate n 0" for n by (induction n arbitrary: a) simp_all
  moreover have "le_word (replicate n 0) = (0 :: u64)" for n by (induction n) simp_all
  ultimately show ?thesis by (simp add: load64_def)
qed

lemma words_at_blank: "words_at (\<lambda>_. 0) p vs \<longleftrightarrow> set vs \<subseteq> {0}"
  by (induction vs arbitrary: p) auto

lemma saved_context_blank: "saved_context (\<lambda>_. 0) p blank_cpu"
  by (auto simp: saved_context_def words_at_blank blank_cpu_def iret_frame_def)

lemma words_disjoint:
  "unat p + 8 * n \<le> unat q \<Longrightarrow> unat q + 8 * k \<le> 2 ^ 64 \<Longrightarrow> words p n \<inter> words q k = {}"
  using span_offsets_disjoint [of p "8 * n" q "8 * k" 0] by (simp add: words_def)

lemma span_words: "span p 8 = words p 1"
  by (simp add: words_def)

section \<open>Properties\<close>

text \<open>
  C13: preemption is transparent. Let the timer interrupt a context \<open>a\<close>. \<^verbatim>\<open>timer_isr\<close> calls the
  scheduler with a 16-byte aligned stack and the pointer to a frame that holds all of \<open>a\<close>; if the
  scheduler keeps the calling convention and returns the frame of a saved context \<open>b\<close>, the processor
  continues exactly in \<open>b\<close>, with the GS bases of before. Whenever the restoring code later runs on
  the frame of \<open>a\<close>, its twenty words being intact, the processor continues exactly in \<open>a\<close>: every
  general register, stack and instruction pointer, flags and segments.
\<close>

theorem preemption_is_transparent:
  fixes f :: "cpu \<Rightarrow> cpu" and ksp handler :: u64 and a :: cpu
  defines "c \<equiv> exec f timer_save (interrupt ksp handler a)"
  defines "d \<equiv> exec f timer_isr (interrupt ksp handler a)"
  assumes "sysv f c 0 22" and "saved_context (cmem (f c)) (regs (f c) RAX) b"
  shows "same_context d b \<and> gs_base d = gs_base a \<and> kernel_gs_base d = kernel_gs_base a \<and>
     regs c RSP AND 15 = 0 \<and>
     (\<forall>e. regs e RSP = regs c RDI \<longrightarrow> (\<forall>x \<in> words (regs c RDI) 20. cmem e x = cmem d x) \<longrightarrow>
        same_context (exec f restore_tail e) a)"
proof (intro conjI allI impI)
  note sw = timer_isr_switch [OF assms(3,4) [unfolded c_def], folded c_def d_def]
  show "same_context d b" "gs_base d = gs_base a" "kernel_gs_base d = kernel_gs_base a" "regs c RSP AND 15 = 0"
    by (rule sw)+
  fix e :: cpu assume e: "regs e RSP = regs c RDI" "\<forall>x \<in> words (regs c RDI) 20. cmem e x = cmem d x"
  then have "saved_context (cmem e) (regs e RSP) a"
    using sw(2,5) saved_context_cong [of "regs c RDI" "cmem e" "cmem d" a] by simp
  then show "same_context (exec f restore_tail e) a"
    by (simp add: exec_restore_tail same_context_def)
qed

theorem preemption_is_transparent_witness:
  "same_context (exec (\<lambda>c. set_reg RAX (regs c RDI) c) timer_isr (interrupt 0x9000 0x100 user_cpu)) user_cpu"
proof -
  let ?f = "\<lambda>c. set_reg RAX (regs c RDI) c" and ?c = "interrupt 0x9000 0x100 user_cpu"
  obtain m where m: "exec ?f timer_save ?c =
      ?c\<lparr>regs := (regs ?c)(RSP := (regs ?c RSP - 120) AND - 16, RDI := regs ?c RSP - 120), cmem := m\<rparr>"
    "saved_context m (regs ?c RSP - 120) user_cpu"
    using exec_timer_save [where f = ?f and ksp = "0x9000" and handler = "0x100" and a = user_cpu] by (auto simp: Let_def)
  have "sysv ?f (exec ?f timer_save ?c) 0 22" by (simp add: sysv_def)
  moreover have "saved_context (cmem (?f (exec ?f timer_save ?c))) (regs (?f (exec ?f timer_save ?c)) RAX) user_cpu"
    unfolding m(1) using m(2) by simp
  ultimately show ?thesis
    using preemption_is_transparent [where f = ?f and ksp = "0x9000" and handler = "0x100" and a = user_cpu and b = user_cpu]
    by blast
qed

text \<open>
  C17: blocking inside a system call is a call that returns later. \<^verbatim>\<open>block_and_switch\<close>, entered with
  the save slot in \<open>rdi\<close> and a saved context \<open>b\<close> in \<open>rsi\<close>, stores the pointer of the frame it built
  into the slot and continues exactly in \<open>b\<close> with the user GS base active. When a restore later runs
  on that frame, the frame and the return address being intact, the processor is at the resume
  point in the kernel with interrupts off; the code there swaps the GS bases once more and returns
  to the caller with its stack pointer and callee-saved registers unchanged.
\<close>

theorem blocked_call_returns:
  fixes f :: "cpu \<Rightarrow> cpu" and rp :: u64 and a :: cpu
  defines "p \<equiv> regs a RSP - 160" and "d \<equiv> exec f (block_and_switch rp) a"
  assumes "saved_context (cmem a) (regs a RSI) b" and "words p 20 \<inter> words (regs a RSI) 20 = {}"
    and "span (regs a RDI) 8 \<inter> words (regs a RSI) 20 = {}" and "span (regs a RDI) 8 \<inter> words p 21 = {}"
  shows "same_context d b \<and> load64 (cmem d) (regs a RDI) = p \<and>
     gs_base d = kernel_gs_base a \<and> kernel_gs_base d = gs_base a \<and>
     (\<forall>e. regs e RSP = p \<longrightarrow> (\<forall>x \<in> words p 21. cmem e x = cmem d x) \<longrightarrow>
       (let r = exec f restore_tail e; g = exec f block_resume r
        in rip r = rp \<and> rflags r = 2 \<and> cs r = 8 \<and>
           rip g = load64 (cmem a) (regs a RSP) \<and> regs g = (regs a)(RAX := rp, RSP := regs a RSP + 8) \<and>
           gs_base g = kernel_gs_base e \<and> kernel_gs_base g = gs_base e))"
proof (intro conjI allI impI)
  note sw = block_switch [where f = f and rp = rp, OF assms(3-6) [unfolded p_def], folded p_def d_def]
  show "same_context d b" "load64 (cmem d) (regs a RDI) = p" "gs_base d = kernel_gs_base a" "kernel_gs_base d = gs_base a"
    using sw by simp_all
  fix e :: cpu assume e: "regs e RSP = p" "\<forall>x \<in> words p 21. cmem e x = cmem d x"
  have w: "words p 21 = words p 20 \<union> span (p + 160) 8" using words_add [of p 20 1] by (simp add: words_def)
  have "saved_context (cmem e) p (resume_context rp a) = saved_context (cmem d) p (resume_context rp a)"
    by (rule saved_context_cong) (use e(2) w in simp)
  then have ctx: "saved_context (cmem e) (regs e RSP) (resume_context rp a)" using sw(5) e(1) by simp
  have "read_mem (cmem e) (p + 160) 8 = read_mem (cmem d) (p + 160) 8"
    by (rule read_mem_cong) (use e(2) w in simp)
  then have ret: "load64 (cmem e) (regs a RSP) = load64 (cmem a) (regs a RSP)"
    using sw(6) by (simp add: load64_def p_def)
  note r = block_resumes [OF ctx, of f]
  show "let r = exec f restore_tail e; g = exec f block_resume r
        in rip r = rp \<and> rflags r = 2 \<and> cs r = 8 \<and>
           rip g = load64 (cmem a) (regs a RSP) \<and> regs g = (regs a)(RAX := rp, RSP := regs a RSP + 8) \<and>
           gs_base g = kernel_gs_base e \<and> kernel_gs_base g = gs_base e"
    unfolding Let_def r(2) ret using r(1,3,4) by simp
qed

theorem blocked_call_returns_witness:
  "same_context (exec id (block_and_switch 0x500)
     (blank_cpu\<lparr>regs := (\<lambda>_. 0)(RSP := 0x9000, RDI := 0x1000, RSI := 0x2000)\<rparr>)) blank_cpu"
proof -
  have "words (0x9000 - 160) 20 \<inter> words 0x2000 20 = {}" "words 0x1000 1 \<inter> words 0x2000 20 = {}"
    "words 0x1000 1 \<inter> words (0x9000 - 160) 21 = {}"
    using words_disjoint [of "0x2000" 20 "0x9000 - 160" 20] words_disjoint [of "0x1000" 1 "0x2000" 20]
      words_disjoint [of "0x1000" 1 "0x9000 - 160" 21] by (simp_all add: Int_commute)
  moreover have "cmem blank_cpu = (\<lambda>_. 0)" by (simp add: blank_cpu_def)
  ultimately show ?thesis
    using blocked_call_returns [where f = id and rp = "0x500" and b = blank_cpu
        and a = "blank_cpu\<lparr>regs := (\<lambda>_. 0)(RSP := 0x9000, RDI := 0x1000, RSI := 0x2000)\<rparr>"]
      saved_context_blank [of "0x2000"] by (simp add: span_words)
qed

text \<open>
  C16: the system call protocol. From a user state \<open>u\<close> about to return from \<^verbatim>\<open>syscall\<close>, the entry code
  calls the dispatcher on the kernel stack of the per-CPU block, interrupts masked and kernel GS
  active, with number, CPtr, method and arguments in the argument registers and the transfer CPtr in
  the seventh argument slot. If the dispatcher keeps the calling convention, the code returns to
  ring 3 at the user's instruction, flags and stack, with the user's GS, where exactly the documented
  registers have changed: status, reply and reply CPtr, and \<open>rcx\<close>, \<open>r11\<close>, \<open>rdi\<close>, \<open>r8\<close>, \<open>r9\<close>, \<open>r10\<close>, which hold
  the user's own values or zero: no kernel value reaches the user.
\<close>

theorem syscall_protocol:
  fixes u :: cpu and f :: "cpu \<Rightarrow> cpu" and entry :: u64
  defines "pc \<equiv> kernel_gs_base u" and "k \<equiv> load64 (cmem u) (kernel_gs_base u)"
  defines "c \<equiv> exec f syscall_prologue (syscall_instr entry u)"
  defines "d \<equiv> exec f syscall_entry (syscall_instr entry u)"
  assumes "span pc 24 \<inter> words (k - 32) 4 = {}" and "sysv f c 1 3"
  shows "regs c RDI = regs u RAX \<and> regs c RSI = regs u RDI \<and> regs c RDX = regs u RSI \<and>
      regs c RCX = regs u RDX \<and> regs c R8 = regs u R10 \<and> regs c R9 = regs u R8 \<and>
      load64 (cmem c) (regs c RSP) = regs u R9 \<and> regs c RSP = k - 32 \<and> gs_base c = pc \<and>
      rflags c AND 0x200 = 0 \<and>
    regs d = (regs u)(RAX := regs (f c) RAX, RSI := regs (f c) RDX, RDX := load64 (cmem (f c)) (pc + 16),
      RCX := rip u, R11 := rflags u, RDI := 0, R8 := 0, R9 := 0, R10 := 0) \<and>
    rip d = rip u \<and> rflags d = rflags u \<and> cs d = 0x23 \<and> ss d = 0x1b \<and>
    gs_base d = gs_base u \<and> kernel_gs_base d = kernel_gs_base u"
proof -
  note pro = exec_syscall_prologue [where u = u and f = f and entry = entry, folded pc_def k_def c_def,
      OF assms(5)]
  have keep: "regs (f c) r = regs c r" if "r \<in> {RBX, RBP, RSP, R12, R13, R14, R15}" for r
    using assms(6) that unfolding sysv_def by blast
  have "words_at (cmem (f c)) (k - 24) [rip u, rflags u, regs u RSP] = words_at (cmem c) (k - 24) [rip u, rflags u, regs u RSP]"
    by (rule words_at_cong) (use assms(6) in \<open>simp add: sysv_def pro(1) eval_nat_numeral\<close>)
  moreover have "words_at (cmem c) (k - 24) [rip u, rflags u, regs u RSP]" using pro(2) by simp
  ultimately have w: "load64 (cmem (f c)) (k - 24) = rip u" "load64 (cmem (f c)) (k - 16) = rflags u"
    "load64 (cmem (f c)) (k - 8) = regs u RSP"
    by simp_all
  have sp: "regs (f c) RSP = k - 32" using keep [of RSP] by (simp add: pro(1))
  have gs: "gs_base (f c) = pc" "kernel_gs_base (f c) = gs_base u" using assms(6) pro(3,4) by (simp_all add: sysv_def)
  have d: "d = exec f syscall_epilogue (f c)" by (simp add: d_def c_def syscall_entry_def)
  have "regs d r = ((regs u)(RAX := regs (f c) RAX, RSI := regs (f c) RDX, RDX := load64 (cmem (f c)) (pc + 16),
      RCX := rip u, R11 := rflags u, RDI := 0, R8 := 0, R9 := 0, R10 := 0)) r" for r
    unfolding d using keep [of r]
    by (cases r) (simp_all add: syscall_epilogue_def pop_def Let_def sp gs w pro(1))
  moreover have "rip d = rip u" "rflags d = rflags u" "cs d = 0x23" "ss d = 0x1b" "gs_base d = gs_base u" "kernel_gs_base d = kernel_gs_base u"
    unfolding d by (simp_all add: syscall_epilogue_def pop_def Let_def sp gs w user_selectors_def pc_def)
  moreover have "rflags c AND 0x200 = 0" by (simp add: pro(6) SFMASK_def and.assoc)
  ultimately show ?thesis using pro(1,2,3) by (auto simp: fun_eq_iff)
qed

theorem syscall_protocol_witness:
  "\<exists>f. regs (exec f syscall_entry (syscall_instr 0x8000 user_cpu)) RSI = 7 \<and>
     regs (exec f syscall_entry (syscall_instr 0x8000 user_cpu)) RBX = 42 \<and>
     rip (exec f syscall_entry (syscall_instr 0x8000 user_cpu)) = 0x400010"
proof -
  let ?f = "\<lambda>c. set_reg RAX 0 (set_reg RDX 7 c)"
  let ?c = "exec ?f syscall_prologue (syscall_instr 0x8000 user_cpu)" and ?d = "exec ?f syscall_entry (syscall_instr 0x8000 user_cpu)"
  have sel: "kernel_gs_base user_cpu = 0x1000" "load64 (cmem user_cpu) 0x1000 = 0x9000" "rip user_cpu = 0x400010"
    "regs user_cpu RBX = 42"
    by (simp_all add: user_cpu_def load_store64_same)
  have "words 0x1000 3 \<inter> words (0x9000 - 32) 4 = {}" by (rule words_disjoint) simp_all
  then have "span 0x1000 24 \<inter> words (0x9000 - 32) 4 = {}" by (simp add: words_def)
  moreover have "sysv ?f ?c 1 3" by (simp add: sysv_def)
  ultimately have d: "regs ?d = (regs user_cpu)(RAX := regs (?f ?c) RAX, RSI := regs (?f ?c) RDX,
      RDX := load64 (cmem (?f ?c)) (0x1000 + 16), RCX := 0x400010, R11 := rflags user_cpu, RDI := 0, R8 := 0,
      R9 := 0, R10 := 0)" "rip ?d = 0x400010"
    using syscall_protocol [where u = user_cpu and f = ?f and entry = "0x8000", unfolded sel(1,2,3)] by blast+
  have "regs ?d RSI = 7" "regs ?d RBX = 42" unfolding d(1) by (simp_all add: sel)
  with d(2) show ?thesis by blast
qed

end
