(* ===== verification/Apic.thy ===== *)
theory Apic
  imports VirtioBlk
begin

text \<open>
  The local APIC and its timer, \<^verbatim>\<open>kernel/src/apic.rs\<close>: register access through the mapped window,
  calibration of the timer against channel 2 of the PIT, and the end-of-interrupt signal. The
  model-specific registers are a function the operations read and update.
\<close>

definition IA32_APIC_BASE :: u32 where [const_defs]: "IA32_APIC_BASE = 0x1B"
definition APIC_BASE_GLOBAL_ENABLE :: u64 where [const_defs]: "APIC_BASE_GLOBAL_ENABLE = 0x800"
definition APIC_BASE_ADDR_MASK :: u64 where [const_defs]: "APIC_BASE_ADDR_MASK = 0x000ffffffffff000"
definition REG_ID :: u64 where [const_defs]: "REG_ID = 0x020"
definition REG_EOI :: u64 where [const_defs]: "REG_EOI = 0x0B0"
definition REG_SVR :: u64 where [const_defs]: "REG_SVR = 0x0F0"
definition REG_LVT_TIMER :: u64 where [const_defs]: "REG_LVT_TIMER = 0x320"
definition REG_TIMER_INIT :: u64 where [const_defs]: "REG_TIMER_INIT = 0x380"
definition REG_TIMER_CURR :: u64 where [const_defs]: "REG_TIMER_CURR = 0x390"
definition REG_TIMER_DIV :: u64 where [const_defs]: "REG_TIMER_DIV = 0x3E0"
definition PIT_HZ :: u64 where [const_defs]: "PIT_HZ = 1193182"
definition QUANTUM_NS :: u64 where [const_defs]: "QUANTUM_NS = 1000000"
definition SVR_APIC_SOFTWARE_ENABLE :: u32 where [const_defs]: "SVR_APIC_SOFTWARE_ENABLE = 0x100"
definition LVT_TIMER_PERIODIC :: u32 where [const_defs]: "LVT_TIMER_PERIODIC = 0x20000"
definition LVT_MASKED :: u32 where [const_defs]: "LVT_MASKED = 0x10000"
definition TIMER_DIVIDE_BY_16 :: u32 where [const_defs]: "TIMER_DIVIDE_BY_16 = 3"
definition TIMER_VECTOR :: u8 where [const_defs]: "TIMER_VECTOR = 0x20"
definition SPURIOUS_VECTOR :: u8 where [const_defs]: "SPURIOUS_VECTOR = 0xFF"
definition FALLBACK_PER_MS :: u32 where [const_defs]: "FALLBACK_PER_MS = 62500"
definition GATE_GUARD :: nat where "GATE_GUARD = 50000000"

type_synonym msrs = "u32 \<Rightarrow> u64"

section \<open>Registers\<close>

definition reg_read :: "'d host \<Rightarrow> u64 \<Rightarrow> u64 \<Rightarrow> 'd machine \<Rightarrow> u32 \<times> 'd machine" where
  "reg_read H lapic off M = r32 H (lapic + off) M"

definition reg_write :: "'d host \<Rightarrow> u64 \<Rightarrow> u64 \<Rightarrow> u32 \<Rightarrow> 'd machine \<Rightarrow> 'd machine" where
  "reg_write H lapic off v M = w32 H (lapic + off) v M"

definition timer_curr :: "'d host \<Rightarrow> u64 \<Rightarrow> 'd machine \<Rightarrow> u32 \<times> 'd machine" where
  "timer_curr H lapic M = reg_read H lapic REG_TIMER_CURR M"

definition eoi :: "'d host \<Rightarrow> u64 \<Rightarrow> 'd machine \<Rightarrow> 'd machine" where
  "eoi H lapic M = reg_write H lapic REG_EOI 0 M"

text \<open>Byte accesses to I/O ports.\<close>

definition in8 :: "'d host \<Rightarrow> u16 \<Rightarrow> 'd machine \<Rightarrow> u8 \<times> 'd machine" where
  "in8 H p M = (let (v, d) = port_read (fst H) p 1 (devs M) in (ucast v, M\<lparr>devs := d\<rparr>))"

definition out8 :: "'d host \<Rightarrow> u16 \<Rightarrow> u8 \<Rightarrow> 'd machine \<Rightarrow> 'd machine" where
  "out8 H p v M = M\<lparr>devs := port_write (fst H) p 1 (ucast v) (devs M)\<rparr>"

section \<open>Calibration\<close>

text \<open>The poll of the gate's output; the number is what is left of the guard.\<close>

fun gate_wait :: "'d host \<Rightarrow> nat \<Rightarrow> 'd machine \<Rightarrow> bool \<times> 'd machine" where
  "gate_wait H n M =
    (let (v, M) = in8 H 0x61 M
     in if v AND 0x20 \<noteq> 0 then (True, M)
        else case n of 0 \<Rightarrow> (False, M) | Suc n \<Rightarrow> gate_wait H n M)"

declare gate_wait.simps [simp del]

text \<open>The last part: from the two counter readings to ticks per millisecond.\<close>

definition ticks_per_ms :: "bool \<Rightarrow> u32 \<Rightarrow> u32 \<Rightarrow> u32" where
  "ticks_per_ms fired start_count end_count =
    (if \<not> fired then FALLBACK_PER_MS
     else
       let elapsed = ucast (start_count - end_count) :: u64;
           apic_hz = saturating_mul elapsed 100;
           per_ms = ucast (apic_hz div 1000) :: u32
       in if per_ms < 100 then FALLBACK_PER_MS else per_ms)"

definition calibrate_apic_per_ms :: "'d host \<Rightarrow> u64 \<Rightarrow> 'd machine \<Rightarrow> u32 \<times> 'd machine" where
  "calibrate_apic_per_ms H lapic M =
    (let M = reg_write H lapic REG_TIMER_DIV TIMER_DIVIDE_BY_16 M;
         M = reg_write H lapic REG_LVT_TIMER LVT_MASKED M;
         M = reg_write H lapic REG_TIMER_INIT 0xFFFFFFFF M;
         (v, M) = in8 H 0x61 M;
         gate = (v AND 0xFC) OR 0x01;
         M = out8 H 0x61 (gate AND NOT 0x01) M;
         M = out8 H 0x43 0xB0 M;
         cnt = ucast (PIT_HZ div 100) :: u16;
         M = out8 H 0x42 (ucast (cnt AND 0xFF)) M;
         M = out8 H 0x42 (ucast (drop_bit 8 cnt)) M;
         (start_count, M) = timer_curr H lapic M;
         M = out8 H 0x61 (gate OR 0x01) M;
         (fired, M) = gate_wait H GATE_GUARD M;
         (end_count, M) = timer_curr H lapic M;
         M = reg_write H lapic REG_LVT_TIMER LVT_MASKED M
     in (ticks_per_ms fired start_count end_count, M))"

definition mask_legacy_pic :: "'d host \<Rightarrow> 'd machine \<Rightarrow> 'd machine" where
  "mask_legacy_pic H M = out8 H 0xA1 0xFF (out8 H 0x21 0xFF M)"

text \<open>
  Bring-up. The state is the machine, the frame allocator, the model-specific registers and the
  two statics \<^verbatim>\<open>TICK_NS\<close> and \<^verbatim>\<open>LAPIC_VIRT\<close>.
\<close>

record 'd apic_state =
  ap_mach :: "'d machine"
  ap_frames :: Memory
  ap_msrs :: msrs
  ap_tick_ns :: u64
  ap_lapic_virt :: u64

definition init_timer :: "'d host \<Rightarrow> mapper \<Rightarrow> u64 \<Rightarrow> 'd apic_state \<Rightarrow> bool \<times> 'd apic_state" where
  "init_timer H P cr3 s =
    (let hhdm = snd H;
         M = mask_legacy_pic H (ap_mach s);
         base_msr = ap_msrs s IA32_APIC_BASE;
         phys_base = base_msr AND APIC_BASE_ADDR_MASK;
         msr = (ap_msrs s)(IA32_APIC_BASE := base_msr OR APIC_BASE_GLOBAL_ENABLE);
         virt_base = hhdm + phys_base;
         (ok, m, mm) = map_mmio P cr3 hhdm virt_base phys_base (ram M, ap_frames s);
         M = M\<lparr>ram := m\<rparr>;
         s = s\<lparr>ap_mach := M, ap_frames := mm, ap_msrs := msr\<rparr>
     in if \<not> ok then (False, s)
        else
          let M = reg_write H virt_base REG_SVR (SVR_APIC_SOFTWARE_ENABLE OR ucast SPURIOUS_VECTOR) M;
              (per_ms, M) = calibrate_apic_per_ms H virt_base M;
              M = reg_write H virt_base REG_TIMER_DIV TIMER_DIVIDE_BY_16 M;
              M = reg_write H virt_base REG_LVT_TIMER (LVT_TIMER_PERIODIC OR ucast TIMER_VECTOR) M;
              M = reg_write H virt_base REG_TIMER_INIT per_ms M;
              (_, M) = reg_read H virt_base REG_ID M
          in (True, s\<lparr>ap_mach := M, ap_tick_ns := QUANTUM_NS, ap_lapic_virt := virt_base\<rparr>))"

end
