(* ===== verification/Kernel.thy ===== *)
theory Kernel
  imports Invoke ContextSwitch Apic
begin

text \<open>
  The kernel's control operations: admission of tasks, the timer tick, blocking and waking,
  endpoint rendezvous, the system call dispatcher, termination of a faulted domain and the
  supervisor. They are the remaining parts of \<^verbatim>\<open>sched.rs\<close> and \<^verbatim>\<open>capspace.rs\<close>, and \<^verbatim>\<open>syscall.rs\<close> and
  \<^verbatim>\<open>supervisor.rs\<close>.

  An operation that releases jobs is partial, since \<^verbatim>\<open>roll_deadlines\<close> is. A system call that blocks
  does not return to its caller: its outcome is \<open>Parked\<close>, and \<open>syscall_resume\<close> is what it still does
  when the task runs again. The pointer to the saved context that \<^verbatim>\<open>timer_isr\<close> and
  \<^verbatim>\<open>block_and_switch\<close> produce is an argument, \<open>current_rsp\<close> and \<open>saved\<close>.
\<close>

section \<open>Task frames and admission\<close>

definition TASK_STACK_SIZE :: u64 where [const_defs]: "TASK_STACK_SIZE = 65536"

definition task_kstack_top :: "'d env \<Rightarrow> nat \<Rightarrow> u64" where
  "task_kstack_top E i = (task_stacks E + of_nat i * TASK_STACK_SIZE + TASK_STACK_SIZE) AND NOT 0xf"

definition build_task_frame_inner ::
  "'d env \<Rightarrow> nat \<Rightarrow> u64 \<Rightarrow> bool \<Rightarrow> u64 \<Rightarrow> u64 \<Rightarrow> mem \<Rightarrow> u64 \<times> mem" where
  "build_task_frame_inner E i entry_va user user_rsp initial_rdi m =
    (let (cs, ss) = (if user then user_selectors else kernel_selectors);
         tp = task_kstack_top E i;
         frame_ptr = tp - 20 * 8;
         f = (\<lambda>n. frame_ptr + 8 * of_nat n);
         m = fold (\<lambda>n m. store64 (f n) 0 m) [0..<15] m;
         m = store64 (f 9) initial_rdi m;
         m = store64 (f 15) entry_va m;
         m = store64 (f 16) (ucast cs) m;
         m = store64 (f 17) 0x202 m;
         m = store64 (f 18) (if user then user_rsp - 8 else tp - 8) m;
         m = store64 (f 19) (ucast ss) m
     in (frame_ptr, m))"

definition build_task_frame :: "'d env \<Rightarrow> nat \<Rightarrow> u64 \<Rightarrow> mem \<Rightarrow> u64 \<times> mem" where
  "build_task_frame E i entry m = build_task_frame_inner E i entry False 0 0 m"

definition know :: "'d kernel \<Rightarrow> u64" where
  "know k = now_ns (TICKS k) (TICK_NS k)"

definition admit :: "'d env \<Rightarrow> u64 \<Rightarrow> u16 \<Rightarrow> u64 \<Rightarrow> u64 \<Rightarrow> u64 \<Rightarrow> 'd kernel \<Rightarrow> nat option \<times> 'd kernel" where
  "admit E entry cptr period rel_deadline budget k =
    (if period = 0 then (None, k)
     else if admit_check cptr (caps k) \<noteq> Ok then (None, k)
     else case free_slot (SCHED k) of
         None \<Rightarrow> (None, k)
       | Some i \<Rightarrow>
           let (frame_ptr, m) = build_task_frame E i entry (kmem k)
           in (Some i, k\<lparr>kmem := m, SCHED := install_task i
                (new_task (know k) frame_ptr (task_kstack_top E i) period rel_deadline budget 0) (SCHED k)\<rparr>))"

definition admit_user ::
  "'d env \<Rightarrow> u64 \<Rightarrow> u64 \<Rightarrow> u16 \<Rightarrow> u16 \<Rightarrow> u16 \<Rightarrow> u64 \<Rightarrow> u64 \<Rightarrow> u64 \<Rightarrow> 'd kernel \<Rightarrow> nat option \<times> 'd kernel" where
  "admit_user E user_entry_va user_stack_top mem_cptr cptr domain_id period rel_deadline budget k =
    (if period = 0 then (None, k)
     else if admit_check cptr (caps k) \<noteq> Ok then (None, k)
     else case free_slot (SCHED k) of
         None \<Rightarrow> (None, k)
       | Some i \<Rightarrow>
           let (frame_ptr, m) =
                 build_task_frame_inner E i user_entry_va True user_stack_top (ucast mem_cptr) (kmem k)
           in (Some i, k\<lparr>kmem := m, SCHED := install_task i
                (new_task (know k) frame_ptr (task_kstack_top E i) period rel_deadline budget domain_id) (SCHED k)\<rparr>))"

section \<open>Switching tasks\<close>

definition set_kernel_stack :: "u64 \<Rightarrow> 'd kernel \<Rightarrow> 'd kernel" where
  "set_kernel_stack ktop k = k\<lparr>tss_rsp0 := ktop, PER_CPU := (PER_CPU k)\<lparr>kernel_rsp0 := ktop\<rparr>\<rparr>"

text \<open>Publish the kernel stack and the domain of the current task.\<close>

definition publish_current :: "'d kernel \<Rightarrow> 'd kernel" where
  "publish_current k =
    (let t = tasks (SCHED k) ! current (SCHED k);
         k = set_kernel_stack (kstack_top t) k
     in k\<lparr>caps := set_current_domain (task_domain t) (caps k)\<rparr>)"

text \<open>Release jobs, choose the next task and publish it: the common end of the three switches.\<close>

definition switch_next :: "'d kernel \<Rightarrow> 'd kernel option" where
  "switch_next k =
    (case roll_deadlines (know k) (SCHED k) of
       None \<Rightarrow> None
     | Some s \<Rightarrow> Some (publish_current (k\<lparr>SCHED := s\<lparr>current := pick_next s\<rparr>\<rparr>)))"

definition save_rsp :: "nat \<Rightarrow> u64 \<Rightarrow> Scheduler \<Rightarrow> Scheduler" where
  "save_rsp i p s = s\<lparr>tasks := (tasks s)[i := (tasks s ! i)\<lparr>rsp := p\<rparr>]\<rparr>"

definition current_rsp_of :: "'d kernel \<Rightarrow> u64" where
  "current_rsp_of k = rsp (tasks (SCHED k) ! current (SCHED k))"

definition schedule_tick :: "'d env \<Rightarrow> u64 \<Rightarrow> 'd kernel \<Rightarrow> (u64 \<times> 'd kernel) option" where
  "schedule_tick E current_rsp k =
    (let k = k\<lparr>TICKS := TICKS k + 1\<rparr>;
         k = k\<lparr>mach := eoi (host E) (LAPIC_VIRT k) (mach k)\<rparr>
     in if num (SCHED k) \<le> 1 then Some (current_rsp, publish_current k)
        else
          let k = k\<lparr>SCHED := save_rsp (current (SCHED k)) current_rsp (SCHED k)\<rparr>
          in case switch_next k of
               None \<Rightarrow> None
             | Some k \<Rightarrow> Some (current_rsp_of k, k))"

definition block_current :: "u64 \<Rightarrow> u8 \<Rightarrow> u16 \<Rightarrow> 'd kernel \<Rightarrow> 'd kernel option" where
  "block_current saved reason ep_oid k =
    (let cur = current (SCHED k);
         k = k\<lparr>SCHED := park reason ep_oid (SCHED k)\<rparr>
     in case switch_next k of
          None \<Rightarrow> None
        | Some k \<Rightarrow> Some (k\<lparr>SCHED := save_rsp cur saved (SCHED k)\<rparr>))"

section \<open>Endpoints\<close>

datatype 'a outcome = Done 'a | Parked

type_synonym ipc_reply = "u64 \<times> u64 \<times> u16"

definition set_endpoint :: "nat \<Rightarrow> (EpSlot \<Rightarrow> EpSlot) \<Rightarrow> 'd kernel \<Rightarrow> 'd kernel" where
  "set_endpoint i f k = k\<lparr>caps := (caps k)\<lparr>ENDPOINTS := (ENDPOINTS (caps k))[i := f (ENDPOINTS (caps k) ! i)]\<rparr>\<rparr>"

definition kunblock :: "u16 \<Rightarrow> u64 \<Rightarrow> u64 \<Rightarrow> u16 \<Rightarrow> 'd kernel \<Rightarrow> 'd kernel" where
  "kunblock task st reply cptr k = k\<lparr>SCHED := unblock (unat task) st reply cptr (SCHED k)\<rparr>"

text \<open>The transfer of a rendezvous: nothing to transfer is no error.\<close>

definition transfer_if :: "bool \<Rightarrow> nat \<Rightarrow> u16 \<Rightarrow> nat \<Rightarrow> 'd kernel \<Rightarrow> (Status + u16) \<times> 'd kernel" where
  "transfer_if want src_dom xfer dst_dom k =
    (if want then on_caps (do_cap_transfer src_dom xfer dst_dom) k else (Inr CPTR_NONE, k))"

definition ep_send ::
  "u64 \<Rightarrow> nat \<Rightarrow> u64 \<Rightarrow> u64 \<Rightarrow> u16 \<Rightarrow> Rights \<Rightarrow> 'd kernel \<Rightarrow> (ipc_reply outcome \<times> 'd kernel) option" where
  "ep_send saved send_dom oid msg xfer r k =
    (let i = unat oid; want_xfer = (xfer \<noteq> CPTR_NONE)
     in if OBJECT_TABLE_SIZE \<le> i then Some (Done (status_code ErrBadCPtr, 0, CPTR_NONE), k)
        else if want_xfer \<and> \<not> contains r GRANT_CAP then Some (Done (status_code ErrRights, 0, CPTR_NONE), k)
        else if want_xfer \<and> CAP_TABLE_SLOTS \<le> unat xfer then Some (Done (status_code ErrBadCPtr, 0, CPTR_NONE), k)
        else case ep_state (ENDPOINTS (caps k) ! i) of
            RecvWait \<Rightarrow>
              let ep = ENDPOINTS (caps k) ! i;
                  k = set_endpoint i (\<lambda>e. e\<lparr>ep_state := Idle\<rparr>) k;
                  (res, k) = transfer_if want_xfer send_dom xfer (unat (peer_domain ep)) k
              in (case res of
                    Inr dst_cptr \<Rightarrow>
                      Some (Done (status_code Ok, 0, CPTR_NONE), kunblock (peer_task ep) (status_code Ok) msg dst_cptr k)
                  | Inl e \<Rightarrow>
                      Some (Done (status_code e, 0, CPTR_NONE), kunblock (peer_task ep) (status_code e) 0 CPTR_NONE k))
          | SendWait \<Rightarrow> Some (Done (status_code ErrRights, 0, CPTR_NONE), k)
          | Idle \<Rightarrow>
              let cur = current_task (SCHED k);
                  k = set_endpoint i (\<lambda>e. e\<lparr>ep_state := SendWait, peer_task := of_nat cur,
                        peer_domain := of_nat send_dom, msg0 := msg,
                        xfer_cptr := (if want_xfer then xfer else CPTR_NONE)\<rparr>) k
              in map_option (\<lambda>k. (Parked, k)) (block_current saved BLOCK_SEND (ucast oid) k))"

definition ep_recv :: "u64 \<Rightarrow> nat \<Rightarrow> u64 \<Rightarrow> 'd kernel \<Rightarrow> (ipc_reply outcome \<times> 'd kernel) option" where
  "ep_recv saved recv_dom oid k =
    (let i = unat oid
     in if OBJECT_TABLE_SIZE \<le> i then Some (Done (status_code ErrBadCPtr, 0, CPTR_NONE), k)
        else case ep_state (ENDPOINTS (caps k) ! i) of
            SendWait \<Rightarrow>
              let ep = ENDPOINTS (caps k) ! i;
                  k = set_endpoint i (\<lambda>e. e\<lparr>ep_state := Idle\<rparr>) k;
                  (res, k) = transfer_if (xfer_cptr ep \<noteq> CPTR_NONE) (unat (peer_domain ep)) (xfer_cptr ep) recv_dom k
              in (case res of
                    Inr dst_cptr \<Rightarrow>
                      Some (Done (status_code Ok, msg0 ep, dst_cptr), kunblock (peer_task ep) (status_code Ok) 0 CPTR_NONE k)
                  | Inl e \<Rightarrow>
                      Some (Done (status_code e, 0, CPTR_NONE), kunblock (peer_task ep) (status_code e) 0 CPTR_NONE k))
          | RecvWait \<Rightarrow> Some (Done (status_code ErrRights, 0, CPTR_NONE), k)
          | Idle \<Rightarrow>
              let cur = current_task (SCHED k);
                  k = set_endpoint i (\<lambda>e. e\<lparr>ep_state := RecvWait, peer_task := of_nat cur,
                        peer_domain := of_nat recv_dom\<rparr>) k
              in map_option (\<lambda>k. (Parked, k)) (block_current saved BLOCK_RECV (ucast oid) k))"

definition cap_invoke_ipc ::
  "'d env \<Rightarrow> u64 \<Rightarrow> u16 \<Rightarrow> u16 \<Rightarrow> u64 \<Rightarrow> u16 \<Rightarrow> 'd kernel \<Rightarrow> (ipc_reply outcome \<times> 'd kernel) option" where
  "cap_invoke_ipc E saved cptr method arg xfer k =
    (let d = current_domain (caps k)
     in case resolve d cptr method (caps k) of
         Inl st \<Rightarrow> Some (Done (status_code st, 0, CPTR_NONE), k)
       | Inr (kd, oid, r) \<Rightarrow>
           if kd = Endpoint \<and> method = E_SEND then ep_send saved d oid arg xfer r k
           else if kd = Endpoint \<and> method = E_RECV then ep_recv saved d oid k
           else if xfer \<noteq> CPTR_NONE then Some (Done (status_code ErrMethod, 0, CPTR_NONE), k)
           else let ((st, reply), k) = dispatch_method E d kd oid r method arg k
                in Some (Done (status_code st, reply, CPTR_NONE), k))"

section \<open>System calls\<close>

definition SYS_CAP_INVOKE :: u64 where [const_defs]: "SYS_CAP_INVOKE = 1"

record SyscallRet =
  ret_status :: u64
  ret_reply :: u64

definition set_reply_cptr :: "u64 \<Rightarrow> 'd kernel \<Rightarrow> 'd kernel" where
  "set_reply_cptr c k = k\<lparr>PER_CPU := (PER_CPU k)\<lparr>reply_cptr := c\<rparr>\<rparr>"

text \<open>What the dispatcher does with the result of an invocation, at once or after blocking.\<close>

definition syscall_return :: "ipc_reply \<Rightarrow> 'd kernel \<Rightarrow> SyscallRet \<times> 'd kernel" where
  "syscall_return res k =
    (let (st, reply, cptr) = res
     in (\<lparr>ret_status = st, ret_reply = reply\<rparr>, set_reply_cptr (ucast cptr) k))"

definition syscall_dispatch ::
  "'d env \<Rightarrow> u64 \<Rightarrow> u64 \<Rightarrow> u64 \<Rightarrow> u64 \<Rightarrow> u64 \<Rightarrow> u64 \<Rightarrow> u64 \<Rightarrow> u64 \<Rightarrow> 'd kernel \<Rightarrow>
    (SyscallRet outcome \<times> 'd kernel) option" where
  "syscall_dispatch E saved nr cptr method arg0 arg1 arg2 xfer k =
    (let k = set_reply_cptr CPTR_NULL k
     in if nr \<noteq> SYS_CAP_INVOKE then Some (Done \<lparr>ret_status = status_code ErrMethod, ret_reply = 0\<rparr>, k)
        else if 0xffff < cptr \<or> 0xffff < method \<or> 0xffff < xfer
        then Some (Done \<lparr>ret_status = status_code ErrBadCPtr, ret_reply = 0\<rparr>, k)
        else case cap_invoke_ipc E saved (ucast cptr) (ucast method) arg0 (ucast xfer) k of
            None \<Rightarrow> None
          | Some (Parked, k) \<Rightarrow> Some (Parked, k)
          | Some (Done res, k) \<Rightarrow> (let (ret, k) = syscall_return res k in Some (Done ret, k)))"

text \<open>The rest of a system call that had blocked, when its task runs again.\<close>

definition syscall_resume :: "'d kernel \<Rightarrow> SyscallRet \<times> 'd kernel" where
  "syscall_resume k = syscall_return (take_ipc_result (current (SCHED k)) (SCHED k)) k"

section \<open>Faults and supervision\<close>

definition FAULT_DOMAIN :: u16 where [const_defs]: "FAULT_DOMAIN = 4"

definition register_faulter :: "u64 \<Rightarrow> u64 \<Rightarrow> u8 \<Rightarrow> 'd kernel \<Rightarrow> 'd kernel" where
  "register_faulter entry stack_tp budget k =
    k\<lparr>FAULTER_ENTRY := entry, FAULTER_STACK_TOP := stack_tp, FAULTER_RESTARTS := budget\<rparr>"

definition on_domain_death :: "'d env \<Rightarrow> u16 \<Rightarrow> 'd kernel \<Rightarrow> 'd kernel" where
  "on_domain_death E domain_id k =
    (if domain_id \<noteq> FAULT_DOMAIN then k
     else if FAULTER_RESTARTS k = 0 then k
     else
       let k = k\<lparr>FAULTER_RESTARTS := FAULTER_RESTARTS k - 1\<rparr>;
           (m, k) = on_caps init_root k;
           (mem, k) = (case m of None \<Rightarrow> (None, k)
             | Some c \<Rightarrow> on_caps (delegate_from_root (unat FAULT_DOMAIN) c INVOKE 0) k);
           (ts, k) = on_caps mint_timeslice k
       in case (mem, ts) of
            (Some fm, Some ft) \<Rightarrow>
              snd (admit_user E (FAULTER_ENTRY k) (FAULTER_STACK_TOP k) fm ft FAULT_DOMAIN 5000000 5000000 1000000 k)
          | _ \<Rightarrow> k)"

definition terminate_current :: "'d env \<Rightarrow> 'd kernel \<Rightarrow> (u64 \<times> 'd kernel) option" where
  "terminate_current E k =
    (let cur = current (SCHED k);
         d = task_domain (tasks (SCHED k) ! cur);
         k = k\<lparr>SCHED := free_current (SCHED k)\<rparr>;
         k = reap_domain E d (of_nat cur) k;
         k = on_domain_death E d k
     in case switch_next k of
          None \<Rightarrow> None
        | Some k \<Rightarrow> Some (current_rsp_of k, k))"

end
