(* ===== verification/KernelInv.thy ===== *)
theory KernelInv
  imports Kernel
begin

text \<open>
  The kernel as a transition system. A state is the kernel together with the set of tasks whose
  system call is parked; a step is a timer tick, a system call of the running task that returns
  or parks, the rest of a parked call, a fault of the running ring-3 task, an operation of the
  kernel itself (admission, creation or delegation of a capability), or anything that user code
  and devices do to memory and devices. The invariant \<open>kernel_inv\<close> ties the scheduler to the
  endpoints; it holds in every reachable state.
\<close>

section \<open>The invariant\<close>

text \<open>
  \<open>ipc_inv\<close>: a parked endpoint names a task that is blocked on it, for the reason that fits; a
  blocked task is the peer of the endpoint it waits for. So each blocked task is known to exactly
  one endpoint, where a partner can find it.
\<close>

definition parked_ok :: "Scheduler \<Rightarrow> nat \<Rightarrow> EpSlot \<Rightarrow> bool" where
  "parked_ok s e ep \<longleftrightarrow>
     unat (peer_task ep) < MAX_TASKS \<and>
     (let t = tasks s ! unat (peer_task ep)
      in blocked t \<and> unat (wait_ep t) = e \<and>
         block_reason t = (if ep_state ep = SendWait then BLOCK_SEND else BLOCK_RECV) \<and>
         unat (peer_domain ep) = min (unat (task_domain t)) (MAX_DOMAINS - 1))"

definition ipc_inv :: "EpSlot list \<Rightarrow> Scheduler \<Rightarrow> bool" where
  "ipc_inv eps s \<longleftrightarrow>
     (\<forall>e < OBJECT_TABLE_SIZE. ep_state (eps ! e) \<noteq> Idle \<longrightarrow> parked_ok s e (eps ! e)) \<and>
     (\<forall>i < MAX_TASKS. blocked (tasks s ! i) \<longrightarrow>
        unat (wait_ep (tasks s ! i)) < OBJECT_TABLE_SIZE \<and>
        (let ep = eps ! unat (wait_ep (tasks s ! i)) in ep_state ep \<noteq> Idle \<and> unat (peer_task ep) = i))"

text \<open>\<open>W\<close> is the set of tasks with a parked system call.\<close>

definition core_inv :: "'d kernel \<Rightarrow> nat set \<Rightarrow> bool" where
  "core_inv k W \<longleftrightarrow> wf_capspace (caps k) \<and> sched_inv (SCHED k) \<and> ipc_inv (ENDPOINTS (caps k)) (SCHED k) \<and>
     (\<forall>i \<in> W. 0 < i \<and> i < MAX_TASKS \<and> task_present (tasks (SCHED k) ! i)) \<and>
     (\<forall>i < MAX_TASKS. blocked (tasks (SCHED k) ! i) \<longrightarrow> i \<in> W)"

definition running :: "'d kernel \<Rightarrow> Task" where
  "running k = tasks (SCHED k) ! current (SCHED k)"

text \<open>The running task may run, and its domain and kernel stack are the published ones.\<close>

definition running_ok :: "'d kernel \<Rightarrow> bool" where
  "running_ok k \<longleftrightarrow> eligible (running k) \<and> CURRENT_DOMAIN (caps k) = task_domain (running k) \<and>
     (current (SCHED k) \<noteq> 0 \<longrightarrow>
        kernel_rsp0 (PER_CPU k) = kstack_top (running k) \<and> tss_rsp0 k = kstack_top (running k))"

definition kernel_inv :: "'d kernel \<Rightarrow> nat set \<Rightarrow> bool" where
  "kernel_inv k W \<longleftrightarrow> core_inv k W \<and> running_ok k"

lemma core_invD:
  assumes "core_inv k W"
  shows "wf_capspace (caps k)" "sched_inv (SCHED k)" "ipc_inv (ENDPOINTS (caps k)) (SCHED k)"
    "i \<in> W \<Longrightarrow> 0 < i \<and> i < MAX_TASKS \<and> task_present (tasks (SCHED k) ! i)"
    "i < MAX_TASKS \<Longrightarrow> blocked (tasks (SCHED k) ! i) \<Longrightarrow> i \<in> W"
  using assms by (simp_all add: core_inv_def)

lemma kernel_invD:
  assumes "kernel_inv k W"
  shows "core_inv k W" "wf_capspace (caps k)" "sched_inv (SCHED k)" "ipc_inv (ENDPOINTS (caps k)) (SCHED k)"
    "eligible (running k)" "CURRENT_DOMAIN (caps k) = task_domain (running k)" "current (SCHED k) < MAX_TASKS"
  using assms sched_invD(2) by (auto simp: kernel_inv_def running_ok_def core_inv_def)

lemma ipc_invD:
  assumes "ipc_inv eps s"
  shows "e < OBJECT_TABLE_SIZE \<Longrightarrow> ep_state (eps ! e) \<noteq> Idle \<Longrightarrow> parked_ok s e (eps ! e)"
    "i < MAX_TASKS \<Longrightarrow> blocked (tasks s ! i) \<Longrightarrow> unat (wait_ep (tasks s ! i)) < OBJECT_TABLE_SIZE"
    "i < MAX_TASKS \<Longrightarrow> blocked (tasks s ! i) \<Longrightarrow> ep_state (eps ! unat (wait_ep (tasks s ! i))) \<noteq> Idle"
    "i < MAX_TASKS \<Longrightarrow> blocked (tasks s ! i) \<Longrightarrow> unat (peer_task (eps ! unat (wait_ep (tasks s ! i)))) = i"
  using assms by (simp_all add: ipc_inv_def Let_def)

text \<open>What \<open>ipc_inv\<close> sees of a task.\<close>

definition same_ipc :: "Task \<Rightarrow> Task \<Rightarrow> bool" where
  "same_ipc t t' \<longleftrightarrow> blocked t' = blocked t \<and>
     (blocked t \<longrightarrow> wait_ep t' = wait_ep t \<and> block_reason t' = block_reason t \<and> task_domain t' = task_domain t)"

lemma ipc_inv_cong:
  assumes "ipc_inv eps s" "\<And>i. i < MAX_TASKS \<Longrightarrow> same_ipc (tasks s ! i) (tasks s' ! i)"
  shows "ipc_inv eps s'"
  unfolding ipc_inv_def
proof (intro conjI allI impI)
  fix e assume "e < OBJECT_TABLE_SIZE" "ep_state (eps ! e) \<noteq> Idle"
  then have "parked_ok s e (eps ! e)" using ipc_invD(1) [OF assms(1)] by simp
  then show "parked_ok s' e (eps ! e)"
    using assms(2) [of "unat (peer_task (eps ! e))"] by (simp add: parked_ok_def same_ipc_def Let_def)
next
  fix i assume i: "i < MAX_TASKS" "blocked (tasks s' ! i)"
  then have "blocked (tasks s ! i)" "wait_ep (tasks s' ! i) = wait_ep (tasks s ! i)"
    using assms(2) [of i] by (auto simp: same_ipc_def)
  then show "unat (wait_ep (tasks s' ! i)) < OBJECT_TABLE_SIZE"
    "let ep = eps ! unat (wait_ep (tasks s' ! i)) in ep_state ep \<noteq> Idle \<and> unat (peer_task ep) = i"
    using ipc_invD [OF assms(1)] i(1) by (simp_all add: Let_def)
qed

lemma same_ipc_refl [simp]: "same_ipc t t"
  by (simp add: same_ipc_def)

section \<open>Blocking and waking keep the two sides together\<close>

lemma unat_task: "i < MAX_TASKS \<Longrightarrow> unat (of_nat i :: u16) = i"
  by (simp add: MAX_TASKS_def unat_of_nat)

lemma unat_domain: "d < MAX_DOMAINS \<Longrightarrow> unat (of_nat d :: u16) = d"
  by (simp add: MAX_DOMAINS_def unat_of_nat)

lemma unat_oid: "unat oid < OBJECT_TABLE_SIZE \<Longrightarrow> unat (ucast (oid :: u64) :: u16) = unat oid"
  by (simp add: OBJECT_TABLE_SIZE_def unsigned_ucast_eq take_bit_nat_eq_self)

text \<open>No endpoint is parked for a task that is not blocked.\<close>

lemma not_parked:
  assumes "ipc_inv eps s" "e < OBJECT_TABLE_SIZE" "ep_state (eps ! e) \<noteq> Idle" "\<not> blocked (tasks s ! i)"
  shows "unat (peer_task (eps ! e)) \<noteq> i"
  using ipc_invD(1) [OF assms(1-3)] assms(4) by (auto simp: parked_ok_def Let_def)

lemma ipc_inv_park:
  fixes oid :: u64
  assumes inv: "ipc_inv eps s" and len: "length eps = OBJECT_TABLE_SIZE" "length (tasks s) = MAX_TASKS"
    and cur: "current s < MAX_TASKS" "\<not> blocked (tasks s ! current s)"
    and e: "unat oid < OBJECT_TABLE_SIZE" "ep_state (eps ! unat oid) = Idle"
    and ep: "ep_state ep = st" "st \<noteq> Idle" "unat (peer_task ep) = current s"
      "unat (peer_domain ep) = min (unat (task_domain (tasks s ! current s))) (MAX_DOMAINS - 1)"
    and r: "r = (if st = SendWait then BLOCK_SEND else BLOCK_RECV)"
  shows "ipc_inv (eps[unat oid := ep]) (park r (ucast oid) s)"
proof -
  let ?s = "park r (ucast oid) s" and ?eps = "eps[unat oid := ep]"
  have t: "tasks ?s ! i = (if i = current s
      then (tasks s ! i)\<lparr>blocked := True, block_reason := r, wait_ep := ucast oid\<rparr> else tasks s ! i)"
    if "i < MAX_TASKS" for i
    using that len(2) by (simp add: park_def Let_def)
  show ?thesis unfolding ipc_inv_def
  proof (intro conjI allI impI)
    fix j assume j: "j < OBJECT_TABLE_SIZE" "ep_state (?eps ! j) \<noteq> Idle"
    show "parked_ok ?s j (?eps ! j)"
    proof (cases "j = unat oid")
      case True
      then show ?thesis using len(1) e ep cur
        by (simp add: parked_ok_def t [OF cur(1)] unat_oid Let_def r [symmetric] split del: if_split)
    next
      case False
      then have j': "ep_state (eps ! j) \<noteq> Idle" "?eps ! j = eps ! j" using j by simp_all
      then have "unat (peer_task (eps ! j)) \<noteq> current s" using not_parked [OF inv j(1)] cur(2) by blast
      then show ?thesis using ipc_invD(1) [OF inv j(1) j'(1)] j'(2) by (simp add: parked_ok_def t Let_def)
    qed
  next
    fix i assume i: "i < MAX_TASKS" "blocked (tasks ?s ! i)"
    show "unat (wait_ep (tasks ?s ! i)) < OBJECT_TABLE_SIZE"
      using i e ipc_invD(2) [OF inv, of i] by (auto simp: t unat_oid split: if_splits)
    show "let x = ?eps ! unat (wait_ep (tasks ?s ! i)) in ep_state x \<noteq> Idle \<and> unat (peer_task x) = i"
    proof (cases "i = current s")
      case True
      then show ?thesis using i e ep len(1) by (simp add: t unat_oid)
    next
      case False
      then have b: "blocked (tasks s ! i)" using i by (simp add: t)
      have "unat (wait_ep (tasks s ! i)) \<noteq> unat oid" using ipc_invD(3) [OF inv i(1) b] e(2) by metis
      then show ?thesis using False i b ipc_invD(2-) [OF inv i(1) b] by (simp add: t Let_def)
    qed
  qed
qed

lemma ipc_inv_wake:
  assumes inv: "ipc_inv eps s" and len: "length eps = OBJECT_TABLE_SIZE" "length (tasks s) = MAX_TASKS"
    and e: "e < OBJECT_TABLE_SIZE" "ep_state (eps ! e) \<noteq> Idle"
  shows "ipc_inv (eps[e := (eps ! e)\<lparr>ep_state := Idle\<rparr>]) (unblock (unat (peer_task (eps ! e))) st reply cptr s)"
proof -
  let ?p = "unat (peer_task (eps ! e))"
  let ?s = "unblock ?p st reply cptr s" and ?eps = "eps[e := (eps ! e)\<lparr>ep_state := Idle\<rparr>]"
  have pk: "parked_ok s e (eps ! e)" by (rule ipc_invD(1) [OF inv e])
  then have p: "?p < MAX_TASKS" "unat (wait_ep (tasks s ! ?p)) = e" by (simp_all add: parked_ok_def Let_def)
  have t: "tasks ?s ! i = (if i = ?p
      then (tasks s ! i)\<lparr>ipc_status := st, ipc_reply := reply, ipc_reply_cptr := cptr, blocked := False\<rparr> else tasks s ! i)"
    if "i < MAX_TASKS" for i
    using that len(2) p(1) by (auto simp: unblock_def nth_list_update)
  show ?thesis unfolding ipc_inv_def
  proof (intro conjI allI impI)
    fix j assume j: "j < OBJECT_TABLE_SIZE" "ep_state (?eps ! j) \<noteq> Idle"
    then have ne: "j \<noteq> e" using len(1) by auto
    then have j': "ep_state (eps ! j) \<noteq> Idle" "?eps ! j = eps ! j" using j by simp_all
    have pj: "parked_ok s j (eps ! j)" by (rule ipc_invD(1) [OF inv j(1) j'(1)])
    then have "unat (peer_task (eps ! j)) \<noteq> ?p" using p(2) ne by (auto simp: parked_ok_def Let_def)
    then show "parked_ok ?s j (?eps ! j)" using pj j'(2) by (simp add: parked_ok_def t Let_def)
  next
    fix i assume i: "i < MAX_TASKS" "blocked (tasks ?s ! i)"
    then have b: "i \<noteq> ?p" "blocked (tasks s ! i)" by (auto simp: t split: if_splits)
    then have "unat (wait_ep (tasks s ! i)) \<noteq> e" using ipc_invD(4) [OF inv i(1)] by metis
    then show "unat (wait_ep (tasks ?s ! i)) < OBJECT_TABLE_SIZE"
      "let x = ?eps ! unat (wait_ep (tasks ?s ! i)) in ep_state x \<noteq> Idle \<and> unat (peer_task x) = i"
      using ipc_invD(2-) [OF inv i(1)] b i(1) by (simp_all add: t Let_def)
  qed
qed

section \<open>Preservation, operation by operation\<close>

subsection \<open>Frames\<close>

lemma core_invI:
  assumes "core_inv k W" "wf_capspace (caps k')" "sched_inv (SCHED k')" "ENDPOINTS (caps k') = ENDPOINTS (caps k)"
    and "\<And>i. i < MAX_TASKS \<Longrightarrow> same_ipc (tasks (SCHED k) ! i) (tasks (SCHED k') ! i)"
    and "\<And>i. i \<in> W \<Longrightarrow> task_present (tasks (SCHED k') ! i)"
  shows "core_inv k' W"
  unfolding core_inv_def
proof (intro conjI ballI allI impI)
  show "ipc_inv (ENDPOINTS (caps k')) (SCHED k')"
    unfolding assms(4) by (rule ipc_inv_cong [OF core_invD(3) [OF assms(1)] assms(5)])
  fix i assume "i < MAX_TASKS" "blocked (tasks (SCHED k') ! i)"
  then show "i \<in> W" using assms(5) [of i] core_invD(5) [OF assms(1), of i] by (simp add: same_ipc_def)
qed (use assms(2,3,6) core_invD(4) [OF assms(1)] in blast)+

text \<open>\<open>unseen k k'\<close>: nothing the invariant reads has changed, but for tables that kept their shape.\<close>

definition unseen :: "'d kernel \<Rightarrow> 'd kernel \<Rightarrow> bool" where
  "unseen k k' \<longleftrightarrow> (wf_capspace (caps k) \<longrightarrow> wf_capspace (caps k')) \<and> SCHED k' = SCHED k \<and>
     ENDPOINTS (caps k') = ENDPOINTS (caps k) \<and> CURRENT_DOMAIN (caps k') = CURRENT_DOMAIN (caps k) \<and>
     kernel_rsp0 (PER_CPU k') = kernel_rsp0 (PER_CPU k) \<and> tss_rsp0 k' = tss_rsp0 k"

lemma unseen_refl [simp]: "unseen k k"
  by (simp add: unseen_def)

lemma unseen_trans: "unseen a b \<Longrightarrow> unseen b c \<Longrightarrow> unseen a c"
  by (simp add: unseen_def)

lemma unseen_core: "unseen k k' \<Longrightarrow> core_inv k W \<Longrightarrow> core_inv k' W"
  by (simp add: unseen_def core_inv_def)

lemma unseen_inv: "unseen k k' \<Longrightarrow> kernel_inv k W \<Longrightarrow> kernel_inv k' W"
  using unseen_core [of k k' W] by (simp add: kernel_inv_def running_ok_def running_def unseen_def)

lemma unseen_payload: "payload_step k k' \<Longrightarrow> unseen k k'"
  unfolding payload_step_def unseen_def by (elim conjE) (simp add: only_payload_sel [of k k'])

lemma unseen_reply [simp]: "unseen k (set_reply_cptr c k)" "caps (set_reply_cptr c k) = caps k"
  "SCHED (set_reply_cptr c k) = SCHED k"
  by (simp_all add: unseen_def set_reply_cptr_def)

lemma unseen_world: "unseen k (k\<lparr>mach := M, kmem := m\<rparr>)"
  by (simp add: unseen_def)

lemma unseen_caps:
  assumes "f (caps k) = (r, c)" "on_caps f k = (r', k')"
    and "wf_capspace (caps k) \<Longrightarrow> wf_capspace c" "ENDPOINTS c = ENDPOINTS (caps k)" "CURRENT_DOMAIN c = CURRENT_DOMAIN (caps k)"
  shows "unseen k k'" "caps k' = c" "r' = r"
proof -
  have "k' = k\<lparr>caps := c\<rparr>" "r' = r" using assms(1,2) by (simp_all add: on_caps_def)
  then show "unseen k k'" "caps k' = c" "r' = r" using assms(3-5) by (simp_all add: unseen_def)
qed

lemma create_and_mint_unseen:
  assumes "wf_capspace s" "payload_ok p" "create_and_mint kd p r s = (res, s')"
  shows "ENDPOINTS s' = ENDPOINTS s" "CURRENT_DOMAIN s' = CURRENT_DOMAIN s" "DOMAIN_MAPS s' = DOMAIN_MAPS s"
proof -
  have "ENDPOINTS s' = ENDPOINTS s \<and> CURRENT_DOMAIN s' = CURRENT_DOMAIN s \<and> DOMAIN_MAPS s' = DOMAIN_MAPS s"
    using assms by (cases rule: create_and_mint_cases) (simp_all add: payload_okD [OF assms(2)])
  then show "ENDPOINTS s' = ENDPOINTS s" "CURRENT_DOMAIN s' = CURRENT_DOMAIN s" "DOMAIN_MAPS s' = DOMAIN_MAPS s"
    by blast+
qed

lemma delegate_from_root_unseen:
  assumes "delegate_from_root d c m b s = (res, s')"
  shows "ENDPOINTS s' = ENDPOINTS s" "CURRENT_DOMAIN s' = CURRENT_DOMAIN s"
  using assms by (auto simp: delegate_from_root_def Let_def split: if_splits prod.splits)

subsection \<open>Switching\<close>

lemma running_publish: "running (publish_current k) = running k"
  by (simp add: publish_current_def running_def set_kernel_stack_def Let_def)

lemma publish_current_sel [simp]:
  "SCHED (publish_current k) = SCHED k" "ENDPOINTS (caps (publish_current k)) = ENDPOINTS (caps k)"
  "OBJECTS (caps (publish_current k)) = OBJECTS (caps k)" "DOMAINS (caps (publish_current k)) = DOMAINS (caps k)"
  "wf_capspace (caps (publish_current k)) = wf_capspace (caps k)"
  "FAULTER_RESTARTS (publish_current k) = FAULTER_RESTARTS k" "caps (publish_current k) =
     set_current_domain (task_domain (tasks (SCHED k) ! current (SCHED k))) (caps k)"
  by (simp_all add: publish_current_def set_kernel_stack_def set_current_domain_def wf_capspace_def Let_def)

lemma publish_current_inv:
  assumes "core_inv k W" "eligible (running k)"
  shows "kernel_inv (publish_current k) W"
proof -
  have "core_inv (publish_current k) W"
    using assms(1) by (simp add: core_inv_def set_current_domain_def wf_capspace_def)
  then show ?thesis using assms(2)
    by (simp add: kernel_inv_def running_ok_def running_publish)
      (simp add: publish_current_def set_kernel_stack_def set_current_domain_def running_def Let_def)
qed

lemma same_ipc_release: "length (tasks s) = MAX_TASKS \<Longrightarrow> i < MAX_TASKS \<Longrightarrow> same_ipc (tasks s ! i) (tasks (release_all now s) ! i)"
  by (simp add: release_all_nth same_ipc_def released_def)

lemma switch_next_Some:
  assumes "core_inv k W" "switch_next k = Some k'"
  obtains s where "s = release_all (know k) (SCHED k)" "k' = publish_current (k\<lparr>SCHED := s\<lparr>current := pick_next s\<rparr>\<rparr>)"
    "kernel_inv k' W"
proof -
  let ?s = "release_all (know k) (SCHED k)"
  let ?k = "k\<lparr>SCHED := ?s\<lparr>current := pick_next ?s\<rparr>\<rparr>"
  note inv = core_invD [OF assms(1)]
  have eq: "k' = publish_current ?k"
    using assms(2) roll_deadlines_Some [OF _ inv(2)] by (auto simp: switch_next_def split: option.splits)
  have s: "sched_inv ?s" by (rule sched_inv_release_all [OF inv(2)])
  have len: "length (tasks (SCHED k)) = MAX_TASKS" by (rule sched_invD(1) [OF inv(2)])
  have "core_inv ?k W"
  proof (rule core_invI [OF assms(1)])
    show "sched_inv (SCHED ?k)" using sched_inv_current [OF s pick_next_less] by simp
    show "task_present (tasks (SCHED ?k) ! i)" if "i \<in> W" for i
      using inv(4) [OF that] len by (simp add: release_all_nth)
  qed (use inv len same_ipc_release in simp_all)
  moreover have "eligible (running ?k)" using pick_next_eligible [OF s] by (simp add: running_def)
  ultimately have "kernel_inv k' W" unfolding eq by (rule publish_current_inv)
  then show ?thesis using that eq by blast
qed

lemma save_rsp_sel [simp]: "current (save_rsp i p s) = current s" "num (save_rsp i p s) = num s"
  "length (tasks (save_rsp i p s)) = length (tasks s)"
  by (simp_all add: save_rsp_def)

lemma save_rsp_nth:
  "length (tasks s) = MAX_TASKS \<Longrightarrow> j < MAX_TASKS \<Longrightarrow>
     tasks (save_rsp i p s) ! j = (tasks s ! j)\<lparr>rsp := if j = i then p else rsp (tasks s ! j)\<rparr>"
  by (simp add: save_rsp_def nth_list_update)

lemma sched_inv_save_rsp: "sched_inv s \<Longrightarrow> sched_inv (save_rsp i p s)"
proof -
  assume inv: "sched_inv s"
  have "map task_present (tasks (save_rsp i p s)) = map task_present (tasks s)"
    using sched_invD(1) [OF inv] by (intro nth_equalityI) (simp_all add: save_rsp_nth)
  then have "length (filter task_present (tasks (save_rsp i p s))) = length (filter task_present (tasks s))"
    by (simp only: length_filter_map [of task_present])
  moreover have "0 < MAX_TASKS" by (simp add: const_defs)
  ultimately show ?thesis using inv by (simp add: sched_inv_def save_rsp_nth idle_task_def)
qed

lemma core_inv_save_rsp:
  assumes "core_inv k W"
  shows "core_inv (k\<lparr>SCHED := save_rsp i p (SCHED k)\<rparr>) W"
proof (rule core_invI [OF assms])
  note inv = core_invD [OF assms]
  have len: "length (tasks (SCHED k)) = MAX_TASKS" by (rule sched_invD(1) [OF inv(2)])
  show "same_ipc (tasks (SCHED k) ! j) (tasks (SCHED (k\<lparr>SCHED := save_rsp i p (SCHED k)\<rparr>)) ! j)"
    if "j < MAX_TASKS" for j using save_rsp_nth [OF len that] by (simp add: same_ipc_def)
  show "task_present (tasks (SCHED (k\<lparr>SCHED := save_rsp i p (SCHED k)\<rparr>)) ! j)" if "j \<in> W" for j
    using inv(4) [OF that] save_rsp_nth [OF len, of j] by auto
qed (use core_invD [OF assms] sched_inv_save_rsp in simp_all)

lemma kernel_inv_save_rsp:
  assumes "kernel_inv k W"
  shows "kernel_inv (k\<lparr>SCHED := save_rsp i p (SCHED k)\<rparr>) W"
proof -
  have "length (tasks (SCHED k)) = MAX_TASKS" "current (SCHED k) < MAX_TASKS"
    using sched_invD(1,2) [OF kernel_invD(3) [OF assms]] by auto
  then show ?thesis
    using assms core_inv_save_rsp [of k W i p]
    by (auto simp: kernel_inv_def running_ok_def running_def save_rsp_nth eligible_def)
qed

text \<open>The number of present tasks and restarts left: what bounds the number of faults.\<close>

definition fault_budget :: "'d kernel \<Rightarrow> nat" where
  "fault_budget k = num (SCHED k) + unat (FAULTER_RESTARTS k)"

lemma schedule_tick_inv:
  assumes "kernel_inv k W" "schedule_tick E p k = Some (p', k')"
  shows "kernel_inv k' W" "confined (caps k) (caps k')" "fault_budget k' = fault_budget k"
proof -
  define k1 where "k1 = k\<lparr>TICKS := TICKS k + 1, mach := eoi (host E) (LAPIC_VIRT k) (mach k)\<rparr>"
  have k1: "core_inv k1 W" "eligible (running k1)" "caps k1 = caps k" "fault_budget k1 = fault_budget k"
    using assms(1) by (simp_all add: k1_def kernel_inv_def core_inv_def running_ok_def running_def fault_budget_def)
  have eq: "(if num (SCHED k1) \<le> 1 then Some (p, publish_current k1)
      else case switch_next (k1\<lparr>SCHED := save_rsp (current (SCHED k1)) p (SCHED k1)\<rparr>) of
        None \<Rightarrow> None | Some k \<Rightarrow> Some (current_rsp_of k, k)) = Some (p', k')"
    using assms(2) by (simp add: schedule_tick_def k1_def Let_def split: if_splits)
  have "kernel_inv k' W \<and> confined (caps k) (caps k') \<and> fault_budget k' = fault_budget k"
  proof (cases "num (SCHED k1) \<le> 1")
    case True
    then have "k' = publish_current k1" using eq by simp
    then show ?thesis
      using publish_current_inv [OF k1(1,2)] k1(3,4) by (auto simp: set_current_domain_def fault_budget_def intro: confined_same)
  next
    case False
    then have "switch_next (k1\<lparr>SCHED := save_rsp (current (SCHED k1)) p (SCHED k1)\<rparr>) = Some k'"
      using eq by (auto split: option.splits)
    with core_inv_save_rsp [OF k1(1)] show ?thesis
      by (rule switch_next_Some) (use k1(3,4) in \<open>auto simp: set_current_domain_def fault_budget_def intro: confined_same\<close>)
  qed
  then show "kernel_inv k' W" "confined (caps k) (caps k')" "fault_budget k' = fault_budget k" by blast+
qed

subsection \<open>Admission\<close>

text \<open>The state after an admission: unchanged, or a new task in a slot that was free.\<close>

definition admitted :: "'d kernel \<Rightarrow> 'd kernel \<Rightarrow> bool" where
  "admitted k k' \<longleftrightarrow> k' = k \<or> (\<exists>i m now ptr ktop period rel budget d. free_slot (SCHED k) = Some i \<and> period \<noteq> 0 \<and>
     k' = k\<lparr>kmem := m, SCHED := install_task i (new_task now ptr ktop period rel budget d) (SCHED k)\<rparr>)"

lemma admitted_refl [simp]: "admitted k k"
  by (simp add: admitted_def)

lemma admittedI:
  "free_slot (SCHED k) = Some i \<Longrightarrow> period \<noteq> 0 \<Longrightarrow>
     admitted k (k\<lparr>kmem := m, SCHED := install_task i (new_task now ptr ktop period rel budget d) (SCHED k)\<rparr>)"
  unfolding admitted_def by blast

lemma admit_admitted: "admitted k (snd (admit E entry cptr period rel budget k))"
  unfolding admit_def
  by (auto simp: Let_def case_prod_beta split: option.splits intro: admittedI)

lemma admit_user_admitted: "admitted k (snd (admit_user E entry tp mem_cptr cptr d period rel budget k))"
  unfolding admit_user_def
  by (auto simp: Let_def case_prod_beta split: option.splits intro: admittedI)

lemma admitted_caps:
  assumes "admitted k k'"
  shows "caps k' = caps k" "PER_CPU k' = PER_CPU k" "tss_rsp0 k' = tss_rsp0 k" "current (SCHED k') = current (SCHED k)"
    "FAULTER_RESTARTS k' = FAULTER_RESTARTS k"
  using assms by (auto simp: admitted_def install_task_def)

lemma admitted_inv:
  assumes "admitted k k'"
  shows "core_inv k W \<Longrightarrow> core_inv k' W" "kernel_inv k W \<Longrightarrow> kernel_inv k' W"
proof -
  have core: "core_inv k' W" if inv: "core_inv k W"
  proof (cases "k' = k")
    case False
    then obtain i m now ptr ktop period rel budget d where fs: "free_slot (SCHED k) = Some i" and p: "period \<noteq> 0"
      and k': "k' = k\<lparr>kmem := m, SCHED := install_task i (new_task now ptr ktop period rel budget d) (SCHED k)\<rparr>"
      using assms by (auto simp: admitted_def)
    note i = task_slotD [OF fs] and I = core_invD [OF inv]
    have len: "length (tasks (SCHED k)) = MAX_TASKS" by (rule sched_invD(1) [OF I(2)])
    have nb: "\<not> blocked (tasks (SCHED k) ! i)" using sched_invD(7) [OF I(2) i(2)] i(3) by blast
    show ?thesis
    proof (rule core_invI [OF inv])
      show "sched_inv (SCHED k')" using sched_inv_install [OF I(2) fs p] by (simp add: k')
      show "same_ipc (tasks (SCHED k) ! j) (tasks (SCHED k') ! j)" if "j < MAX_TASKS" for j
        using that nb len i(2) by (auto simp: k' install_task_def nth_list_update same_ipc_def)
      show "task_present (tasks (SCHED k') ! j)" if "j \<in> W" for j
        using I(4) [OF that] len i(2) by (auto simp: k' install_task_def nth_list_update)
    qed (use I in \<open>simp_all add: k'\<close>)
  qed (use inv in simp)
  then show "core_inv k W \<Longrightarrow> core_inv k' W" .
  assume inv: "kernel_inv k W"
  have "running k' = running k"
  proof (cases "k' = k")
    case False
    then obtain i t where "free_slot (SCHED k) = Some i" "SCHED k' = install_task i t (SCHED k)"
      using assms by (auto simp: admitted_def)
    moreover from this have "i \<noteq> current (SCHED k)"
      using kernel_invD(5) [OF inv] task_slotD(3) [of "SCHED k" i] by (auto simp: running_def eligible_def)
    ultimately show ?thesis by (simp add: running_def install_task_def)
  qed simp
  then show "kernel_inv k' W"
    using inv core admitted_caps [OF assms] by (simp add: kernel_inv_def running_ok_def)
qed

subsection \<open>Faults\<close>

lemma free_current_sel [simp]: "current (free_current s) = current s"
  by (simp add: free_current_def Let_def)

lemma core_inv_free_current:
  assumes "core_inv k W" "current (SCHED k) \<noteq> 0" "eligible (running k)" "current (SCHED k) \<notin> W"
  shows "core_inv (k\<lparr>SCHED := free_current (SCHED k)\<rparr>) W"
proof (rule core_invI [OF assms(1)])
  note I = core_invD [OF assms(1)]
  have len: "length (tasks (SCHED k)) = MAX_TASKS" by (rule sched_invD(1) [OF I(2)])
  have cur: "current (SCHED k) < MAX_TASKS" by (rule sched_invD(2) [OF I(2)])
  have el: "task_present (tasks (SCHED k) ! current (SCHED k))" "\<not> blocked (tasks (SCHED k) ! current (SCHED k))"
    using assms(3) by (simp_all add: running_def eligible_def)
  show "sched_inv (SCHED (k\<lparr>SCHED := free_current (SCHED k)\<rparr>))"
    using sched_inv_free_current [OF I(2) assms(2) el(1)] by simp
  show "same_ipc (tasks (SCHED k) ! j) (tasks (SCHED (k\<lparr>SCHED := free_current (SCHED k)\<rparr>)) ! j)"
    if "j < MAX_TASKS" for j
    using that len cur el(2) by (auto simp: free_current_def Let_def nth_list_update same_ipc_def)
  show "task_present (tasks (SCHED (k\<lparr>SCHED := free_current (SCHED k)\<rparr>)) ! j)" if "j \<in> W" for j
    using I(4) [OF that] len cur assms(4) that by (auto simp: free_current_def Let_def nth_list_update)
qed (use core_invD(1) [OF assms(1)] in simp_all)

text \<open>Scrubbing the endpoints for a task that is not blocked finds nothing.\<close>

lemma scrub_nothing:
  assumes "ipc_inv eps s" "length eps = OBJECT_TABLE_SIZE" "i < MAX_TASKS" "\<not> blocked (tasks s ! i)"
  shows "map (scrub_endpoint (of_nat i)) eps = eps"
proof (rule nth_equalityI)
  fix e assume e: "e < length (map (scrub_endpoint (of_nat i)) eps)"
  then have "ep_state (eps ! e) \<noteq> Idle \<Longrightarrow> peer_task (eps ! e) \<noteq> of_nat i"
    using not_parked [OF assms(1) _ _ assms(4), of e] assms(2) unat_task [OF assms(3)] by auto
  then show "map (scrub_endpoint (of_nat i)) eps ! e = eps ! e" using e by (auto simp: scrub_endpoint_def)
qed simp

lemma confined_empty_table:
  assumes "wf_capspace c"
  shows "confined c (c\<lparr>DOMAINS := (DOMAINS c)[d := EMPTY_TABLE]\<rparr>)"
  by (rule confined_set_table [OF assms]) (simp add: EMPTY_TABLE_new)

lemma confined_eq: "confined s s' \<Longrightarrow> OBJECTS s'' = OBJECTS s' \<Longrightarrow> DOMAINS s'' = DOMAINS s' \<Longrightarrow> confined s s''"
  using confined_trans confined_same by blast

lemma reap_domain_caps:
  fixes E :: "'d env" and k :: "'d kernel" and d t :: u16
  assumes "wf_capspace (caps k)"
  defines "k' \<equiv> reap_domain E d t k"
  shows "wf_capspace (caps k')" "confined (caps k) (caps k')" "SCHED k' = SCHED k"
    "ENDPOINTS (caps k') = map (scrub_endpoint t) (ENDPOINTS (caps k))" "CURRENT_DOMAIN (caps k') = CURRENT_DOMAIN (caps k)"
    "FAULTER_RESTARTS k' = FAULTER_RESTARTS k"
proof -
  let ?c = "if unat d < MAX_DOMAINS then (caps k)\<lparr>DOMAINS := (DOMAINS (caps k))[unat d := EMPTY_TABLE]\<rparr> else caps k"
  let ?e = "?c\<lparr>ENDPOINTS := map (scrub_endpoint t) (ENDPOINTS (caps k))\<rparr>"
  let ?dm = "DOMAIN_MAPS (caps k) ! unat d"
  have wf: "wf_capspace ?e"
    using assms(1) wf_set_table [OF assms(1), of EMPTY_TABLE "unat d"] by (simp add: wf_capspace_def EMPTY_TABLE_new)
  have conf: "confined (caps k) ?c" using confined_empty_table [OF assms(1)] by simp
  have cs: "caps k' = ?e \<or> unat d < MAX_DOMAINS \<and> caps k' = ?e\<lparr>DOMAIN_MAPS := (DOMAIN_MAPS (caps k))[unat d := ?dm\<lparr>dm_count := 0\<rparr>]\<rparr>"
    by (simp add: k'_def reap_domain_def Let_def case_prod_beta)
  moreover have "wf_capspace (?e\<lparr>DOMAIN_MAPS := (DOMAIN_MAPS (caps k))[unat d := ?dm\<lparr>dm_count := 0\<rparr>]\<rparr>)"
    if "unat d < MAX_DOMAINS"
    using wf set_update_ball [of "DOMAIN_MAPS (caps k)" wf_maps "?dm\<lparr>dm_count := 0\<rparr>" "unat d"]
      wf_capspaceD(7) [OF assms(1) that] that by (simp add: wf_capspace_def wf_maps_def)
  ultimately show "wf_capspace (caps k')" using wf by auto
  have "OBJECTS (caps k') = OBJECTS ?c" "DOMAINS (caps k') = DOMAINS ?c" using cs by auto
  with conf show "confined (caps k) (caps k')" by (rule confined_eq)
  show "SCHED k' = SCHED k" "ENDPOINTS (caps k') = map (scrub_endpoint t) (ENDPOINTS (caps k))"
    "CURRENT_DOMAIN (caps k') = CURRENT_DOMAIN (caps k)" "FAULTER_RESTARTS k' = FAULTER_RESTARTS k"
    by (simp_all add: k'_def reap_domain_def Let_def case_prod_beta)
qed

lemma on_domain_death_cases:
  assumes "wf_capspace (caps k)"
  obtains (ignored) "on_domain_death E d k = k" "d \<noteq> FAULT_DOMAIN \<or> FAULTER_RESTARTS k = 0"
  | (restarted) k1 where "d = FAULT_DOMAIN" "FAULTER_RESTARTS k \<noteq> 0" "unseen k k1" "confined (caps k) (caps k1)"
      "FAULTER_RESTARTS k1 = FAULTER_RESTARTS k - 1" "admitted k1 (on_domain_death E d k)"
proof (cases "d \<noteq> FAULT_DOMAIN \<or> FAULTER_RESTARTS k = 0")
  case True
  then show ?thesis using ignored by (auto simp: on_domain_death_def)
next
  case False
  define k0 where "k0 = k\<lparr>FAULTER_RESTARTS := FAULTER_RESTARTS k - 1\<rparr>"
  obtain m c1 where m: "init_root (caps k0) = (m, c1)" by (rule prod.exhaust)
  define del where "del = (case m of None \<Rightarrow> (\<lambda>c. (None, c)) | Some x \<Rightarrow> delegate_from_root (unat FAULT_DOMAIN) x INVOKE 0)"
  obtain fm c2 where del: "del c1 = (fm, c2)" by (rule prod.exhaust)
  obtain ft c3 where ts: "mint_timeslice c2 = (ft, c3)" by (rule prod.exhaust)
  let ?k = "k0\<lparr>caps := c3\<rparr>"
  have wf0: "wf_capspace (caps k0)" using assms by (simp add: k0_def)
  note m' = m [unfolded init_root_def] and ts' = ts [unfolded mint_timeslice_def]
  have c1: "wf_capspace c1" "confined (caps k) c1" "ENDPOINTS c1 = ENDPOINTS (caps k)" "CURRENT_DOMAIN c1 = CURRENT_DOMAIN (caps k)"
    using create_and_mint_wf [OF wf0 payload_ok_id m'] create_and_mint_confined [OF wf0 payload_ok_id m']
      create_and_mint_unseen [OF wf0 payload_ok_id m'] by (simp_all add: k0_def)
  have "wf_capspace c2 \<and> confined c1 c2 \<and> ENDPOINTS c2 = ENDPOINTS c1 \<and> CURRENT_DOMAIN c2 = CURRENT_DOMAIN c1"
    using del delegate_from_root_confined [OF c1(1)] delegate_from_root_unseen c1(1)
    by (cases m) (auto simp: del_def)
  then have c2: "wf_capspace c2" "confined c1 c2" "ENDPOINTS c2 = ENDPOINTS c1" "CURRENT_DOMAIN c2 = CURRENT_DOMAIN c1"
    by blast+
  note c3 = create_and_mint_wf [OF c2(1) payload_ok_id ts'] create_and_mint_confined [OF c2(1) payload_ok_id ts']
    create_and_mint_unseen [OF c2(1) payload_ok_id ts']
  have "unseen k ?k" using c1 c2 c3 by (simp add: unseen_def k0_def)
  moreover have "confined (caps k) (caps ?k)" 
    using confined_trans [OF confined_trans [OF c1(2) c2(2)] c3(2)] by simp
  moreover have "admitted ?k (on_domain_death E d k)"
    using False m del ts admit_user_admitted [of ?k]
    by (cases m; cases fm; cases ft) (simp_all add: on_domain_death_def on_caps_def k0_def del_def Let_def)
  ultimately show ?thesis using restarted [of ?k] False by (simp add: k0_def)
qed

lemma on_domain_death_inv:
  assumes "core_inv k W"
  shows "core_inv (on_domain_death E d k) W" "confined (caps k) (caps (on_domain_death E d k))"
proof -
  have "core_inv (on_domain_death E d k) W \<and> confined (caps k) (caps (on_domain_death E d k))"
    using core_invD(1) [OF assms]
  proof (cases rule: on_domain_death_cases [where d = d and E = E])
    case (restarted k1)
    then show ?thesis
      using admitted_inv(1) [OF restarted(6) unseen_core [OF restarted(3) assms]] admitted_caps(1) [OF restarted(6)] by simp
  qed (use assms in simp)
  then show "core_inv (on_domain_death E d k) W" "confined (caps k) (caps (on_domain_death E d k))" by blast+
qed

lemma core_inv_reap:
  assumes "kernel_inv k W" "current (SCHED k) \<noteq> 0" "current (SCHED k) \<notin> W"
  shows "core_inv (reap_domain E d (of_nat (current (SCHED k))) (k\<lparr>SCHED := free_current (SCHED k)\<rparr>)) W"
proof -
  let ?cur = "current (SCHED k)" and ?k1 = "k\<lparr>SCHED := free_current (SCHED k)\<rparr>"
  note I = kernel_invD [OF assms(1)]
  have c1: "core_inv ?k1 W" by (rule core_inv_free_current [OF I(1) assms(2) I(5) assms(3)])
  have wf1: "wf_capspace (caps ?k1)" using I(2) by simp
  have "\<not> blocked (tasks (SCHED k) ! ?cur)" using I(5) by (simp add: running_def eligible_def)
  then have "map (scrub_endpoint (of_nat ?cur)) (ENDPOINTS (caps k)) = ENDPOINTS (caps k)"
    using scrub_nothing [OF I(4) wf_capspaceD(4) [OF I(2)] I(7)] by simp
  then show ?thesis using c1 reap_domain_caps [OF wf1, of E d "of_nat ?cur"] by (simp add: core_inv_def)
qed

lemma terminate_current_inv:
  assumes "kernel_inv k W" "current (SCHED k) \<noteq> 0" "current (SCHED k) \<notin> W" "terminate_current E k = Some (p, k')"
  shows "kernel_inv k' W" "confined (caps k) (caps k')"
proof -
  let ?cur = "current (SCHED k)"
  let ?d = "task_domain (tasks (SCHED k) ! ?cur)"
  let ?k1 = "k\<lparr>SCHED := free_current (SCHED k)\<rparr>"
  let ?k2 = "reap_domain E ?d (of_nat ?cur) ?k1"
  let ?k3 = "on_domain_death E ?d ?k2"
  have wf1: "wf_capspace (caps ?k1)" using kernel_invD(2) [OF assms(1)] by simp
  have c2: "core_inv ?k2 W" by (rule core_inv_reap [OF assms(1-3)])
  note c3 = on_domain_death_inv [OF c2, of E ?d]
  have sw: "switch_next ?k3 = Some k'"
    using assms(4) by (auto simp: terminate_current_def Let_def split: option.splits)
  have conf: "confined (caps k) (caps ?k3)"
    using confined_trans [OF reap_domain_caps(2) [OF wf1, of E ?d "of_nat ?cur"] c3(2)] by simp
  from c3(1) sw show "kernel_inv k' W" by (rule switch_next_Some)
  from c3(1) sw show "confined (caps k) (caps k')"
    by (rule switch_next_Some) (use conf in \<open>auto simp: set_current_domain_def intro: confined_eq\<close>)
qed

subsection \<open>Rendezvous\<close>

lemma set_endpoint_sel [simp]:
  "SCHED (set_endpoint i f k) = SCHED k" "DOMAINS (caps (set_endpoint i f k)) = DOMAINS (caps k)"
  "OBJECTS (caps (set_endpoint i f k)) = OBJECTS (caps k)" "wf_capspace (caps (set_endpoint i f k)) = wf_capspace (caps k)"
  "CURRENT_DOMAIN (caps (set_endpoint i f k)) = CURRENT_DOMAIN (caps k)" "PER_CPU (set_endpoint i f k) = PER_CPU k"
  "tss_rsp0 (set_endpoint i f k) = tss_rsp0 k" "FAULTER_RESTARTS (set_endpoint i f k) = FAULTER_RESTARTS k"
  "ENDPOINTS (caps (set_endpoint i f k)) = (ENDPOINTS (caps k))[i := f (ENDPOINTS (caps k) ! i)]"
  by (simp_all add: set_endpoint_def wf_capspace_def)

lemma kunblock_sel [simp]:
  "caps (kunblock t st reply c k) = caps k" "PER_CPU (kunblock t st reply c k) = PER_CPU k"
  "tss_rsp0 (kunblock t st reply c k) = tss_rsp0 k" "FAULTER_RESTARTS (kunblock t st reply c k) = FAULTER_RESTARTS k"
  "SCHED (kunblock t st reply c k) = unblock (unat t) st reply c (SCHED k)"
  by (simp_all add: kunblock_def)

lemma transfer_if_unseen:
  assumes "wf_capspace (caps k)" "transfer_if want src x dst k = (res, k')"
  shows "unseen k k'" "confined (caps k) (caps k')" "fault_budget k' = fault_budget k"
proof -
  have "unseen k k' \<and> confined (caps k) (caps k') \<and> fault_budget k' = fault_budget k"
  proof (cases want)
    case True
    obtain r c where t: "do_cap_transfer src x dst (caps k) = (r, c)" by (rule prod.exhaust)
    then have k': "k' = k\<lparr>caps := c\<rparr>" using assms(2) True by (simp add: transfer_if_def on_caps_def)
    note conf = do_cap_transfer_confined [OF assms(1) t]
    have "ENDPOINTS c = ENDPOINTS (caps k)" "CURRENT_DOMAIN c = CURRENT_DOMAIN (caps k)"
      by (subst conf(3), simp)+
    then show ?thesis using conf(1,2) by (simp add: unseen_def k' fault_budget_def)
  qed (use assms(2) in \<open>simp add: transfer_if_def\<close>)
  then show "unseen k k'" "confined (caps k) (caps k')" "fault_budget k' = fault_budget k" by blast+
qed

text \<open>The peer of a parked endpoint is a blocked task, neither the idle one nor the running one.\<close>

lemma parked_peer:
  assumes "kernel_inv k W" "i < OBJECT_TABLE_SIZE" "ep_state (ENDPOINTS (caps k) ! i) \<noteq> Idle"
  defines "p \<equiv> unat (peer_task (ENDPOINTS (caps k) ! i))"
  shows "p < MAX_TASKS" "blocked (tasks (SCHED k) ! p)" "p \<noteq> 0" "p \<noteq> current (SCHED k)" "p \<in> W"
proof -
  note I = kernel_invD [OF assms(1)]
  show p: "p < MAX_TASKS" "blocked (tasks (SCHED k) ! p)"
    using ipc_invD(1) [OF I(4) assms(2,3)] by (simp_all add: parked_ok_def p_def Let_def)
  then show "p \<noteq> 0" "p \<noteq> current (SCHED k)" "p \<in> W"
    using sched_invD(4) [OF I(3)] I(5) core_invD(5) [OF I(1), of p] unfolding idle_task_def running_def eligible_def
    by metis+
qed

lemma unblock_nth:
  "length (tasks s) = MAX_TASKS \<Longrightarrow> p < MAX_TASKS \<Longrightarrow> tasks (unblock p st reply c s) ! j =
     (if j = p then (tasks s ! p)\<lparr>ipc_status := st, ipc_reply := reply, ipc_reply_cptr := c, blocked := False\<rparr> else tasks s ! j)"
  by (auto simp: unblock_def)

lemma unblock_current [simp]: "current (unblock p st reply c s) = current s"
  by (simp add: unblock_def)

lemma meet_inv:
  fixes st reply :: u64 and c :: u16
  assumes inv: "kernel_inv k W" and i: "i < OBJECT_TABLE_SIZE" "ep_state (ENDPOINTS (caps k) ! i) \<noteq> Idle"
    and tr: "transfer_if want src x dst (set_endpoint i (\<lambda>e. e\<lparr>ep_state := Idle\<rparr>) k) = (res, k1)"
  defines "k' \<equiv> kunblock (peer_task (ENDPOINTS (caps k) ! i)) st reply c k1"
  shows "kernel_inv k' W" "confined (caps k) (caps k')" "fault_budget k' = fault_budget k"
proof -
  let ?ep = "ENDPOINTS (caps k) ! i" and ?k = "set_endpoint i (\<lambda>e. e\<lparr>ep_state := Idle\<rparr>) k"
  let ?s = "unblock (unat (peer_task ?ep)) st reply c (SCHED k)"
  note I = kernel_invD [OF inv] and P = parked_peer [OF inv i]
  have wf: "wf_capspace (caps ?k)" using I(2) by simp
  note T = transfer_if_unseen [OF wf tr]
  have k1: "SCHED k1 = SCHED k" "CURRENT_DOMAIN (caps k1) = CURRENT_DOMAIN (caps k)" "wf_capspace (caps k1)"
    "ENDPOINTS (caps k1) = (ENDPOINTS (caps k))[i := ?ep\<lparr>ep_state := Idle\<rparr>]"
    "kernel_rsp0 (PER_CPU k1) = kernel_rsp0 (PER_CPU k)" "tss_rsp0 k1 = tss_rsp0 k"
    using T(1) I(2) by (simp_all add: unseen_def)
  have len: "length (tasks (SCHED k)) = MAX_TASKS" by (rule sched_invD(1) [OF I(3)])
  note nth = unblock_nth [OF len P(1)]
  have "core_inv k' W"
    unfolding core_inv_def
  proof (intro conjI ballI allI impI)
    show "ipc_inv (ENDPOINTS (caps k')) (SCHED k')"
      using ipc_inv_wake [OF I(4) wf_capspaceD(4) [OF I(2)] len i] k1 by (simp add: k'_def)
    show "sched_inv (SCHED k')" using sched_inv_unblock [OF I(3) P(3)] k1(1) by (simp add: k'_def)
    fix j assume "j \<in> W"
    then show "0 < j" "j < MAX_TASKS" "task_present (tasks (SCHED k') ! j)"
      using core_invD(4) [OF I(1), of j] k1(1) by (auto simp: k'_def nth)
  next
    fix j assume "j < MAX_TASKS" "blocked (tasks (SCHED k') ! j)"
    then show "j \<in> W" using core_invD(5) [OF I(1), of j] k1(1) by (simp add: k'_def nth split: if_splits)
  qed (use k1(3) in \<open>simp add: k'_def\<close>)
  moreover have "running k' = running k" using P(4) k1(1) by (simp add: running_def k'_def nth)
  ultimately show "kernel_inv k' W"
    using inv k1 by (simp add: kernel_inv_def running_ok_def) (simp add: k'_def)
  have "confined (caps k) (caps ?k)" by (rule confined_same) simp_all
  then show "confined (caps k) (caps k')" using confined_trans [OF _ T(2)] by (simp add: k'_def)
  show "fault_budget k' = fault_budget k" using T(3) by (simp add: k'_def fault_budget_def unblock_def)
qed

lemma block_inv:
  fixes oid :: u64
  assumes inv: "kernel_inv k W" and cur: "current (SCHED k) \<noteq> 0"
    and i: "unat oid < OBJECT_TABLE_SIZE" "ep_state (ENDPOINTS (caps k) ! unat oid) = Idle"
    and f: "\<And>e. ep_state (f e) = st \<and> peer_task (f e) = of_nat (current (SCHED k)) \<and>
      peer_domain (f e) = of_nat (current_domain (caps k))"
    and st: "st \<noteq> Idle" "r = (if st = SendWait then BLOCK_SEND else BLOCK_RECV)"
    and bl: "block_current saved r (ucast oid) (set_endpoint (unat oid) f k) = Some k'"
  shows "kernel_inv k' (insert (current (SCHED k)) W)" "confined (caps k) (caps k')" "fault_budget k' = fault_budget k"
proof -
  let ?cur = "current (SCHED k)" and ?k = "set_endpoint (unat oid) f k"
  let ?kp = "?k\<lparr>SCHED := park r (ucast oid) (SCHED k)\<rparr>"
  note I = kernel_invD [OF inv]
  have len: "length (tasks (SCHED k)) = MAX_TASKS" by (rule sched_invD(1) [OF I(3)])
  have el: "task_present (tasks (SCHED k) ! ?cur)" "\<not> blocked (tasks (SCHED k) ! ?cur)"
    using I(5) by (simp_all add: running_def eligible_def)
  have dom: "current_domain (caps k) < MAX_DOMAINS" by (simp add: current_domain_def const_defs)
  let ?e = "f (ENDPOINTS (caps k) ! unat oid)"
  have pt: "unat (peer_task ?e) = ?cur" using f unat_task [OF I(7)] by simp
  have pd: "unat (peer_domain ?e) = min (unat (task_domain (tasks (SCHED k) ! ?cur))) (MAX_DOMAINS - 1)"
    using f unat_domain [OF dom] I(6) by (simp add: current_domain_def running_def)
  have es: "ep_state ?e = st" using f by simp
  have nth: "tasks (park r (ucast oid) (SCHED k)) ! j = (if j = ?cur
      then (tasks (SCHED k) ! j)\<lparr>blocked := True, block_reason := r, wait_ep := ucast oid\<rparr> else tasks (SCHED k) ! j)" for j
    using I(7) len by (simp add: park_def Let_def)
  have core: "core_inv ?kp (insert ?cur W)"
    unfolding core_inv_def
  proof (intro conjI ballI allI impI)
    show "ipc_inv (ENDPOINTS (caps ?kp)) (SCHED ?kp)"
      using ipc_inv_park [OF I(4) wf_capspaceD(4) [OF I(2)] len I(7) el(2) i es st(1) pt pd st(2)] by simp
    show "sched_inv (SCHED ?kp)" using sched_inv_park [OF I(3) cur el(1)] by simp
    fix j assume "j \<in> insert ?cur W"
    then show "0 < j" "j < MAX_TASKS" "task_present (tasks (SCHED ?kp) ! j)"
      using core_invD(4) [OF I(1), of j] cur I(7) el(1) by (auto simp: nth)
  next
    fix j assume "j < MAX_TASKS" "blocked (tasks (SCHED ?kp) ! j)"
    then show "j \<in> insert ?cur W" using core_invD(5) [OF I(1), of j] by (auto simp: nth split: if_splits)
  qed (use I(2) in simp)
  obtain k2 where k2: "switch_next ?kp = Some k2" "k' = k2\<lparr>SCHED := save_rsp ?cur saved (SCHED k2)\<rparr>"
    using bl by (auto simp: block_current_def Let_def split: option.splits)
  from core k2(1) have "kernel_inv k2 (insert ?cur W)" by (rule switch_next_Some)
  then show "kernel_inv k' (insert ?cur W)" unfolding k2(2) by (rule kernel_inv_save_rsp)
  from core k2(1) show "confined (caps k) (caps k')"
    by (rule switch_next_Some) (auto simp: k2(2) set_current_domain_def intro: confined_same)
  from core k2(1) show "fault_budget k' = fault_budget k"
    by (rule switch_next_Some) (simp add: k2(2) fault_budget_def park_def Let_def)
qed

subsection \<open>System calls\<close>

text \<open>The set of tasks with a parked call after a call of the running task with this outcome.\<close>

fun waiting :: "'a outcome \<Rightarrow> nat \<Rightarrow> nat set \<Rightarrow> nat set" where
  "waiting (Done x) cur W = W"
| "waiting Parked cur W = insert cur W"

definition call_ok :: "'d kernel \<Rightarrow> nat set \<Rightarrow> 'a outcome \<Rightarrow> 'd kernel \<Rightarrow> bool" where
  "call_ok k W r k' \<longleftrightarrow> kernel_inv k' (waiting r (current (SCHED k)) W) \<and> confined (caps k) (caps k') \<and>
     fault_budget k' = fault_budget k"

lemma call_ok_refused [simp]: "call_ok k W (Done x) k \<longleftrightarrow> kernel_inv k W"
  by (simp add: call_ok_def)

lemma call_ok_payload:
  assumes "kernel_inv k W" "payload_step k k'"
  shows "call_ok k W (Done x) k'"
proof -
  have "only_payload k k'" using assms(2) by (simp add: payload_step_def)
  then show ?thesis
    using unseen_inv [OF unseen_payload [OF assms(2)] assms(1)] payload_step_confined [OF assms(2)]
    by (simp add: call_ok_def fault_budget_def only_payload_sel(1,11))
qed

lemma ep_send_ok:
  assumes inv: "kernel_inv k W" and cur: "current (SCHED k) \<noteq> 0"
    and eq: "ep_send saved (current_domain (caps k)) oid msg xfer r k = Some (out, k')"
  shows "call_ok k W out k'"
proof (cases "OBJECT_TABLE_SIZE \<le> unat oid \<or> (xfer \<noteq> CPTR_NONE \<and> (\<not> contains r GRANT_CAP \<or> CAP_TABLE_SLOTS \<le> unat xfer))
    \<or> ep_state (ENDPOINTS (caps k) ! unat oid) = SendWait")
  case True
  then have "\<exists>x. out = Done x \<and> k' = k" using eq by (auto simp: ep_send_def Let_def split: if_splits)
  then show ?thesis using inv by auto
next
  case False
  then have i: "unat oid < OBJECT_TABLE_SIZE" by simp
  let ?ep = "ENDPOINTS (caps k) ! unat oid"
  show ?thesis
  proof (cases "ep_state ?ep = RecvWait")
    case True
    obtain res k1 where tr: "transfer_if (xfer \<noteq> CPTR_NONE) (current_domain (caps k)) xfer (unat (peer_domain ?ep))
        (set_endpoint (unat oid) (\<lambda>e. e\<lparr>ep_state := Idle\<rparr>) k) = (res, k1)" by (rule prod.exhaust)
    have "\<exists>x st reply c. out = Done x \<and> k' = kunblock (peer_task ?ep) st reply c k1"
      using eq False True tr by (auto simp: ep_send_def Let_def split: sum.splits if_splits)
    then show ?thesis using meet_inv [OF inv i _ tr] True by (auto simp: call_ok_def)
  next
    case False2: False
    with False have idle: "ep_state ?ep = Idle" by (cases "ep_state ?ep") auto
    then obtain f where "block_current saved BLOCK_SEND (ucast oid) (set_endpoint (unat oid) f k) = Some k'" "out = Parked"
      "\<And>e. ep_state (f e) = SendWait \<and> peer_task (f e) = of_nat (current (SCHED k)) \<and>
        peer_domain (f e) = of_nat (current_domain (caps k))"
      using eq False by (auto simp: ep_send_def current_task_def Let_def split: if_splits)
    then show ?thesis
      using block_inv [OF inv cur i idle, of f SendWait BLOCK_SEND saved k'] by (simp add: call_ok_def)
  qed
qed

lemma ep_recv_ok:
  assumes inv: "kernel_inv k W" and cur: "current (SCHED k) \<noteq> 0"
    and eq: "ep_recv saved (current_domain (caps k)) oid k = Some (out, k')"
  shows "call_ok k W out k'"
proof (cases "OBJECT_TABLE_SIZE \<le> unat oid \<or> ep_state (ENDPOINTS (caps k) ! unat oid) = RecvWait")
  case True
  then have "\<exists>x. out = Done x \<and> k' = k" using eq by (auto simp: ep_recv_def Let_def split: if_splits)
  then show ?thesis using inv by auto
next
  case False
  then have i: "unat oid < OBJECT_TABLE_SIZE" by simp
  let ?ep = "ENDPOINTS (caps k) ! unat oid"
  show ?thesis
  proof (cases "ep_state ?ep = SendWait")
    case True
    obtain res k1 where tr: "transfer_if (xfer_cptr ?ep \<noteq> CPTR_NONE) (unat (peer_domain ?ep)) (xfer_cptr ?ep)
        (current_domain (caps k)) (set_endpoint (unat oid) (\<lambda>e. e\<lparr>ep_state := Idle\<rparr>) k) = (res, k1)" by (rule prod.exhaust)
    have "\<exists>x st reply c. out = Done x \<and> k' = kunblock (peer_task ?ep) st reply c k1"
      using eq False True tr by (auto simp: ep_recv_def Let_def split: sum.splits if_splits)
    then show ?thesis using meet_inv [OF inv i _ tr] True by (auto simp: call_ok_def)
  next
    case False2: False
    with False have idle: "ep_state ?ep = Idle" by (cases "ep_state ?ep") auto
    then obtain f where "block_current saved BLOCK_RECV (ucast oid) (set_endpoint (unat oid) f k) = Some k'" "out = Parked"
      "\<And>e. ep_state (f e) = RecvWait \<and> peer_task (f e) = of_nat (current (SCHED k)) \<and>
        peer_domain (f e) = of_nat (current_domain (caps k))"
      using eq False by (auto simp: ep_recv_def current_task_def Let_def split: if_splits)
    then show ?thesis
      using block_inv [OF inv cur i idle, of f RecvWait BLOCK_RECV saved k'] by (simp add: call_ok_def)
  qed
qed

lemma cap_invoke_ipc_ok:
  assumes inv: "kernel_inv k W" and cur: "current (SCHED k) \<noteq> 0"
    and eq: "cap_invoke_ipc E saved cptr method arg xfer k = Some (out, k')"
  shows "call_ok k W out k'"
proof (cases "resolve (current_domain (caps k)) cptr method (caps k)")
  case (Inl st)
  then have "\<exists>x. out = Done x \<and> k' = k" using eq by (auto simp: cap_invoke_ipc_def Let_def)
  then show ?thesis using inv by auto
next
  case (Inr q)
  obtain kd oid r where q: "q = (kd, oid, r)" by (cases q)
  consider "kd = Endpoint \<and> method = E_SEND" | "kd = Endpoint \<and> method = E_RECV" "\<not> (kd = Endpoint \<and> method = E_SEND)"
    | "\<not> (kd = Endpoint \<and> method = E_SEND)" "\<not> (kd = Endpoint \<and> method = E_RECV)" by blast
  then show ?thesis
  proof cases
    case 1
    then show ?thesis using eq Inr q ep_send_ok [OF inv cur] by (simp add: cap_invoke_ipc_def Let_def)
  next
    case 2
    then show ?thesis using eq Inr q ep_recv_ok [OF inv cur] by (auto simp: cap_invoke_ipc_def Let_def)
  next
    case 3
    obtain res k1 where d: "dispatch_method E (current_domain (caps k)) kd oid r method arg k = (res, k1)" by (rule prod.exhaust)
    then have "\<exists>x. out = Done x \<and> (k' = k \<or> k' = k1)"
      using eq Inr q 3 by (auto simp: cap_invoke_ipc_def Let_def case_prod_beta split: if_splits)
    moreover have "call_ok k W (Done x) k1" for x by (rule call_ok_payload [OF inv payload_step_dispatch [OF d]])
    ultimately show ?thesis using inv by auto
  qed
qed

lemma syscall_dispatch_ok:
  assumes inv: "kernel_inv k W" and cur: "current (SCHED k) \<noteq> 0"
    and eq: "syscall_dispatch E saved nr cptr method a0 a1 a2 xfer k = Some (out, k')"
  shows "call_ok k W out k'"
proof -
  let ?k = "set_reply_cptr CPTR_NULL k"
  have inv': "kernel_inv ?k W" by (rule unseen_inv [OF unseen_reply(1) inv])
  have call_ok_reply: "call_ok k W (Done y) (set_reply_cptr c k2)" if "call_ok ?k W (Done x) k2" for x y c k2
    using that unseen_inv [OF unseen_reply(1), of k2 W c] by (simp add: call_ok_def) (simp add: set_reply_cptr_def fault_budget_def)
  show ?thesis
  proof (cases "nr \<noteq> SYS_CAP_INVOKE \<or> 0xffff < cptr \<or> 0xffff < method \<or> 0xffff < xfer")
    case True
    then have "\<exists>x. out = Done x \<and> k' = ?k" using eq by (auto simp: syscall_dispatch_def Let_def split: if_splits)
    then show ?thesis using inv' by (auto simp: call_ok_def) (simp add: set_reply_cptr_def fault_budget_def)
  next
    case False
    then obtain r k2 where ipc: "cap_invoke_ipc E saved (ucast cptr) (ucast method) a0 (ucast xfer) ?k = Some (r, k2)"
      and out: "case r of Parked \<Rightarrow> out = Parked \<and> k' = k2
        | Done res \<Rightarrow> out = Done (fst (syscall_return res k2)) \<and> k' = snd (syscall_return res k2)"
      using eq by (auto simp: syscall_dispatch_def Let_def case_prod_beta split: option.splits outcome.splits)
    have ok: "call_ok ?k W r k2" using cap_invoke_ipc_ok [OF inv' _ ipc] cur by simp
    show ?thesis
    proof (cases r)
      case (Done res)
      then show ?thesis using out ok call_ok_reply by (simp add: syscall_return_def case_prod_beta)
    next
      case Parked
      then show ?thesis using out ok by (simp add: call_ok_def) (simp add: set_reply_cptr_def fault_budget_def)
    qed
  qed
qed

section \<open>The transition system\<close>

text \<open>
  The operations of the kernel itself on its capability space: creating an object of any kind,
  delegating from the root domain.
\<close>

inductive root_op :: "(capspace \<Rightarrow> u16 option \<times> capspace) \<Rightarrow> bool" where
  "root_op init_root"
| "root_op create_notification"
| "root_op create_endpoint"
| "root_op mint_timeslice"
| "root_op (mint_extent lba len hash)"
| "root_op (mint_extent_mapped lba len hash frame_phys)"
| "root_op (create_device_queue v magic lba)"
| "root_op (delegate_from_root d c m b)"

text \<open>
  One step. A parked call resumes with interrupts off, so a tick or a fault finds a running task
  that is not in the middle of a call. User code, devices and the code of kernel tasks may do
  anything to memory, to devices and to the contents of the kernel stacks: the rule \<open>world\<close>.
\<close>

inductive kstep :: "'d env \<Rightarrow> 'd kernel \<times> nat set \<Rightarrow> 'd kernel \<times> nat set \<Rightarrow> bool" for E :: "'d env" where
  tick: "current (SCHED k) \<notin> W \<Longrightarrow> schedule_tick E p k = Some (p', k') \<Longrightarrow> kstep E (k, W) (k', W)"
| call: "current (SCHED k) \<noteq> 0 \<Longrightarrow> current (SCHED k) \<notin> W \<Longrightarrow>
    syscall_dispatch E saved nr cptr method a0 a1 a2 xfer k = Some (r, k') \<Longrightarrow>
    kstep E (k, W) (k', waiting r (current (SCHED k)) W)"
| resume: "current (SCHED k) \<in> W \<Longrightarrow> syscall_resume k = (ret, k') \<Longrightarrow> kstep E (k, W) (k', W - {current (SCHED k)})"
| fault: "current (SCHED k) \<noteq> 0 \<Longrightarrow> current (SCHED k) \<notin> W \<Longrightarrow> terminate_current E k = Some (p, k') \<Longrightarrow>
    kstep E (k, W) (k', W)"
| admit: "kstep E (k, W) (snd (admit E entry cptr period rel budget k), W)"
| admit_user: "kstep E (k, W) (snd (admit_user E entry tp mem_cptr cptr d period rel budget k), W)"
| root: "root_op f \<Longrightarrow> on_caps f k = (r, k') \<Longrightarrow> kstep E (k, W) (k', W)"
| revoke: "on_caps (revoke_timeslice c) k = (st, k') \<Longrightarrow> kstep E (k, W) (k', W)"
| invoke: "cap_invoke_in E d cptr method arg k = (res, k') \<Longrightarrow> kstep E (k, W) (k', W)"
| register: "kstep E (k, W) (register_faulter entry tp budget k, W)"
| world: "kstep E (k, W) (k\<lparr>mach := M, kmem := m\<rparr>, W)"

lemma create_device_queue_eq:
  "create_device_queue v magic lba s = (res, s') \<Longrightarrow>
     (res = None \<and> s' = s) \<or> (\<exists>x. create_and_mint DeviceQueue (\<lambda>i s. s\<lparr>DEVQUEUES := (DEVQUEUES s)[i := x]\<rparr>)
       (INVOKE OR READ OR WRITE OR MAP OR DELEGATE) s = (res, s'))"
  by (auto simp: create_device_queue_def split: option.splits)

lemma root_op_cases:
  assumes "root_op f" "f s = (res, s')"
  obtains (none) "s' = s" | (minted) kd p r where "payload_ok p" "create_and_mint kd p r s = (res, s')"
  | (delegated) d c m b where "delegate_from_root d c m b s = (res, s')"
  using assms(1)
proof cases
  case 1
  show ?thesis by (rule minted [OF payload_oks(1) assms(2) [unfolded 1 init_root_def]])
next
  case 2
  show ?thesis by (rule minted [OF payload_oks(1) assms(2) [unfolded 2 create_notification_def]])
next
  case 3
  show ?thesis by (rule minted [OF payload_oks(1) assms(2) [unfolded 3 create_endpoint_def]])
next
  case 4
  show ?thesis by (rule minted [OF payload_oks(1) assms(2) [unfolded 4 mint_timeslice_def]])
next
  case (5 lba len hash)
  show ?thesis by (rule minted [OF payload_oks(2) assms(2) [unfolded 5 mint_extent_def mint_extent_inner_def]])
next
  case (6 lba len hash frame_phys)
  show ?thesis by (rule minted [OF payload_oks(2) assms(2) [unfolded 6 mint_extent_mapped_def mint_extent_inner_def]])
next
  case (7 v magic lba)
  then show ?thesis using create_device_queue_eq [of v magic lba s res s'] assms(2) none minted [OF payload_oks(3)] by blast
next
  case (8 d c m b)
  show ?thesis by (rule delegated [OF assms(2) [unfolded 8]])
qed

lemma root_op_inv:
  assumes "wf_capspace (caps k)" "root_op f" "on_caps f k = (r, k')"
  shows "unseen k k'" "confined (caps k) (caps k')"
proof -
  obtain res c where f: "f (caps k) = (res, c)" by (rule prod.exhaust)
  have "wf_capspace c \<and> confined (caps k) c \<and> ENDPOINTS c = ENDPOINTS (caps k) \<and> CURRENT_DOMAIN c = CURRENT_DOMAIN (caps k)"
    using assms(2) f
  proof (cases rule: root_op_cases)
    case none
    then show ?thesis using assms(1) by simp
  next
    case (minted kd p r)
    note m = assms(1) minted
    show ?thesis using create_and_mint_wf [OF m] create_and_mint_confined [OF m] create_and_mint_unseen [OF m] by simp
  next
    case (delegated d c m b)
    then show ?thesis using delegate_from_root_confined [OF assms(1) delegated] delegate_from_root_unseen [OF delegated] by simp
  qed
  then show "unseen k k'" "confined (caps k) (caps k')"
    using assms(3) f by (auto simp: on_caps_def unseen_def)
qed

lemma syscall_resume_inv:
  assumes "kernel_inv k W" "syscall_resume k = (ret, k')"
  shows "kernel_inv k' (W - {current (SCHED k)})" "caps k' = caps k"
proof -
  obtain c where k': "k' = set_reply_cptr c k"
    using assms(2) by (auto simp: syscall_resume_def syscall_return_def Let_def split: prod.splits)
  then have "kernel_inv k' W" using unseen_inv [OF unseen_reply(1) assms(1)] by simp
  moreover have "\<not> blocked (tasks (SCHED k') ! current (SCHED k))"
    using kernel_invD(5) [OF assms(1)] by (simp add: k' running_def eligible_def)
  ultimately show "kernel_inv k' (W - {current (SCHED k)})" by (auto simp: kernel_inv_def core_inv_def)
  show "caps k' = caps k" by (simp add: k')
qed

lemma kstep_inv:
  assumes "kstep E (k, W) (k', W')" "kernel_inv k W"
  shows "kernel_inv k' W' \<and> confined (caps k) (caps k')"
  using assms(1)
proof cases
  case (tick p p')
  then show ?thesis using schedule_tick_inv [OF assms(2) tick(3)] by simp
next
  case (call saved nr cptr mth a0 a1 a2 xfer r)
  then show ?thesis using syscall_dispatch_ok [OF assms(2) call(2,4)] by (simp add: call_ok_def)
next
  case (resume ret)
  then show ?thesis using syscall_resume_inv [OF assms(2) resume(3)] by simp
next
  case (fault p)
  then show ?thesis using terminate_current_inv [OF assms(2) fault(2-4)] by simp
next
  case (admit entry cptr period rel budget)
  then show ?thesis using admitted_inv(2) [OF admit_admitted assms(2)] by (simp add: admitted_caps(1) [OF admit_admitted])
next
  case (admit_user entry tp mem_cptr cptr d period rel budget)
  then show ?thesis using admitted_inv(2) [OF admit_user_admitted assms(2)]
    by (simp add: admitted_caps(1) [OF admit_user_admitted])
next
  case (root f r)
  note R = root_op_inv [OF kernel_invD(2) [OF assms(2)] root(2,3)]
  then show ?thesis using unseen_inv [OF R(1) assms(2)] root(1) by simp
next
  case (revoke c st)
  obtain r s where rv: "revoke_timeslice c (caps k) = (r, s)" by (rule prod.exhaust)
  note R = revoke_timeslice_confined [OF kernel_invD(2) [OF assms(2)] rv]
  have "ENDPOINTS s = ENDPOINTS (caps k)" "CURRENT_DOMAIN s = CURRENT_DOMAIN (caps k)" by (subst R(3), simp)+
  then have "unseen k k'" "caps k' = s" 
    using unseen_caps(1,2) [OF rv revoke(2)] R(1) by simp_all
  then show ?thesis using unseen_inv [OF _ assms(2)] R(2) revoke by simp
next
  case (invoke d cptr mth arg res)
  then show ?thesis using call_ok_payload [OF assms(2) payload_step_invoke_in [OF invoke(2)]] by (simp add: call_ok_def)
next
  case (register entry tp budget)
  then show ?thesis using unseen_inv [OF _ assms(2), of k'] by (simp add: register_faulter_def unseen_def)
next
  case (world M m)
  then show ?thesis using unseen_inv [OF unseen_world assms(2)] by simp
qed

lemma syscall_resume_budget: "syscall_resume k = (ret, k') \<Longrightarrow> fault_budget k' = fault_budget k"
  by (auto simp: syscall_resume_def syscall_return_def set_reply_cptr_def fault_budget_def Let_def split: prod.splits)

lemma admitted_num: "admitted k k' \<Longrightarrow> num (SCHED k') \<le> num (SCHED k) + 1"
  by (auto simp: admitted_def install_task_def)

lemma terminate_current_budget:
  assumes "kernel_inv k W" "current (SCHED k) \<noteq> 0" "current (SCHED k) \<notin> W" "terminate_current E k = Some (p, k')"
  shows "fault_budget k' < fault_budget k"
proof -
  let ?cur = "current (SCHED k)"
  let ?d = "task_domain (tasks (SCHED k) ! ?cur)"
  let ?k1 = "k\<lparr>SCHED := free_current (SCHED k)\<rparr>"
  let ?k2 = "reap_domain E ?d (of_nat ?cur) ?k1"
  note I = kernel_invD [OF assms(1)]
  have "core_inv ?k2 W" by (rule core_inv_reap [OF assms(1-3)])
  then have c3: "core_inv (on_domain_death E ?d ?k2) W" by (rule on_domain_death_inv)
  have wf: "wf_capspace (caps ?k1)" using I(2) by simp
  note reap = reap_domain_caps [OF wf, of E ?d "of_nat ?cur"]
  have "0 < num (SCHED k)"
    using sched_invD(3,4) [OF I(3)] sched_invD(1) [OF I(3)]
    by (metis MAX_TASKS_def filter_empty_conv idle_task_def length_greater_0_conv nth_mem zero_less_numeral)
  then have b2: "fault_budget ?k2 + 1 = fault_budget k" using reap(3,6) by (simp add: fault_budget_def free_current_def Let_def)
  have "fault_budget (on_domain_death E ?d ?k2) \<le> fault_budget ?k2" using reap(1)
  proof (cases rule: on_domain_death_cases [where d = ?d and E = E])
    case (restarted k3)
    then have "unat (FAULTER_RESTARTS k3) + 1 = unat (FAULTER_RESTARTS ?k2)" by (simp add: unat_minus_one unat_gt_0)
    then show ?thesis
      using admitted_num [OF restarted(6)] admitted_caps(5) [OF restarted(6)] restarted(3) by (simp add: fault_budget_def unseen_def)
  qed simp
  moreover have "switch_next (on_domain_death E ?d ?k2) = Some k'"
    using assms(4) by (auto simp: terminate_current_def Let_def split: option.splits)
  with c3 have "fault_budget k' = fault_budget (on_domain_death E ?d ?k2)" by (rule switch_next_Some) (simp add: fault_budget_def)
  ultimately show ?thesis using b2 by simp
qed

lemma ksteps_inv:
  assumes "(kstep E)\<^sup>*\<^sup>* x y" "kernel_inv (fst x) (snd x)"
  shows "kernel_inv (fst y) (snd y) \<and> confined (caps (fst x)) (caps (fst y))"
  using assms(1)
proof (induction rule: rtranclp_induct)
  case base
  then show ?case using assms(2) by simp
next
  case (step y z)
  then have "kernel_inv (fst z) (snd z) \<and> confined (caps (fst y)) (caps (fst z))"
    using kstep_inv [of E "fst y" "snd y" "fst z" "snd z"] by simp
  then show ?case using step.IH confined_trans by blast
qed

end
