(* ===== verification/Scenario.thy ===== *)
theory Scenario
  imports KernelInv
begin

text \<open>
  A concrete run: a kernel just booted, with one endpoint that the root domain and domain 1 may
  invoke, admits a ring-3 task in domain 1; the timer switches to it; it receives on the endpoint
  and blocks. The theorems on reachable states are applied to it.
\<close>

definition ipc_entry :: CapEntry where
  "ipc_entry = \<lparr>object_id = 0, rights = INVOKE OR READ OR WRITE, epoch = 0, type_tag = Endpoint, badge = 0\<rparr>"

definition ipc_table :: CapTable where
  "ipc_table = CapTable_new\<lparr>slots := (slots CapTable_new)[0 := Some ipc_entry]\<rparr>"

definition ipc_capspace :: capspace where
  "ipc_capspace = capspace_initial\<lparr>OBJECTS := snd (create_object ObjectTable_new Endpoint),
     DOMAINS := (DOMAINS capspace_initial)[0 := ipc_table, Suc 0 := ipc_table]\<rparr>"

definition boot_kernel :: "unit kernel" where
  "boot_kernel = demo_kernel\<lparr>caps := ipc_capspace, SCHED := sched_init (stack_top demo_env) SCHED_initial\<rparr>"

lemma ipc_meta: "object_meta (OBJECTS ipc_capspace) 0 = \<lparr>kind = Endpoint, current_epoch = 0, present = True\<rparr>"
  by (simp add: ipc_capspace_def create_object_new object_meta_update OBJECT_TABLE_SIZE_def)

lemma wf_ipc_capspace: "wf_capspace ipc_capspace"
proof -
  have t: "wf_caps ipc_table" by (simp add: ipc_table_def wf_caps_def CapTable_new_def)
  have "wf_capspace (capspace_initial\<lparr>OBJECTS := snd (create_object ObjectTable_new Endpoint)\<rparr>)"
    using wf_capspace_initial by (simp add: wf_capspace_def create_object_new)
  from wf_set_table [OF wf_set_table [OF this t, of 0] t, of "Suc 0"] show ?thesis
    by (simp add: ipc_capspace_def)
qed

lemma ipc_valid: "valid_cap (OBJECTS ipc_capspace) ipc_entry"
  by (simp add: valid_cap_def ipc_entry_def ipc_meta OBJECT_TABLE_SIZE_def)

lemma ipc_cap_at: "d < 2 \<Longrightarrow> cap_at (DOMAINS ipc_capspace ! d) 0 = Some ipc_entry"
  by (cases d) (simp_all add: ipc_capspace_def ipc_table_def capspace_initial_def const_defs cap_at_update)

lemma ipc_invoke: "contains (rights ipc_entry) INVOKE"
  by (simp add: ipc_entry_def contains_def const_defs)

lemma ipc_endpoint: "e < OBJECT_TABLE_SIZE \<Longrightarrow> ENDPOINTS ipc_capspace ! e = EP_EMPTY"
  by (simp add: ipc_capspace_def capspace_initial_def)

section \<open>Admission\<close>

definition admit_result :: "nat option \<times> unit kernel" where
  "admit_result = admit_user demo_env 0x400000 0x800000 3 0 1 5000000 5000000 1000000 boot_kernel"

definition admitted_kernel :: "unit kernel" where
  "admitted_kernel = snd admit_result"

lemma boot_tasks:
  "i < MAX_TASKS \<Longrightarrow> tasks (SCHED boot_kernel) ! i =
     (if i = 0 then Task_EMPTY\<lparr>task_present := True, runnable := True, kstack_top := stack_top demo_env\<rparr> else Task_EMPTY)"
  by (cases i) (simp_all add: boot_kernel_def sched_init_def SCHED_initial_def Task_EMPTY_def)

lemma boot_simps [simp]:
  "caps boot_kernel = ipc_capspace" "num (SCHED boot_kernel) = 1" "current (SCHED boot_kernel) = 0"
  "length (tasks (SCHED boot_kernel)) = MAX_TASKS" "TICKS boot_kernel = 0" "TICK_NS boot_kernel = 1000000"
  "FAULTER_RESTARTS boot_kernel = 0"
  by (simp_all add: boot_kernel_def sched_init_def SCHED_initial_def demo_kernel_def)

lemma boot_free_slot: "free_slot (SCHED boot_kernel) = Some 1"
proof -
  have "[1..<MAX_TASKS] = [1, 2, 3, 4]" by (simp add: MAX_TASKS_def upt_rec)
  then show ?thesis using boot_tasks [of 1] by (simp add: free_slot_def MAX_TASKS_def)
qed

lemma boot_admit_check: "admit_check 0 ipc_capspace = Ok"
  using ipc_cap_at [of 0] ipc_valid ipc_invoke by (simp add: admit_check_def invoke_eq)

lemma admit_result_eq:
  "\<exists>p m. admit_result = (Some 1, boot_kernel\<lparr>kmem := m, SCHED := install_task 1
     (new_task 0 p (task_kstack_top demo_env 1) 5000000 5000000 1000000 1) (SCHED boot_kernel)\<rparr>)"
  by (simp add: admit_result_def admit_user_def boot_admit_check boot_free_slot know_def now_ns_def saturating_mul_def
      Let_def case_prod_beta) blast

lemma admitted_eq:
  obtains p m where "admitted_kernel = boot_kernel\<lparr>kmem := m, SCHED := install_task 1
    (new_task 0 p (task_kstack_top demo_env 1) 5000000 5000000 1000000 1) (SCHED boot_kernel)\<rparr>"
    "admit_result = (Some 1, admitted_kernel)"
proof -
  obtain p m where "admit_result = (Some 1, boot_kernel\<lparr>kmem := m, SCHED := install_task 1
     (new_task 0 p (task_kstack_top demo_env 1) 5000000 5000000 1000000 1) (SCHED boot_kernel)\<rparr>)"
    using admit_result_eq by blast
  then show ?thesis using that unfolding admitted_kernel_def by (metis snd_conv)
qed

lemma switch_next_eq:
  assumes "sched_inv (SCHED k)" "know k \<noteq> - 1"
  shows "switch_next k = (let s = release_all (know k) (SCHED k) in
    Some (publish_current (k\<lparr>SCHED := s\<lparr>current := pick_next s\<rparr>\<rparr>)))"
  using roll_deadlines_eq [OF assms(2) sched_invD(1) [OF assms(1)]] by (simp add: switch_next_def Let_def)

lemma pick_only:
  assumes "i \<in> {1..<MAX_TASKS}" "\<And>j. j \<in> {1..<MAX_TASKS} \<Longrightarrow> eligible (tasks s ! j) \<longleftrightarrow> j = i"
  shows "pick_next s = i"
  using pick_next_spec [of s] assms by (auto simp: edf_def split: if_splits)

lemma pick_idle:
  assumes "\<And>j. j \<in> {1..<MAX_TASKS} \<Longrightarrow> \<not> eligible (tasks s ! j)"
  shows "pick_next s = 0"
  using pick_next_spec [of s] assms by (auto split: if_splits)

lemma admitted_simps [simp]:
  "caps admitted_kernel = ipc_capspace" "num (SCHED admitted_kernel) = 2" "current (SCHED admitted_kernel) = 0"
  "TICKS admitted_kernel = 0" "TICK_NS admitted_kernel = 1000000" "FAULTER_RESTARTS admitted_kernel = 0"
  "length (tasks (SCHED admitted_kernel)) = MAX_TASKS"
proof -
  obtain p m where eq: "admitted_kernel = boot_kernel\<lparr>kmem := m, SCHED := install_task 1
      (new_task 0 p (task_kstack_top demo_env 1) 5000000 5000000 1000000 1) (SCHED boot_kernel)\<rparr>"
    by (rule admitted_eq)
  show "caps admitted_kernel = ipc_capspace" "num (SCHED admitted_kernel) = 2" "current (SCHED admitted_kernel) = 0"
    "TICKS admitted_kernel = 0" "TICK_NS admitted_kernel = 1000000" "FAULTER_RESTARTS admitted_kernel = 0"
    "length (tasks (SCHED admitted_kernel)) = MAX_TASKS"
    unfolding eq by (simp_all add: install_task_def)
qed

lemma admitted_tasks:
  "\<exists>p. tasks (SCHED admitted_kernel) ! 1 = new_task 0 p (task_kstack_top demo_env 1) 5000000 5000000 1000000 1"
  "i < MAX_TASKS \<Longrightarrow> eligible (tasks (SCHED admitted_kernel) ! i) \<longleftrightarrow> i \<le> 1"
  "sched_inv (SCHED admitted_kernel)"
proof -
  obtain p m where eq: "admitted_kernel = boot_kernel\<lparr>kmem := m, SCHED := install_task 1
      (new_task 0 p (task_kstack_top demo_env 1) 5000000 5000000 1000000 1) (SCHED boot_kernel)\<rparr>"
    by (rule admitted_eq)
  have inv: "sched_inv (SCHED boot_kernel)" using sched_inv_init by (simp add: boot_kernel_def)
  show "sched_inv (SCHED admitted_kernel)"
    using sched_inv_install [OF inv boot_free_slot, of 5000000] by (simp add: eq)
  show "\<exists>p. tasks (SCHED admitted_kernel) ! 1 = new_task 0 p (task_kstack_top demo_env 1) 5000000 5000000 1000000 1"
    by (simp add: eq install_task_def MAX_TASKS_def) blast
  show "i < MAX_TASKS \<Longrightarrow> eligible (tasks (SCHED admitted_kernel) ! i) \<longleftrightarrow> i \<le> 1"
    by (auto simp: eq install_task_def nth_list_update boot_tasks eligible_def MAX_TASKS_def split: if_splits)
qed

section \<open>The timer\<close>

definition ticked_kernel :: "unit kernel" where
  "ticked_kernel = snd (the (schedule_tick demo_env 0x9000 admitted_kernel))"

lemma eligible_release:
  "length (tasks s) = MAX_TASKS \<Longrightarrow> i < MAX_TASKS \<Longrightarrow> eligible (tasks s ! i) \<Longrightarrow> eligible (tasks (release_all now s) ! i)"
  by (simp add: release_all_nth eligible_def) (simp add: released_def)

lemma eligible_released:
  "sched_inv s \<Longrightarrow> i < MAX_TASKS \<Longrightarrow> eligible (tasks (release_all now s) ! i) \<longleftrightarrow> eligible (tasks s ! i)"
  using eligible_release [of s i now] sched_invD(1,5) [of s]
  by (auto simp: eligible_def release_all_nth split: if_splits)

lemma ticked:
  shows "\<exists>p. schedule_tick demo_env 0x9000 admitted_kernel = Some (p, ticked_kernel)"
    "current (SCHED ticked_kernel) = 1" "caps ticked_kernel = set_current_domain 1 ipc_capspace"
    "task_domain (tasks (SCHED ticked_kernel) ! 1) = 1" "num (SCHED ticked_kernel) = 2" "know ticked_kernel = 1000000"
    "FAULTER_RESTARTS ticked_kernel = 0" "sched_inv (SCHED ticked_kernel)"
    "i < MAX_TASKS \<Longrightarrow> eligible (tasks (SCHED ticked_kernel) ! i) \<longleftrightarrow> i \<le> 1"
proof -
  define k where "k = admitted_kernel\<lparr>TICKS := 1, mach := eoi (host demo_env) (LAPIC_VIRT admitted_kernel) (mach admitted_kernel),
    SCHED := save_rsp 0 0x9000 (SCHED admitted_kernel)\<rparr>"
  let ?s = "release_all (know k) (SCHED k)"
  note A = admitted_tasks
  have inv: "sched_inv (SCHED k)" using sched_inv_save_rsp [OF A(3)] by (simp add: k_def)
  have now: "know k = 1000000" by (simp add: k_def know_def now_ns_def saturating_mul_def)
  have el: "eligible (tasks (SCHED k) ! i) \<longleftrightarrow> i \<le> 1" if "i < MAX_TASKS" for i
    using A(2) [OF that] that by (simp add: k_def save_rsp_nth eligible_def)
  have el': "eligible (tasks ?s ! i) \<longleftrightarrow> i \<le> 1" if "i < MAX_TASKS" for i
    using eligible_released [OF inv that] el [OF that] by simp
  have pick: "pick_next ?s = 1" by (rule pick_only) (use el' in \<open>auto simp: MAX_TASKS_def\<close>)
  have sw: "switch_next k = Some (publish_current (k\<lparr>SCHED := ?s\<lparr>current := 1\<rparr>\<rparr>))"
    using switch_next_eq [OF inv] pick now by (simp add: Let_def)
  have "schedule_tick demo_env 0x9000 admitted_kernel = (case switch_next k of None \<Rightarrow> None | Some k \<Rightarrow> Some (current_rsp_of k, k))"
    by (simp add: schedule_tick_def k_def Let_def)
  then have st: "schedule_tick demo_env 0x9000 admitted_kernel =
      Some (current_rsp_of (publish_current (k\<lparr>SCHED := ?s\<lparr>current := 1\<rparr>\<rparr>)), publish_current (k\<lparr>SCHED := ?s\<lparr>current := 1\<rparr>\<rparr>))"
    using sw by simp
  then have t: "ticked_kernel = publish_current (k\<lparr>SCHED := ?s\<lparr>current := 1\<rparr>\<rparr>)" by (simp add: ticked_kernel_def)
  show "\<exists>p. schedule_tick demo_env 0x9000 admitted_kernel = Some (p, ticked_kernel)" using st t by simp
  have dom: "task_domain (tasks ?s ! 1) = 1"
    using A(1) by (auto simp: release_all_nth k_def save_rsp_nth MAX_TASKS_def)
  show "current (SCHED ticked_kernel) = 1" "task_domain (tasks (SCHED ticked_kernel) ! 1) = 1"
    "caps ticked_kernel = set_current_domain 1 ipc_capspace" "num (SCHED ticked_kernel) = 2" "FAULTER_RESTARTS ticked_kernel = 0"
    using dom by (simp_all add: t) (simp_all add: k_def)
  show "sched_inv (SCHED ticked_kernel)"
    using sched_inv_current [OF sched_inv_release_all [OF inv], of 1 "know k"] by (simp add: t MAX_TASKS_def)
  show "know ticked_kernel = 1000000"
    using now by (simp add: t know_def publish_current_def set_kernel_stack_def Let_def)
  show "i < MAX_TASKS \<Longrightarrow> eligible (tasks (SCHED ticked_kernel) ! i) \<longleftrightarrow> i \<le> 1" using el' by (simp add: t)
qed

section \<open>The receive\<close>

lemma block_current_endpoints:
  "block_current saved r e k = Some k' \<Longrightarrow> ENDPOINTS (caps k') = ENDPOINTS (caps k)"
  by (auto simp: block_current_def switch_next_def Let_def set_current_domain_def split: option.splits)

lemma block_current_domains:
  "block_current saved r e k = Some k' \<Longrightarrow> DOMAINS (caps k') = DOMAINS (caps k)"
  by (auto simp: block_current_def switch_next_def Let_def set_current_domain_def split: option.splits)

lemma block_current_exists:
  assumes "sched_inv (SCHED k)" "know k \<noteq> - 1" "current (SCHED k) \<noteq> 0" "task_present (tasks (SCHED k) ! current (SCHED k))"
  shows "\<exists>k'. block_current saved r e k = Some k'"
proof -
  let ?k = "k\<lparr>SCHED := park r e (SCHED k)\<rparr>"
  have "sched_inv (SCHED ?k)" using sched_inv_park [OF assms(1,3,4)] by simp
  moreover have "know ?k \<noteq> - 1" using assms(2) by (simp add: know_def)
  ultimately have "\<exists>k'. switch_next ?k = Some k'" using switch_next_eq [of ?k] by (simp add: Let_def)
  then show ?thesis by (auto simp: block_current_def Let_def)
qed

definition receive :: "unit kernel \<Rightarrow> (SyscallRet outcome \<times> unit kernel) option" where
  "receive k = syscall_dispatch demo_env 0x9000 SYS_CAP_INVOKE 0 (ucast E_RECV) 0 0 0 CPTR_NULL k"

definition parked_kernel :: "unit kernel" where
  "parked_kernel = snd (the (receive ticked_kernel))"

lemma parked:
  "receive ticked_kernel = Some (Parked, parked_kernel)"
  "ENDPOINTS (caps parked_kernel) ! 0 = EP_EMPTY\<lparr>ep_state := RecvWait, peer_task := 1, peer_domain := 1\<rparr>"
  "DOMAINS (caps parked_kernel) = DOMAINS ipc_capspace"
proof -
  let ?k = "set_reply_cptr CPTR_NULL ticked_kernel"
  let ?f = "\<lambda>e. e\<lparr>ep_state := RecvWait, peer_task := 1, peer_domain := 1\<rparr>"
  have el: "task_present (tasks (SCHED ticked_kernel) ! 1)" using ticked(9) [of 1] by (simp add: MAX_TASKS_def eligible_def)
  have cd: "current_domain (caps ?k) = 1" by (simp add: ticked(3) current_domain_def set_current_domain_def MAX_DOMAINS_def)
  have ep0: "ENDPOINTS (caps ?k) ! 0 = EP_EMPTY"
    using ipc_endpoint [of 0] by (simp add: ticked(3) set_current_domain_def OBJECT_TABLE_SIZE_def)
  have res: "resolve 1 0 E_RECV (caps ?k) = Inr (Endpoint, 0, rights ipc_entry)"
    using ipc_cap_at [of 1] ipc_valid ipc_invoke
    by (simp add: resolve_eq ticked(3) set_current_domain_def) (simp add: ipc_entry_def)
  have know: "know (set_endpoint 0 ?f ?k) \<noteq> - 1"
    using ticked(6) by (simp add: know_def set_endpoint_def set_reply_cptr_def)
  obtain k' where bl: "block_current 0x9000 BLOCK_RECV 0 (set_endpoint 0 ?f ?k) = Some k'"
    using block_current_exists [of "set_endpoint 0 ?f ?k" "0x9000" BLOCK_RECV 0] know ticked(2,8) el by auto
  have "ep_recv 0x9000 1 0 ?k = Some (Parked, k')"
    using bl ep0 ticked(2) by (simp add: ep_recv_def EP_EMPTY_def OBJECT_TABLE_SIZE_def current_task_def)
  then have "cap_invoke_ipc demo_env 0x9000 0 E_RECV 0 CPTR_NONE ?k = Some (Parked, k')"
    using res cd by (simp add: cap_invoke_ipc_def Let_def E_SEND_def E_RECV_def)
  then have r: "receive ticked_kernel = Some (Parked, k')"
    by (simp add: receive_def syscall_dispatch_def const_defs)
  then show "receive ticked_kernel = Some (Parked, parked_kernel)" by (simp add: parked_kernel_def)
  show "DOMAINS (caps parked_kernel) = DOMAINS ipc_capspace"
    using block_current_domains [OF bl] r by (simp add: parked_kernel_def ticked(3) set_current_domain_def)
  show "ENDPOINTS (caps parked_kernel) ! 0 = EP_EMPTY\<lparr>ep_state := RecvWait, peer_task := 1, peer_domain := 1\<rparr>"
    using block_current_endpoints [OF bl] r ep0 wf_capspaceD(4) [OF wf_ipc_capspace]
    by (simp add: parked_kernel_def ticked(3) set_current_domain_def OBJECT_TABLE_SIZE_def)
qed

section \<open>A fault\<close>

lemma kernel_inv_fault_exists:
  assumes "kernel_inv k W" "current (SCHED k) \<noteq> 0" "current (SCHED k) \<notin> W" "know k \<noteq> - 1"
    and "task_domain (tasks (SCHED k) ! current (SCHED k)) \<noteq> FAULT_DOMAIN"
  shows "\<exists>p k'. terminate_current E k = Some (p, k')"
proof -
  let ?d = "task_domain (tasks (SCHED k) ! current (SCHED k))"
  let ?k = "reap_domain E ?d (of_nat (current (SCHED k))) (k\<lparr>SCHED := free_current (SCHED k)\<rparr>)"
  have "sched_inv (SCHED ?k)" by (rule core_invD(2) [OF core_inv_reap [OF assms(1-3)]])
  moreover have "know ?k \<noteq> - 1" using assms(4) by (simp add: know_def reap_domain_def Let_def case_prod_beta)
  ultimately have "\<exists>k'. switch_next ?k = Some k'" using switch_next_eq [of ?k] by (simp add: Let_def)
  then show ?thesis using assms(5) by (auto simp: terminate_current_def on_domain_death_def Let_def)
qed

end
