(* ===== verification/Reachable.thy ===== *)
theory Reachable
  imports Scenario
begin

text \<open>
  What holds in every state the kernel can reach after boot: the tables are well-typed, no task is
  lost, authority is confined, faults are bounded. And what single operations of the composed
  kernel promise: a rendezvous delivers, an admitted task starts where it should.
\<close>

section \<open>After boot\<close>

text \<open>
  The state when \<^verbatim>\<open>kmain\<close> has called \<^verbatim>\<open>sched::init\<close>: well-formed capability tables, all endpoints in
  their initial state, the scheduler with the idle task alone.
\<close>

definition after_boot :: "'d env \<Rightarrow> 'd kernel \<Rightarrow> bool" where
  "after_boot E k \<longleftrightarrow> wf_capspace (caps k) \<and> (\<forall>e < OBJECT_TABLE_SIZE. ENDPOINTS (caps k) ! e = EP_EMPTY) \<and>
     CURRENT_DOMAIN (caps k) = 0 \<and> SCHED k = sched_init (stack_top E) SCHED_initial"

lemma sched_init_nth:
  "i < MAX_TASKS \<Longrightarrow> tasks (sched_init sp SCHED_initial) ! i =
     (if i = 0 then Task_EMPTY\<lparr>task_present := True, runnable := True, kstack_top := sp\<rparr> else Task_EMPTY)"
  by (cases i) (simp_all add: sched_init_def SCHED_initial_def Task_EMPTY_def)

lemma after_boot_inv:
  assumes "after_boot E k"
  shows "kernel_inv k {}"
proof -
  have s: "SCHED k = sched_init (stack_top E) SCHED_initial" using assms by (simp add: after_boot_def)
  have nb: "\<not> blocked (tasks (SCHED k) ! i)" if "i < MAX_TASKS" for i
    using that by (simp add: s sched_init_nth)
  have "ipc_inv (ENDPOINTS (caps k)) (SCHED k)"
    unfolding ipc_inv_def using nb assms by (auto simp: after_boot_def EP_EMPTY_def)
  moreover have "running k = Task_EMPTY\<lparr>task_present := True, runnable := True, kstack_top := stack_top E\<rparr>"
    "current (SCHED k) = 0"
    by (simp_all add: running_def s sched_init_def SCHED_initial_def MAX_TASKS_def Task_EMPTY_def)
  ultimately show ?thesis
    using assms nb sched_inv_init
    by (simp add: kernel_inv_def core_inv_def running_ok_def after_boot_def eligible_def)
qed

definition reachable :: "'d env \<Rightarrow> 'd kernel \<Rightarrow> nat set \<Rightarrow> bool" where
  "reachable E k W \<longleftrightarrow> (\<exists>k0. after_boot E k0 \<and> (kstep E)\<^sup>*\<^sup>* (k0, {}) (k, W))"

lemma reachable_inv: "reachable E k W \<Longrightarrow> kernel_inv k W"
  using after_boot_inv ksteps_inv by (fastforce simp: reachable_def)

section \<open>Task frames\<close>

lemma words_at_load: "words_at m p (map (\<lambda>i. load64 m (p + 8 * of_nat i)) [0..<n])"
proof (induction n)
  case (Suc n)
  then show ?case by (simp add: words_at_append)
qed simp

lemma words_at_update:
  assumes "words_at m p vs" "n < length vs" "8 * length vs < 2 ^ 64"
  shows "words_at (store64 (p + 8 * of_nat n) v m) p (vs[n := v])"
  using assms
proof (induction vs arbitrary: p n)
  case (Cons u us)
  show ?case
  proof (cases n)
    case 0
    have "span p 8 \<inter> words (p + 8) (length us) = {}"
      using span_offsets_disjoint [of 0 8 8 "8 * length us" p] Cons.prems(3) by (simp add: words_def)
    then show ?thesis using Cons.prems 0 by (simp add: load_store64_same words_at_store)
  next
    case (Suc n')
    have eq: "p + 8 * of_nat n = p + 8 + 8 * of_nat n'" using Suc by (simp add: algebra_simps)
    have "words_at (store64 (p + 8 + 8 * of_nat n') v m) (p + 8) (us[n' := v])"
      using Cons Suc by simp
    moreover have "span p 8 \<inter> span (p + 8 * of_nat n) 8 = {}"
      using span_offsets_disjoint [of 0 8 "8 * of_nat n" 8 p] Cons.prems(2,3) Suc by (simp add: unat_word_ariths unat_of_nat)
    then have "load64 (store64 (p + 8 * of_nat n) v m) p = u"
      using Cons.prems(1) by (simp add: load_store64_other)
    ultimately show ?thesis using Suc eq by (simp add: add.assoc)
  qed
qed simp

lemma words_at_zeros:
  "n \<le> length vs \<Longrightarrow> 8 * length vs < 2 ^ 64 \<Longrightarrow> words_at m p vs \<Longrightarrow>
     words_at (fold (\<lambda>n m. store64 (p + 8 * of_nat n) 0 m) [0..<n] m) p (replicate n 0 @ drop n vs)"
proof (induction n)
  case (Suc n)
  let ?m = "fold (\<lambda>n m. store64 (p + 8 * of_nat n) 0 m) [0..<n] m"
  have "words_at ?m p (replicate n 0 @ drop n vs)" using Suc by simp
  from words_at_update [OF this, of n 0]
  have "words_at (store64 (p + 8 * of_nat n) 0 ?m) p ((replicate n 0 @ drop n vs)[n := 0])" using Suc.prems by simp
  moreover have "(replicate n 0 @ drop n vs)[n := 0] = replicate (Suc n) 0 @ drop (Suc n) vs"
    using Suc.prems(1) by (simp add: list_update_append Cons_nth_drop_Suc [symmetric] replicate_app_Cons_same)
  ultimately show ?case by simp
qed simp

lemma word_in_words: "n < k \<Longrightarrow> k < 1000 \<Longrightarrow> span (p + 8 * of_nat n) 8 \<subseteq> words p k"
  unfolding words_def by (rule span_offset) (simp add: unat_word_ariths unat_of_nat)

lemma store_outside_words: "n < k \<Longrightarrow> k < 1000 \<Longrightarrow> x \<notin> words p k \<Longrightarrow> store64 (p + 8 * of_nat n) v m x = m x"
  using word_in_words [of n k p] by (auto intro: store64_outside)

lemma zeros_outside_words:
  "n \<le> k \<Longrightarrow> k < 1000 \<Longrightarrow> x \<notin> words p k \<Longrightarrow> fold (\<lambda>n m. store64 (p + 8 * of_nat n) 0 m) [0..<n] m x = m x"
proof (induction n)
  case (Suc n)
  then show ?case using store_outside_words [of n k x p 0] by simp
qed simp

text \<open>The context a new task starts in.\<close>

definition entry_context :: "u64 \<Rightarrow> bool \<Rightarrow> u64 \<Rightarrow> u64 \<Rightarrow> cpu" where
  "entry_context entry_va user sp rdi = blank_cpu\<lparr>regs := (\<lambda>_. 0)(RDI := rdi, RSP := sp), rip := entry_va, rflags := 0x202,
     cs := ucast (fst (if user then user_selectors else kernel_selectors)),
     ss := ucast (snd (if user then user_selectors else kernel_selectors))\<rparr>"

lemma build_task_frame_context:
  assumes "build_task_frame_inner E i entry_va user user_rsp rdi m = (p, m')"
  shows "p = task_kstack_top E i - 160"
    "saved_context m' p (entry_context entry_va user (if user then user_rsp - 8 else task_kstack_top E i - 8) rdi)"
    "x \<notin> words p 20 \<Longrightarrow> m' x = m x"
proof -
  let ?cs = "ucast (fst (if user then user_selectors else kernel_selectors)) :: u64"
  let ?ss = "ucast (snd (if user then user_selectors else kernel_selectors)) :: u64"
  let ?sp = "if user then user_rsp - 8 else task_kstack_top E i - 8"
  let ?z = "fold (\<lambda>n m. store64 (p + 8 * of_nat n) 0 m) [0..<15] m"
  let ?at = "\<lambda>n v m. store64 (p + 8 * of_nat n) v m"
  show p: "p = task_kstack_top E i - 160"
    using assms by (simp add: build_task_frame_inner_def Let_def case_prod_beta)
  have m': "m' = ?at 19 ?ss (?at 18 ?sp (?at 17 0x202 (?at 16 ?cs (?at 15 entry_va (?at 9 rdi ?z)))))"
    using assms by (simp only: build_task_frame_inner_def Let_def case_prod_beta prod.inject p) auto
  define vs where "vs = map (\<lambda>i. load64 m (p + 8 * of_nat i)) [0..<20]"
  have len: "length vs = 20" and w: "words_at m p vs" by (simp_all add: vs_def words_at_load)
  have "words_at m' p ((replicate 15 0 @ drop 15 vs)[9 := rdi, 15 := entry_va, 16 := ?cs, 17 := 0x202, 18 := ?sp, 19 := ?ss])"
    unfolding m' by (intro words_at_update words_at_zeros) (simp_all add: len w)
  moreover have "drop 15 vs = [vs ! 15, vs ! 16, vs ! 17, vs ! 18, vs ! 19]"
    by (rule nth_equalityI) (auto simp: len nth_Cons' numeral_eq_Suc less_Suc_eq)
  ultimately show "saved_context m' p (entry_context entry_va user ?sp rdi)"
    by (simp add: saved_context_def iret_frame_def entry_context_def saved_regs_def numeral_eq_Suc)
  show "x \<notin> words p 20 \<Longrightarrow> m' x = m x"
    unfolding m' using zeros_outside_words [of 15 20 x p m] store_outside_words [of 9 20 x p]
      store_outside_words [of 15 20 x p] store_outside_words [of 16 20 x p] store_outside_words [of 17 20 x p]
      store_outside_words [of 18 20 x p] store_outside_words [of 19 20 x p]
    by simp
qed

section \<open>Rendezvous\<close>

text \<open>
  \<open>woken k p res k'\<close>: from \<open>k\<close> to \<open>k'\<close> the task \<open>p\<close> has been unblocked and will take \<open>res\<close> as the result of
  its call; no other task has changed.
\<close>

definition woken :: "'d kernel \<Rightarrow> nat \<Rightarrow> ipc_reply \<Rightarrow> 'd kernel \<Rightarrow> bool" where
  "woken k p res k' \<longleftrightarrow> \<not> blocked (tasks (SCHED k') ! p) \<and> take_ipc_result p (SCHED k') = res \<and>
     (\<forall>j. j \<noteq> p \<longrightarrow> tasks (SCHED k') ! j = tasks (SCHED k) ! j)"

lemma woken_kunblock:
  assumes "length (tasks (SCHED k)) = MAX_TASKS" "unat t < MAX_TASKS" "SCHED k1 = SCHED k"
  shows "woken k (unat t) (st, reply, c) (kunblock t st reply c k1)"
  using assms by (simp add: woken_def take_ipc_result_def unblock_def)

text \<open>The middle of both calls: the endpoint is freed and the transfer made, or nothing moves.\<close>

lemma meet_transfer:
  assumes "wf_capspace (caps k)" "i < OBJECT_TABLE_SIZE"
    and "transfer_if want src x dst (set_endpoint i (\<lambda>e. e\<lparr>ep_state := Idle\<rparr>) k) = (res, k1)"
  shows "SCHED k1 = SCHED k" "ep_state (ENDPOINTS (caps k1) ! i) = Idle"
    "res = Inl e \<Longrightarrow> e \<noteq> Ok \<and> DOMAINS (caps k1) = DOMAINS (caps k)"
    "\<not> want \<Longrightarrow> res = Inr CPTR_NONE \<and> DOMAINS (caps k1) = DOMAINS (caps k)"
    "want \<Longrightarrow> fst (do_cap_transfer src x dst (caps k)) = res \<and> DOMAINS (caps k1) = DOMAINS (snd (do_cap_transfer src x dst (caps k)))"
proof -
  let ?k = "set_endpoint i (\<lambda>e. e\<lparr>ep_state := Idle\<rparr>) k"
  have wf: "wf_capspace (caps ?k)" using assms(1) by simp
  show "SCHED k1 = SCHED k" "ep_state (ENDPOINTS (caps k1) ! i) = Idle"
    using transfer_if_unseen(1) [OF wf assms(3)] assms(2) wf_capspaceD(4) [OF assms(1)] by (simp_all add: unseen_def)
  show "\<not> want \<Longrightarrow> res = Inr CPTR_NONE \<and> DOMAINS (caps k1) = DOMAINS (caps k)"
    using assms(3) by (auto simp: transfer_if_def)
  have same: "fst (do_cap_transfer src x dst (caps ?k)) = fst (do_cap_transfer src x dst (caps k)) \<and>
      DOMAINS (snd (do_cap_transfer src x dst (caps ?k))) = DOMAINS (snd (do_cap_transfer src x dst (caps k)))"
    by (simp add: do_cap_transfer_def Let_def case_prod_beta set_endpoint_def split: sum.split)
  then show moved: "want \<Longrightarrow> fst (do_cap_transfer src x dst (caps k)) = res \<and>
      DOMAINS (caps k1) = DOMAINS (snd (do_cap_transfer src x dst (caps k)))"
    using assms(3) by (auto simp: transfer_if_def on_caps_def Let_def split: prod.splits)
  assume e: "res = Inl e"
  show "e \<noteq> Ok \<and> DOMAINS (caps k1) = DOMAINS (caps k)"
  proof (cases want)
    case True
    then have "do_cap_transfer src x dst (caps k) = (Inl e, snd (do_cap_transfer src x dst (caps k)))"
      using moved e by (simp add: prod_eq_iff)
    then show ?thesis using moved True do_cap_transfer_Inl by metis
  qed (use assms(3) e in \<open>simp add: transfer_if_def\<close>)
qed

text \<open>The capability that went with the message, if one was offered, has moved.\<close>

definition transferred :: "capspace \<Rightarrow> nat \<Rightarrow> u16 \<Rightarrow> nat \<Rightarrow> u16 \<Rightarrow> capspace \<Rightarrow> bool" where
  "transferred s src x dst c s' \<longleftrightarrow>
     (if x = CPTR_NONE then c = CPTR_NONE \<and> DOMAINS s' = DOMAINS s
      else \<exists>t. do_cap_transfer src x dst s = (Inr c, t) \<and> DOMAINS s' = DOMAINS t)"

lemma status_code_0 [simp]: "status_code st = 0 \<longleftrightarrow> st = Ok"
  by (cases st) simp_all

lemma meet_outcome:
  assumes inv: "kernel_inv k W" and i: "i < OBJECT_TABLE_SIZE" "ep_state (ENDPOINTS (caps k) ! i) \<noteq> Idle"
    and tr: "transfer_if (x \<noteq> CPTR_NONE) src x dst (set_endpoint i (\<lambda>e. e\<lparr>ep_state := Idle\<rparr>) k) = (res, k1)"
  defines "t \<equiv> peer_task (ENDPOINTS (caps k) ! i)"
  shows "woken k (unat t) (st, reply, c) (kunblock t st reply c k1)"
    "ep_state (ENDPOINTS (caps (kunblock t st reply c k1)) ! i) = Idle"
    "res = Inr y \<Longrightarrow> transferred (caps k) src x dst y (caps (kunblock t st reply c k1))"
    "res = Inl e \<Longrightarrow> e \<noteq> Ok \<and> x \<noteq> CPTR_NONE \<and> DOMAINS (caps (kunblock t st reply c k1)) = DOMAINS (caps k)"
proof -
  note I = kernel_invD [OF inv]
  note M = meet_transfer [OF I(2) i(1) tr]
  show "woken k (unat t) (st, reply, c) (kunblock t st reply c k1)"
    unfolding t_def by (rule woken_kunblock [OF sched_invD(1) [OF I(3)] parked_peer(1) [OF inv i] M(1)])
  show "ep_state (ENDPOINTS (caps (kunblock t st reply c k1)) ! i) = Idle" using M(2) by simp
  show "res = Inl e \<Longrightarrow> e \<noteq> Ok \<and> x \<noteq> CPTR_NONE \<and> DOMAINS (caps (kunblock t st reply c k1)) = DOMAINS (caps k)"
    using M(3,4) by auto
  show "transferred (caps k) src x dst y (caps (kunblock t st reply c k1))" if "res = Inr y"
  proof (cases "x = CPTR_NONE")
    case False
    then have "do_cap_transfer src x dst (caps k) = (Inr y, snd (do_cap_transfer src x dst (caps k)))"
      using M(5) that by (simp add: prod_eq_iff)
    then show ?thesis unfolding transferred_def using False M(5) by auto
  qed (use M(4) that in \<open>simp add: transferred_def\<close>)
qed

section \<open>Bounded faults\<close>

text \<open>\<open>fault_run E n x y\<close>: from \<open>x\<close> the kernel reaches \<open>y\<close> with \<open>n\<close> faults, without admissions from outside.\<close>

inductive fault_run :: "'d env \<Rightarrow> nat \<Rightarrow> 'd kernel \<times> nat set \<Rightarrow> 'd kernel \<times> nat set \<Rightarrow> bool" for E :: "'d env" where
  stop: "fault_run E 0 x x"
| tick: "current (SCHED k) \<notin> W \<Longrightarrow> schedule_tick E p k = Some (p', k') \<Longrightarrow> fault_run E n (k', W) y \<Longrightarrow>
    fault_run E n (k, W) y"
| call: "current (SCHED k) \<noteq> 0 \<Longrightarrow> current (SCHED k) \<notin> W \<Longrightarrow>
    syscall_dispatch E saved nr cptr method a0 a1 a2 xfer k = Some (r, k') \<Longrightarrow>
    fault_run E n (k', waiting r (current (SCHED k)) W) y \<Longrightarrow> fault_run E n (k, W) y"
| resume: "current (SCHED k) \<in> W \<Longrightarrow> syscall_resume k = (ret, k') \<Longrightarrow>
    fault_run E n (k', W - {current (SCHED k)}) y \<Longrightarrow> fault_run E n (k, W) y"
| world: "fault_run E n (k\<lparr>mach := M, kmem := m\<rparr>, W) y \<Longrightarrow> fault_run E n (k, W) y"
| fault: "current (SCHED k) \<noteq> 0 \<Longrightarrow> current (SCHED k) \<notin> W \<Longrightarrow> terminate_current E k = Some (p, k') \<Longrightarrow>
    fault_run E n (k', W) y \<Longrightarrow> fault_run E (Suc n) (k, W) y"

lemma idle_counts: "kernel_inv k W \<Longrightarrow> 0 < num (SCHED k)"
proof -
  assume inv: "kernel_inv k W"
  note s = sched_invD [OF kernel_invD(3) [OF inv]]
  have "tasks (SCHED k) ! 0 \<in> set (tasks (SCHED k))" using s(1) by (simp add: MAX_TASKS_def)
  then show ?thesis using s(3,4) by (metis idle_task_def filter_empty_conv length_greater_0_conv)
qed

lemma fault_run_bound: "fault_run E n x y \<Longrightarrow> kernel_inv (fst x) (snd x) \<Longrightarrow> n + 1 \<le> fault_budget (fst x)"
proof (induction rule: fault_run.induct)
  case (stop x)
  then show ?case using idle_counts [of "fst x"] by (fastforce simp: fault_budget_def)
next
  case (tick k W p p' k' n y)
  then show ?case using schedule_tick_inv [of k W E p p' k'] by simp
next
  case (call k W saved nr cptr mth a0 a1 a2 xfer r k' n y)
  then show ?case using syscall_dispatch_ok [of k W E saved nr cptr mth a0 a1 a2 xfer r k'] by (simp add: call_ok_def)
next
  case (resume k W ret k' n y)
  then show ?case using syscall_resume_inv [of k W ret k'] syscall_resume_budget [of k ret k'] by simp
next
  case (world n m M k W y)
  then show ?case using unseen_inv [OF unseen_world, of k W] by (simp add: fault_budget_def)
next
  case (fault k W p k' n y)
  then show ?case
    using terminate_current_inv(1) [of k W E p k'] terminate_current_budget [of k W E p k'] by simp
qed

section \<open>The concrete run is reachable\<close>

lemma after_boot_kernel: "after_boot demo_env boot_kernel"
  using wf_ipc_capspace ipc_endpoint
  by (simp add: after_boot_def boot_kernel_def) (simp add: ipc_capspace_def capspace_initial_def)

lemma run_admit: "kstep demo_env (boot_kernel, {}) (admitted_kernel, {})"
  unfolding admitted_kernel_def admit_result_def by (rule kstep.admit_user)

lemma run_tick: "kstep demo_env (admitted_kernel, {}) (ticked_kernel, {})"
  using ticked(1) by (auto intro: kstep.tick)

lemma run_receive: "kstep demo_env (ticked_kernel, {}) (parked_kernel, {1})"
  using kstep.call [OF _ _ parked(1) [unfolded receive_def], of "{}"] ticked(2) by simp

lemmas run_steps = run_admit run_tick run_receive

lemma run_reaches:
  "(kstep demo_env)\<^sup>*\<^sup>* (boot_kernel, {}) (ticked_kernel, {})"
  "(kstep demo_env)\<^sup>*\<^sup>* (boot_kernel, {}) (parked_kernel, {1})"
  using run_steps by (meson converse_rtranclp_into_rtranclp rtranclp.rtrancl_refl)+

lemma run_reachable: "reachable demo_env ticked_kernel {}" "reachable demo_env parked_kernel {1}"
  unfolding reachable_def using run_reaches after_boot_kernel by blast+

lemma parked_blocked: "blocked (tasks (SCHED parked_kernel) ! 1)"
proof -
  have "kernel_inv parked_kernel {1}" by (rule reachable_inv [OF run_reachable(2)])
  from parked_peer(2) [OF this, of 0] show ?thesis using parked(2) by (simp add: OBJECT_TABLE_SIZE_def)
qed

section \<open>Properties\<close>

text \<open>
  C8: a rendezvous delivers the message once. When the partner is parked at the endpoint, a
  receive (or send) returns at once; the endpoint is idle again; the partner is unblocked with the
  matching result and no other task has changed. Both calls report the same status. If it is 0,
  the message went from sender to receiver and the capability offered with it, if any, has moved
  from the sender's to the receiver's domain; otherwise no message and no capability went over.
  When nobody is parked, a send blocks, and leaves message and offer at the endpoint.
\<close>

theorem rendezvous_delivers:
  assumes "kernel_inv k W" and "unat oid < OBJECT_TABLE_SIZE" and "ep = ENDPOINTS (caps k) ! unat oid"
    and "x = CPTR_NONE \<or> contains r GRANT_CAP \<and> unat x < CAP_TABLE_SLOTS"
  shows "(ep_state ep = SendWait \<longrightarrow>
      (\<exists>st m c k'. ep_recv saved d oid k = Some (Done (st, m, c), k') \<and>
         ep_state (ENDPOINTS (caps k') ! unat oid) = Idle \<and> woken k (unat (peer_task ep)) (st, 0, CPTR_NONE) k' \<and>
         (if st = 0 then m = msg0 ep \<and> transferred (caps k) (unat (peer_domain ep)) (xfer_cptr ep) d c (caps k')
          else m = 0 \<and> c = CPTR_NONE \<and> xfer_cptr ep \<noteq> CPTR_NONE \<and> DOMAINS (caps k') = DOMAINS (caps k)))) \<and>
    (ep_state ep = RecvWait \<longrightarrow>
      (\<exists>st m c k'. ep_send saved d oid msg x r k = Some (Done (st, 0, CPTR_NONE), k') \<and>
         ep_state (ENDPOINTS (caps k') ! unat oid) = Idle \<and> woken k (unat (peer_task ep)) (st, m, c) k' \<and>
         (if st = 0 then m = msg \<and> transferred (caps k) d x (unat (peer_domain ep)) c (caps k')
          else m = 0 \<and> c = CPTR_NONE \<and> x \<noteq> CPTR_NONE \<and> DOMAINS (caps k') = DOMAINS (caps k)))) \<and>
    (ep_state ep = Idle \<longrightarrow> (\<forall>out k'. ep_send saved d oid msg x r k = Some (out, k') \<longrightarrow> out = Parked \<and>
         ENDPOINTS (caps k') ! unat oid = ep\<lparr>ep_state := SendWait, peer_task := of_nat (current (SCHED k)),
           peer_domain := of_nat d, msg0 := msg, xfer_cptr := x\<rparr>))"
proof (intro conjI impI)
  assume st: "ep_state ep = SendWait"
  then have ne: "ep_state (ENDPOINTS (caps k) ! unat oid) \<noteq> Idle" by (simp add: assms(3))
  obtain res k1 where tr: "transfer_if (xfer_cptr ep \<noteq> CPTR_NONE) (unat (peer_domain ep)) (xfer_cptr ep) d
      (set_endpoint (unat oid) (\<lambda>e. e\<lparr>ep_state := Idle\<rparr>) k) = (res, k1)" by (rule prod.exhaust)
  note M = meet_outcome [OF assms(1,2) ne tr, folded assms(3)]
  show "\<exists>st m c k'. ep_recv saved d oid k = Some (Done (st, m, c), k') \<and>
         ep_state (ENDPOINTS (caps k') ! unat oid) = Idle \<and> woken k (unat (peer_task ep)) (st, 0, CPTR_NONE) k' \<and>
         (if st = 0 then m = msg0 ep \<and> transferred (caps k) (unat (peer_domain ep)) (xfer_cptr ep) d c (caps k')
          else m = 0 \<and> c = CPTR_NONE \<and> xfer_cptr ep \<noteq> CPTR_NONE \<and> DOMAINS (caps k') = DOMAINS (caps k))"
    using M st tr assms(2,3) by (cases res) (auto simp: ep_recv_def Let_def)
next
  assume st: "ep_state ep = RecvWait"
  then have ne: "ep_state (ENDPOINTS (caps k) ! unat oid) \<noteq> Idle" by (simp add: assms(3))
  obtain res k1 where tr: "transfer_if (x \<noteq> CPTR_NONE) d x (unat (peer_domain ep))
      (set_endpoint (unat oid) (\<lambda>e. e\<lparr>ep_state := Idle\<rparr>) k) = (res, k1)" by (rule prod.exhaust)
  note M = meet_outcome [OF assms(1,2) ne tr, folded assms(3)]
  have eq: "ep_send saved d oid msg x r k = (case res of
        Inr c \<Rightarrow> Some (Done (0, 0, CPTR_NONE), kunblock (peer_task ep) 0 msg c k1)
      | Inl e \<Rightarrow> Some (Done (status_code e, 0, CPTR_NONE), kunblock (peer_task ep) (status_code e) 0 CPTR_NONE k1))"
    using st tr assms(2-4) by (auto simp: ep_send_def Let_def split: sum.split)
  show "\<exists>st m c k'. ep_send saved d oid msg x r k = Some (Done (st, 0, CPTR_NONE), k') \<and>
         ep_state (ENDPOINTS (caps k') ! unat oid) = Idle \<and> woken k (unat (peer_task ep)) (st, m, c) k' \<and>
         (if st = 0 then m = msg \<and> transferred (caps k) d x (unat (peer_domain ep)) c (caps k')
          else m = 0 \<and> c = CPTR_NONE \<and> x \<noteq> CPTR_NONE \<and> DOMAINS (caps k') = DOMAINS (caps k))"
  proof (cases res)
    case (Inl e)
    show ?thesis unfolding eq
      using M(2) M(4) [OF Inl] Inl
      by (intro exI [of _ "status_code e"] exI [of _ 0] exI [of _ CPTR_NONE] exI conjI, simp) (simp_all add: M(1))
  next
    case (Inr c)
    show ?thesis unfolding eq
      using M(2) M(3) [OF Inr] Inr
      by (intro exI [of _ 0] exI [of _ msg] exI [of _ c] exI conjI, simp) (simp_all add: M(1))
  qed
next
  assume st: "ep_state ep = Idle"
  show "\<forall>out k'. ep_send saved d oid msg x r k = Some (out, k') \<longrightarrow> out = Parked \<and>
         ENDPOINTS (caps k') ! unat oid = ep\<lparr>ep_state := SendWait, peer_task := of_nat (current (SCHED k)),
           peer_domain := of_nat d, msg0 := msg, xfer_cptr := x\<rparr>"
    using st assms(2-4) wf_capspaceD(4) [OF kernel_invD(2) [OF assms(1)]]
    by (auto simp: ep_send_def current_task_def Let_def dest!: block_current_endpoints)
qed

theorem rendezvous_delivers_witness:
  "\<exists>k'. ep_send 0 0 0 42 CPTR_NONE 0 parked_kernel = Some (Done (0, 0, CPTR_NONE), k') \<and>
     take_ipc_result 1 (SCHED k') = (0, 42, CPTR_NONE) \<and> \<not> blocked (tasks (SCHED k') ! 1)"
proof -
  have inv: "kernel_inv parked_kernel {1}" by (rule reachable_inv [OF run_reachable(2)])
  have o: "unat (0 :: u64) < OBJECT_TABLE_SIZE" by (simp add: OBJECT_TABLE_SIZE_def)
  show ?thesis
    using rendezvous_delivers [OF inv o refl, where x = CPTR_NONE and saved = 0 and d = 0 and msg = 42 and r = 0]
    by (auto simp: parked(2) woken_def transferred_def split: if_splits)
qed

text \<open>
  C3: the kernel invariant. In every state reachable after boot, the running task may run, its
  domain is the published one and, unless it is the idle task, its kernel stack is the one of the
  next interrupt and of the next system call; every blocked task is the parked peer of exactly
  one endpoint, the one it waits for, and every endpoint that is not idle has a blocked task as its
  peer, of the recorded domain and blocked for the matching reason. So no wake-up can be lost.
\<close>

theorem no_task_is_lost:
  assumes "reachable E k W"
  shows "eligible (tasks (SCHED k) ! current (SCHED k)) \<and>
    CURRENT_DOMAIN (caps k) = task_domain (tasks (SCHED k) ! current (SCHED k)) \<and>
    (current (SCHED k) \<noteq> 0 \<longrightarrow> kernel_rsp0 (PER_CPU k) = kstack_top (tasks (SCHED k) ! current (SCHED k)) \<and>
       tss_rsp0 k = kstack_top (tasks (SCHED k) ! current (SCHED k))) \<and>
    (\<forall>i < MAX_TASKS. blocked (tasks (SCHED k) ! i) \<longrightarrow>
       (\<exists>!e. e < OBJECT_TABLE_SIZE \<and> ep_state (ENDPOINTS (caps k) ! e) \<noteq> Idle \<and>
          unat (peer_task (ENDPOINTS (caps k) ! e)) = i)) \<and>
    (\<forall>e < OBJECT_TABLE_SIZE. \<forall>ep. ep = ENDPOINTS (caps k) ! e \<longrightarrow> ep_state ep \<noteq> Idle \<longrightarrow>
       (\<exists>t. t = tasks (SCHED k) ! unat (peer_task ep) \<and> blocked t \<and> unat (wait_ep t) = e \<and>
          block_reason t = (if ep_state ep = SendWait then BLOCK_SEND else BLOCK_RECV) \<and>
          unat (peer_domain ep) = min (unat (task_domain t)) (MAX_DOMAINS - 1)))"
proof -
  have inv: "kernel_inv k W" by (rule reachable_inv [OF assms])
  note I = kernel_invD [OF inv]
  have run: "running_ok k" using inv by (simp add: kernel_inv_def)
  have ep: "parked_ok (SCHED k) e (ENDPOINTS (caps k) ! e)"
    if "e < OBJECT_TABLE_SIZE" "ep_state (ENDPOINTS (caps k) ! e) \<noteq> Idle" for e
    using ipc_invD(1) [OF I(4) that] .
  have "\<exists>!e. e < OBJECT_TABLE_SIZE \<and> ep_state (ENDPOINTS (caps k) ! e) \<noteq> Idle \<and>
      unat (peer_task (ENDPOINTS (caps k) ! e)) = i" if "i < MAX_TASKS" "blocked (tasks (SCHED k) ! i)" for i
    using ipc_invD(2-) [OF I(4) that] ep
    by (intro ex1I [of _ "unat (wait_ep (tasks (SCHED k) ! i))"]) (auto simp: parked_ok_def Let_def)
  then show ?thesis
    using run ep by (simp add: running_ok_def running_def parked_ok_def Let_def)
qed

theorem no_task_is_lost_witness:
  "blocked (tasks (SCHED parked_kernel) ! 1) \<and>
   (\<exists>!e. e < OBJECT_TABLE_SIZE \<and> ep_state (ENDPOINTS (caps parked_kernel) ! e) \<noteq> Idle \<and>
      unat (peer_task (ENDPOINTS (caps parked_kernel) ! e)) = 1)"
  using no_task_is_lost [OF run_reachable(2)] parked_blocked by (simp add: MAX_TASKS_def)



text \<open>
  C2: authority is confined. Whatever the tasks, the devices and the kernel do, a capability that
  anybody holds to an object that existed before derives from one that somebody held before: same
  object, kind and epoch, no more rights. Objects do not disappear and keep their kind.
\<close>

theorem authority_is_confined:
  assumes "kernel_inv k W" and "(kstep E)\<^sup>*\<^sup>* (k, W) (k', W')" and "live_object (caps k) oid"
  shows "live_object (caps k') oid \<and> kind (object_meta (OBJECTS (caps k')) oid) = kind (object_meta (OBJECTS (caps k)) oid) \<and>
    (\<forall>d e. holds (caps k') d e \<and> object_id e = oid \<longrightarrow> (\<exists>d0 e0. holds (caps k) d0 e0 \<and> derives e0 e))"
proof -
  have "confined (caps k) (caps k')" using ksteps_inv [OF assms(2)] assms(1) by simp
  then show ?thesis using assms(3) unfolding confined_def by blast
qed

theorem authority_is_confined_witness:
  "holds (caps parked_kernel) 1 ipc_entry \<and> (\<exists>d0 e0. holds ipc_capspace d0 e0 \<and> derives e0 ipc_entry)"
proof -
  have h: "holds (caps parked_kernel) 1 ipc_entry"
    using ipc_cap_at [of 1] by (auto simp: holds_def parked(3) MAX_DOMAINS_def)
  have "live_object (caps boot_kernel) 0" by (simp add: live_object_def ipc_meta OBJECT_TABLE_SIZE_def)
  from authority_is_confined [OF after_boot_inv [OF after_boot_kernel] run_reaches(2) this] h show ?thesis
    by (auto simp: ipc_entry_def)
qed

text \<open>
  C18: faults end. In any run of ticks, system calls and faults, however user code and devices
  behave, at most as many faults occur as there are tasks besides the idle one plus the restarts the
  supervisor has left: the supervisor cannot restart a crashing driver forever.
\<close>

theorem faults_are_bounded:
  assumes "reachable E k W" and "fault_run E n (k, W) y"
  shows "n \<le> (num (SCHED k) - 1) + unat (FAULTER_RESTARTS k)"
  using fault_run_bound [OF assms(2)] reachable_inv [OF assms(1)] idle_counts [OF reachable_inv [OF assms(1)]]
  by (simp add: fault_budget_def)

theorem faults_are_bounded_witness:
  "(\<exists>y. fault_run demo_env 1 (ticked_kernel, {}) y) \<and>
   1 \<le> (num (SCHED ticked_kernel) - 1) + unat (FAULTER_RESTARTS ticked_kernel)"
proof -
  have "\<exists>p k'. terminate_current demo_env ticked_kernel = Some (p, k')"
    by (rule kernel_inv_fault_exists [OF reachable_inv [OF run_reachable(1)]])
      (use ticked(2,4,6) in \<open>simp_all add: FAULT_DOMAIN_def\<close>)
  then obtain p k' where "terminate_current demo_env ticked_kernel = Some (p, k')" by blast
  then have "fault_run demo_env (Suc 0) (ticked_kernel, {}) (k', {})"
    using fault_run.fault [OF _ _ _ fault_run.stop, of ticked_kernel "{}" demo_env p k'] ticked(2) by simp
  then show ?thesis using faults_are_bounded [OF run_reachable(1)] by fastforce
qed

text \<open>
  C20: an admitted task starts where it should. If \<open>admit_user\<close> returns a slot, the time capability
  was valid, the slot was free, and the task in it has a full kernel stack of its own. Switching to
  its saved context enters ring 3 at the entry point with interrupts on, the given stack, the
  memory capability in \<open>rdi\<close> and every other register zero; the frame is the only memory written.
\<close>

theorem admitted_task_starts:
  assumes "sched_inv (SCHED k)" and "admit_user E entry sp mem_cptr cptr d period rel budget k = (Some i, k')"
    and "cmem c = kmem k'" and "regs c RDI = rsp (tasks (SCHED k') ! i)"
  shows "admit_check cptr (caps k) = Ok \<and> period \<noteq> 0 \<and> 0 < i \<and> i < MAX_TASKS \<and> \<not> task_present (tasks (SCHED k) ! i) \<and>
    (\<exists>t. t = tasks (SCHED k') ! i \<and> task_present t \<and> \<not> blocked t \<and> task_domain t = d \<and> kstack_top t = task_kstack_top E i \<and>
       abs_deadline_ns t = saturating_add (know k) rel) \<and>
    (\<forall>j. j \<noteq> i \<longrightarrow> tasks (SCHED k') ! j = tasks (SCHED k) ! j) \<and>
    (\<exists>c'. c' = exec f jump_to_task c \<and> rip c' = entry \<and> cs c' AND 3 = 3 \<and> rflags c' = 0x202 \<and> regs c' RSP = sp - 8 \<and>
       regs c' RDI = ucast mem_cptr \<and> (\<forall>r. r \<noteq> RDI \<and> r \<noteq> RSP \<longrightarrow> regs c' r = 0)) \<and>
    (\<forall>x. x \<notin> words (task_kstack_top E i - 160) 20 \<longrightarrow> kmem k' x = kmem k x)"
proof -
  have a: "period \<noteq> 0" "admit_check cptr (caps k) = Ok" "free_slot (SCHED k) = Some i"
    using assms(2) by (auto simp: admit_user_def Let_def split: if_splits option.splits prod.splits)
  obtain p m where fr: "build_task_frame_inner E i entry True sp (ucast mem_cptr) (kmem k) = (p, m)" by (rule prod.exhaust)
  then have k': "k' = k\<lparr>kmem := m, SCHED := install_task i
      (new_task (know k) p (task_kstack_top E i) period rel budget d) (SCHED k)\<rparr>"
    using assms(2) a by (simp add: admit_user_def Let_def)
  note slot = task_slotD [OF a(3)] and F = build_task_frame_context [OF fr]
  have t: "tasks (SCHED k') ! i = new_task (know k) p (task_kstack_top E i) period rel budget d"
    using slot(2) sched_invD(1) [OF assms(1)] by (simp add: k' install_task_def)
  let ?b = "entry_context entry True (sp - 8) (ucast mem_cptr)"
  have "regs c RDI = p" "cmem c = m" using assms(3,4) by (simp add: t, simp add: k')
  then have "saved_context (cmem (set_reg RSP (regs c RDI) c)) (regs (set_reg RSP (regs c RDI) c) RSP) ?b"
    using F(2) by simp
  from exec_restore_tail [OF this, of f]
  have "exec f jump_to_task c = (set_reg RSP (regs c RDI) c)
      \<lparr>regs := regs ?b, rip := rip ?b, rflags := rflags ?b, cs := cs ?b, ss := ss ?b\<rparr>"
    by (simp add: jump_to_task_def)
  moreover have "kmem k' x = kmem k x" if "x \<notin> words (task_kstack_top E i - 160) 20" for x
    using F(1,3) that by (simp add: k')
  ultimately show ?thesis
    using a slot sched_invD(1) [OF assms(1)] by (simp add: entry_context_def user_selectors_def k' install_task_def)
qed

theorem admitted_task_starts_witness:
  "rip (exec id jump_to_task (blank_cpu\<lparr>cmem := kmem admitted_kernel,
     regs := (\<lambda>_. 0)(RDI := rsp (tasks (SCHED admitted_kernel) ! 1))\<rparr>)) = 0x400000"
proof -
  let ?c = "blank_cpu\<lparr>cmem := kmem admitted_kernel, regs := (\<lambda>_. 0)(RDI := rsp (tasks (SCHED admitted_kernel) ! 1))\<rparr>"
  have inv: "sched_inv (SCHED boot_kernel)" by (rule kernel_invD(3) [OF after_boot_inv [OF after_boot_kernel]])
  obtain p m where adm: "admit_result = (Some 1, admitted_kernel)" by (rule admitted_eq)
  have "cmem ?c = kmem admitted_kernel" "regs ?c RDI = rsp (tasks (SCHED admitted_kernel) ! 1)" by simp_all
  from admitted_task_starts [OF inv adm [unfolded admit_result_def] this, of id] show ?thesis by blast
qed

end
