(* ===== verification/Traps.thy ===== *)
theory Traps
  imports Reachable
begin

text \<open>
  The exception handlers of \<^verbatim>\<open>interrupts.rs\<close> and the preparation of a ring-3 program, \<^verbatim>\<open>user.rs\<close>.
  What the processor pushes is an argument: the saved code segment, the error code, and CR2. A
  handler returns to the interrupted code, halts the machine for good, or switches to another
  task; its diagnostics on the serial port are left out. The base of the guard page below the boot
  stack is a link address and an argument too.
\<close>

section \<open>Exception handlers\<close>

datatype trap = Returned | Halted | Switched u64

text \<open>\<^verbatim>\<open>Cr2::read\<close>: an address that is not canonical is an error, read as 0.\<close>

definition canonical :: "u64 \<Rightarrow> bool" where
  "canonical a \<longleftrightarrow> drop_bit 47 a = 0 \<or> drop_bit 47 a = 0x1ffff"

definition fault_address :: "u64 \<Rightarrow> u64" where
  "fault_address cr2 = (if canonical cr2 then cr2 else 0)"

definition faulted_in_ring3 :: "u16 \<Rightarrow> bool" where
  "faulted_in_ring3 code_segment \<longleftrightarrow> code_segment AND 3 = 3"

definition terminate_ring3 :: "'d env \<Rightarrow> 'd kernel \<Rightarrow> (trap \<times> 'd kernel) option" where
  "terminate_ring3 E k = map_option (\<lambda>(p, k). (Switched p, k)) (terminate_current E k)"

definition breakpoint_handler :: "'d kernel \<Rightarrow> (trap \<times> 'd kernel) option" where
  "breakpoint_handler k = Some (Returned, k)"

definition double_fault_handler :: "'d kernel \<Rightarrow> (trap \<times> 'd kernel) option" where
  "double_fault_handler k = Some (Halted, k)"

definition PROTECTION_VIOLATION :: u64 where [const_defs]: "PROTECTION_VIOLATION = 1"
definition USER_MODE :: u64 where [const_defs]: "USER_MODE = 4"

definition page_fault_handler ::
  "'d env \<Rightarrow> u64 \<Rightarrow> u16 \<Rightarrow> u64 \<Rightarrow> u64 \<Rightarrow> 'd kernel \<Rightarrow> (trap \<times> 'd kernel) option" where
  "page_fault_handler E guard code_segment error_code cr2 k =
    (let fault_addr = fault_address cr2
     in if error_code AND USER_MODE = 0 \<and> guard \<le> fault_addr \<and> fault_addr < guard + 0x1000 then Some (Halted, k)
        else if faulted_in_ring3 code_segment then terminate_ring3 E k
        else if error_code AND PROTECTION_VIOLATION = 0 \<and>
             0xffffffff80000000 \<le> fault_addr \<and> fault_addr < 0xffffffffc0000000 then
          let (ok, m, mm) = manual_map (cr3 E) (hhdm_offset E) fault_addr (ram (mach k), frames k);
              k = k\<lparr>mach := (mach k)\<lparr>ram := m\<rparr>, frames := mm\<rparr>
          in Some (if ok then Returned else Halted, k)
        else Some (Halted, k))"

definition general_protection_handler :: "'d env \<Rightarrow> u16 \<Rightarrow> 'd kernel \<Rightarrow> (trap \<times> 'd kernel) option" where
  "general_protection_handler E code_segment k =
    (if faulted_in_ring3 code_segment then terminate_ring3 E k else Some (Halted, k))"

definition invalid_opcode_handler :: "'d env \<Rightarrow> u16 \<Rightarrow> 'd kernel \<Rightarrow> (trap \<times> 'd kernel) option" where
  "invalid_opcode_handler E code_segment k =
    (if faulted_in_ring3 code_segment then terminate_ring3 E k else Some (Halted, k))"

definition spurious_interrupt_handler :: "'d kernel \<Rightarrow> (trap \<times> 'd kernel) option" where
  "spurious_interrupt_handler k = Some (Returned, k)"

section \<open>Ring-3 programs\<close>

text \<open>\<open>blob\<close> are the bytes between the two labels of the program in the kernel image.\<close>

definition setup_user_task :: "'d env \<Rightarrow> u64 \<Rightarrow> u64 \<Rightarrow> u8 list \<Rightarrow> 'd kernel \<Rightarrow> (u64 \<times> u64) option \<times> 'd kernel" where
  "setup_user_task E code_va stack_va blob k =
    (case map_user_page (pt_mapper E) (cr3 E) (hhdm_offset E) code_va False True (ram (mach k), frames k) of
       (None, m, mm) \<Rightarrow> (None, k\<lparr>mach := (mach k)\<lparr>ram := m\<rparr>, frames := mm\<rparr>)
     | (Some code_fnum, m, mm) \<Rightarrow>
         (case map_user_page (pt_mapper E) (cr3 E) (hhdm_offset E) stack_va True False (m, mm) of
            (None, m, mm) \<Rightarrow> (None, k\<lparr>mach := (mach k)\<lparr>ram := m\<rparr>, frames := mm\<rparr>)
          | (Some _, m, mm) \<Rightarrow>
              (Some (code_va, stack_va + 0x1000),
               k\<lparr>mach := (mach k)\<lparr>ram := write_mem (phys_of (hhdm_offset E) (hhdm_offset E + code_fnum * 4096)) blob m\<rparr>,
                 frames := mm\<rparr>)))"

section \<open>Termination, in detail\<close>

lemma know_on_domain_death: "know (on_domain_death E d k) = know k"
proof -
  have adm: "TICKS (snd (admit_user E a b c e f g h i k)) = TICKS k" "TICK_NS (snd (admit_user E a b c e f g h i k)) = TICK_NS k"
    for a b c e f g h i and k :: "'a kernel"
    by (simp_all add: admit_user_def Let_def case_prod_beta split: option.split)
  show ?thesis
    unfolding on_domain_death_def on_caps_def Let_def case_prod_beta
    by (auto simp: adm know_def split: option.split)
qed

lemma know_reap: "know (reap_domain E d t k) = know k"
  by (simp add: know_def reap_domain_def Let_def case_prod_beta)

lemma on_domain_death_tasks:
  assumes "core_inv k W" "j < MAX_TASKS" "task_present (tasks (SCHED k) ! j)"
  shows "tasks (SCHED (on_domain_death E d k)) ! j = tasks (SCHED k) ! j"
  using core_invD(1) [OF assms(1)]
proof (cases rule: on_domain_death_cases [where d = d and E = E])
  case (restarted k1)
  then have "tasks (SCHED k1) ! j = tasks (SCHED k) ! j" by (simp add: unseen_def)
  moreover have "free_slot (SCHED k1) \<noteq> Some j"
    using task_slotD(3) [of "SCHED k1" j] assms(3) restarted(3) by (auto simp: unseen_def)
  ultimately show ?thesis using restarted(6) by (auto simp: admitted_def install_task_def)
qed simp

lemma terminate_current_spec:
  fixes E :: "'d env" and k :: "'d kernel"
  assumes inv: "kernel_inv k W" and cur: "current (SCHED k) \<noteq> 0" "current (SCHED k) \<notin> W" and now: "know k \<noteq> - 1"
  defines "d \<equiv> task_domain (tasks (SCHED k) ! current (SCHED k))"
  obtains k3 k' where "terminate_current E k = Some (current_rsp_of k', k')" "kernel_inv k' W"
    "k3 = on_domain_death E d (reap_domain E d (of_nat (current (SCHED k))) (k\<lparr>SCHED := free_current (SCHED k)\<rparr>))"
    "core_inv k3 W" "tasks (SCHED k') = tasks (release_all (know k) (SCHED k3))" "DOMAINS (caps k') = DOMAINS (caps k3)"
proof -
  let ?k2 = "reap_domain E d (of_nat (current (SCHED k))) (k\<lparr>SCHED := free_current (SCHED k)\<rparr>)"
  let ?k3 = "on_domain_death E d ?k2"
  have c2: "core_inv ?k2 W" by (rule core_inv_reap [OF inv cur])
  have c3: "core_inv ?k3 W" by (rule on_domain_death_inv(1) [OF c2])
  have kn: "know ?k3 = know k" unfolding know_on_domain_death know_reap by (simp add: know_def)
  obtain k' where sw: "switch_next ?k3 = Some k'"
    using switch_next_eq [OF core_invD(2) [OF c3]] kn now by (simp add: Let_def)
  have t: "terminate_current E k = Some (current_rsp_of k', k')"
    using sw by (simp add: terminate_current_def d_def Let_def)
  from c3 sw obtain s where "s = release_all (know ?k3) (SCHED ?k3)"
    "k' = publish_current (?k3\<lparr>SCHED := s\<lparr>current := pick_next s\<rparr>\<rparr>)" "kernel_inv k' W" by (rule switch_next_Some)
  then show ?thesis using that [OF t _ refl c3] kn by (simp add: set_current_domain_def)
qed

section \<open>Properties\<close>

text \<open>
  C5: a fault in ring 3 is contained. Whatever page fault, protection fault or invalid opcode the
  running ring-3 task raises, and whatever address it touched, the handler neither halts the
  machine nor maps a page: it terminates that task and switches to another one, in a state that
  satisfies the kernel invariant. All other tasks are still there, blocked or ready as before; unless the
  task was the supervised one, its slot is free, its domain has no capability left and the tables
  of all other domains are as before.
\<close>

theorem ring3_fault_is_contained:
  assumes "kernel_inv k W" and "current (SCHED k) \<noteq> 0" and "current (SCHED k) \<notin> W" and "know k \<noteq> - 1"
    and "code_segment AND 3 = 3" and "error_code AND USER_MODE \<noteq> 0"
    and "d = task_domain (tasks (SCHED k) ! current (SCHED k))"
    and "r = page_fault_handler E guard code_segment error_code cr2 k \<or>
      r = general_protection_handler E code_segment k \<or> r = invalid_opcode_handler E code_segment k"
  shows "\<exists>k'. r = Some (Switched (current_rsp_of k'), k') \<and> kernel_inv k' W \<and>
    (\<forall>j < MAX_TASKS. j \<noteq> current (SCHED k) \<and> task_present (tasks (SCHED k) ! j) \<longrightarrow>
       task_present (tasks (SCHED k') ! j) \<and> blocked (tasks (SCHED k') ! j) = blocked (tasks (SCHED k) ! j) \<and>
       rsp (tasks (SCHED k') ! j) = rsp (tasks (SCHED k) ! j) \<and> task_domain (tasks (SCHED k') ! j) = task_domain (tasks (SCHED k) ! j)) \<and>
    (d \<noteq> FAULT_DOMAIN \<longrightarrow> \<not> task_present (tasks (SCHED k') ! current (SCHED k)) \<and>
       (\<forall>x < MAX_DOMAINS. if x = unat d then \<forall>c. cap_at (DOMAINS (caps k') ! x) c = None
          else DOMAINS (caps k') ! x = DOMAINS (caps k) ! x))"
proof -
  let ?cur = "current (SCHED k)" and ?k1 = "k\<lparr>SCHED := free_current (SCHED k)\<rparr>"
  let ?k2 = "reap_domain E d (of_nat ?cur) ?k1"
  note I = kernel_invD [OF assms(1)]
  obtain k3 k' where t: "terminate_current E k = Some (current_rsp_of k', k')" "kernel_inv k' W"
    and k3: "k3 = on_domain_death E d ?k2" "core_inv k3 W"
    and k': "tasks (SCHED k') = tasks (release_all (know k) (SCHED k3))" "DOMAINS (caps k') = DOMAINS (caps k3)"
    unfolding assms(7) by (rule terminate_current_spec [OF assms(1-4), of E])
  have r: "r = Some (Switched (current_rsp_of k'), k')"
    using assms(5,6,8) t(1)
    by (auto simp: page_fault_handler_def general_protection_handler_def invalid_opcode_handler_def faulted_in_ring3_def
        terminate_ring3_def Let_def)
  have wf1: "wf_capspace (caps ?k1)" using I(2) by simp
  have c2: "core_inv ?k2 W" by (rule core_inv_reap [OF assms(1-3)])
  have s2: "SCHED ?k2 = free_current (SCHED k)" using reap_domain_caps(3) [OF wf1, of E d "of_nat ?cur"] by simp
  have len: "length (tasks (SCHED k)) = MAX_TASKS" "length (tasks (SCHED k3)) = MAX_TASKS"
    using sched_invD(1) [OF I(3)] sched_invD(1) [OF core_invD(2) [OF k3(2)]] by auto
  have f: "tasks (SCHED ?k2) ! j = tasks (SCHED k) ! j" if "j \<noteq> ?cur" for j
    unfolding s2 using that by (simp add: free_current_def Let_def)
  have other: "tasks (SCHED k3) ! j = tasks (SCHED k) ! j"
    if "j < MAX_TASKS" "j \<noteq> ?cur" "task_present (tasks (SCHED k) ! j)" for j
    using on_domain_death_tasks [OF c2 that(1)] f [OF that(2)] that(3) k3(1) by simp
  have gone: "\<not> task_present (tasks (SCHED k3) ! ?cur)"
    "DOMAINS (caps k3) = (if unat d < MAX_DOMAINS then (DOMAINS (caps k))[unat d := EMPTY_TABLE] else DOMAINS (caps k))"
    if "d \<noteq> FAULT_DOMAIN"
  proof -
    have "k3 = ?k2" using that k3(1) by (simp add: on_domain_death_def)
    moreover have "\<not> task_present (tasks (SCHED ?k2) ! ?cur)"
      unfolding s2 using len(1) I(7) by (simp add: free_current_def Let_def)
    moreover have "DOMAINS (caps ?k2) = (if unat d < MAX_DOMAINS then (DOMAINS (caps k))[unat d := EMPTY_TABLE] else DOMAINS (caps k))"
      by (simp add: reap_domain_def Let_def case_prod_beta)
    ultimately show "\<not> task_present (tasks (SCHED k3) ! ?cur)"
      "DOMAINS (caps k3) = (if unat d < MAX_DOMAINS then (DOMAINS (caps k))[unat d := EMPTY_TABLE] else DOMAINS (caps k))"
      by simp_all
  qed
  show ?thesis
    using r t(2) other gone len I(7) wf_capspaceD(2) [OF I(2)]
    by (intro exI [of _ k']) (simp add: k' release_all_nth EMPTY_TABLE_new nth_list_update)
qed

theorem ring3_fault_is_contained_witness:
  "\<exists>k'. page_fault_handler demo_env 0xffffffff801ff000 0x23 4 0xffffffff801ff010 ticked_kernel =
     Some (Switched (current_rsp_of k'), k') \<and> \<not> task_present (tasks (SCHED k') ! 1)"
proof -
  have inv: "kernel_inv ticked_kernel {}" by (rule reachable_inv [OF run_reachable(1)])
  show ?thesis
    using ring3_fault_is_contained [OF inv _ _ _ _ _ refl disjI1 [OF refl], where code_segment = "0x23" and error_code = 4
        and E = demo_env and guard = "0xffffffff801ff000" and ?cr2.0 = "0xffffffff801ff010"] ticked(2,4,6)
    by (auto simp: USER_MODE_def FAULT_DOMAIN_def)
qed

end
