(* ===== verification/Spec2Isabelle.thy ===== *)
theory Spec2Isabelle
  imports CapCore Sched Paging Pci CrashSafety Traps
begin

text \<open>Cairn: verification of the capability microkernel.\<close>

end
